(* ===== verification/Jobx_Prelude.thy ===== *)
theory Jobx_Prelude
  imports Main "HOL-Library.Multiset"
begin

text \<open>
  What the components share: the fact collections, Go's 64-bit integers, the outcomes a Go
  function can have, the error codes of \<open>internal/core/errors.go\<close>, and a few lemmas on lists
  and maps.
\<close>

section \<open>Fact collections\<close>

named_theorems go_time_simps \<open>evaluation of the model of Go's time package\<close>
named_theorems disp_simps \<open>frame and effect equations of the dispatcher's operations\<close>

section \<open>Go's 64-bit integers\<close>

text \<open>
  Go's \<open>int\<close>, \<open>int64\<close> and \<open>time.Duration\<close> are 64 bits wide and wrap. They are modelled as
  \<open>int\<close>, with \<open>wrap64\<close> at each operation of the source whose result can leave the range.
\<close>

definition max_int64 :: int where
  "max_int64 = 9223372036854775807"

definition min_int64 :: int where
  "min_int64 = - 9223372036854775808"

definition in_int64 :: "int \<Rightarrow> bool" where
  "in_int64 n \<longleftrightarrow> min_int64 \<le> n \<and> n \<le> max_int64"

definition wrap64 :: "int \<Rightarrow> int" where
  "wrap64 n = (n + 9223372036854775808) mod 18446744073709551616 - 9223372036854775808"

lemmas int64_defs = max_int64_def min_int64_def in_int64_def

lemma wrap64_id: "in_int64 n \<Longrightarrow> wrap64 n = n"
  unfolding wrap64_def int64_defs by simp

lemma wrap64_in_int64: "in_int64 (wrap64 n)"
proof -
  have "0 \<le> (n + 9223372036854775808) mod 18446744073709551616"
    and "(n + 9223372036854775808) mod 18446744073709551616 < 18446744073709551616"
    by simp_all
  then show ?thesis unfolding wrap64_def int64_defs by linarith
qed

lemma wrap64_overflow:
  assumes "max_int64 < n" "n \<le> 2 * max_int64 + 1"
  shows "wrap64 n < 0"
proof -
  have "(n + 9223372036854775808) mod 18446744073709551616
      = (n - 9223372036854775808) mod 18446744073709551616"
    using mod_add_self2 [of "n - 9223372036854775808" "18446744073709551616"]
    by (simp add: algebra_simps)
  moreover have "(n - 9223372036854775808) mod 18446744073709551616 = n - 9223372036854775808"
    using assms unfolding int64_defs by simp
  ultimately show ?thesis using assms unfolding wrap64_def int64_defs by simp
qed

text \<open>Go's left shift of an \<open>int64\<close> by a non-negative count; counts of 64 and more give 0.\<close>

definition shl64 :: "int \<Rightarrow> nat \<Rightarrow> int" where
  "shl64 x n = wrap64 (x * 2 ^ n)"

lemma shl64_no_overflow: "in_int64 (x * 2 ^ n) \<Longrightarrow> shl64 x n = x * 2 ^ n"
  by (simp add: shl64_def wrap64_id)

section \<open>Outcomes of a Go function\<close>

text \<open>
  A Go function returns a value, returns an error, panics, or does not return.
\<close>

datatype ('e, 'a) outcome = Ok 'a | Err 'e | Panic | NoReturn

fun bind_outcome :: "('e, 'a) outcome \<Rightarrow> ('a \<Rightarrow> ('e, 'b) outcome) \<Rightarrow> ('e, 'b) outcome" where
  "bind_outcome (Ok x) f = f x"
| "bind_outcome (Err e) f = Err e"
| "bind_outcome Panic f = Panic"
| "bind_outcome NoReturn f = NoReturn"

lemma bind_outcome_eq_Ok:
  "bind_outcome m f = Ok y \<longleftrightarrow> (\<exists>x. m = Ok x \<and> f x = Ok y)"
  by (cases m) auto

lemma bind_outcome_eq_NoReturn:
  "bind_outcome m f = NoReturn \<longleftrightarrow> m = NoReturn \<or> (\<exists>x. m = Ok x \<and> f x = NoReturn)"
  by (cases m) auto

lemma bind_outcome_eq_Panic:
  "bind_outcome m f = Panic \<longleftrightarrow> m = Panic \<or> (\<exists>x. m = Ok x \<and> f x = Panic)"
  by (cases m) auto

section \<open>Lists\<close>

lemma takeWhile_append_stop: "\<forall>x\<in>set xs. P x \<Longrightarrow> \<not> P y \<Longrightarrow> takeWhile P (xs @ y # ys) = xs"
  by (induction xs) auto

lemma dropWhile_append_stop: "\<forall>x\<in>set xs. P x \<Longrightarrow> \<not> P y \<Longrightarrow> dropWhile P (xs @ y # ys) = y # ys"
  by (induction xs) auto

lemma takeWhile_all: "\<forall>x\<in>set xs. P x \<Longrightarrow> takeWhile P xs = xs"
  by (induction xs) auto

lemma dropWhile_all: "\<forall>x\<in>set xs. P x \<Longrightarrow> dropWhile P xs = []"
  by (induction xs) auto

end
