(* ===== verification/Go_Strings.thy ===== *)
theory Go_Strings
  imports Jobx_Prelude
begin

text \<open>
  The functions of Go's \<open>strings\<close>, \<open>strconv\<close> and \<open>fmt\<close> the source calls, on strings of
  bytes: \<open>strings.Fields\<close>, \<open>strings.Split\<close>, \<open>strings.SplitN\<close> with a limit of 2,
  \<open>strconv.Atoi\<close>, and the decimal form that the verb \<open>d\<close> of \<open>fmt.Sprintf\<close> prints.
  \<open>is_space\<close> knows the ASCII white space; strings with other Unicode spaces are outside the
  model.
\<close>

section \<open>Splitting\<close>

definition is_space :: "char \<Rightarrow> bool" where
  "is_space c \<longleftrightarrow> c = CHR '' '' \<or> c = CHR 0x09 \<or> c = CHR 0x0A \<or> c = CHR 0x0B \<or> c = CHR 0x0C \<or> c = CHR 0x0D"

definition not_space :: "char \<Rightarrow> bool" where
  "not_space c \<longleftrightarrow> \<not> is_space c"

function go_fields :: "string \<Rightarrow> string list" where
  "go_fields [] = []"
| "go_fields (c # cs) =
     (if is_space c then go_fields cs
      else (c # takeWhile not_space cs) # go_fields (dropWhile not_space cs))"
  by pat_completeness auto
termination
  by (relation "measure length") (auto simp: le_imp_less_Suc length_dropWhile_le)

fun split_on :: "char \<Rightarrow> string \<Rightarrow> string list" where
  "split_on sep [] = [[]]"
| "split_on sep (c # cs) =
     (if c = sep then [] # split_on sep cs
      else case split_on sep cs of [] \<Rightarrow> [[c]] | w # ws \<Rightarrow> (c # w) # ws)"

definition not_char :: "char \<Rightarrow> char \<Rightarrow> bool" where
  "not_char sep c \<longleftrightarrow> c \<noteq> sep"

text \<open>The two parts \<open>SplitN(s, sep, 2)\<close> gives when \<open>sep\<close> occurs in \<open>s\<close>.\<close>

definition before_char :: "char \<Rightarrow> string \<Rightarrow> string" where
  "before_char sep s = takeWhile (not_char sep) s"

definition after_char :: "char \<Rightarrow> string \<Rightarrow> string" where
  "after_char sep s = drop 1 (dropWhile (not_char sep) s)"

lemma split_on_nonempty [simp]: "split_on sep s \<noteq> []"
  by (induction s) (auto split: list.splits)

lemma split_on_none: "sep \<notin> set s \<Longrightarrow> split_on sep s = [s]"
  by (induction s) auto

lemma split_on_append: "sep \<notin> set s \<Longrightarrow> split_on sep (s @ sep # r) = s # split_on sep r"
  by (induction s) auto

lemma before_char_append: "sep \<notin> set s \<Longrightarrow> before_char sep (s @ sep # r) = s"
  unfolding before_char_def by (rule takeWhile_append_stop) (auto simp: not_char_def)

lemma after_char_append: "sep \<notin> set s \<Longrightarrow> after_char sep (s @ sep # r) = r"
  unfolding after_char_def by (subst dropWhile_append_stop) (auto simp: not_char_def)

lemma go_fields_word:
  assumes "w \<noteq> []" "\<forall>c\<in>set w. not_space c"
  shows "go_fields (w @ CHR '' '' # r) = w # go_fields r"
proof -
  obtain c cs where w: "w = c # cs" using assms(1) by (cases w) auto
  have stop: "\<not> not_space (CHR '' '')" by (simp add: not_space_def is_space_def)
  have all: "\<forall>c\<in>set cs. not_space c" and c: "\<not> is_space c" using assms(2) w by (auto simp: not_space_def)
  show ?thesis
    using takeWhile_append_stop [where xs = cs and ys = r, OF all stop]
      dropWhile_append_stop [where xs = cs and ys = r, OF all stop] c
    by (simp add: w is_space_def)
qed

lemma go_fields_last:
  assumes "w \<noteq> []" "\<forall>c\<in>set w. not_space c"
  shows "go_fields w = [w]"
proof -
  obtain c cs where w: "w = c # cs" using assms(1) by (cases w) auto
  have all: "\<forall>c\<in>set cs. not_space c" and c: "\<not> is_space c" using assms(2) w by (auto simp: not_space_def)
  show ?thesis using takeWhile_all [OF all] dropWhile_all [OF all] c
    by (simp add: w del: takeWhile_eq_all_conv dropWhile_eq_Nil_conv)
qed

section \<open>Numbers\<close>

definition digit_val :: "char \<Rightarrow> int option" where
  "digit_val c =
     (let n = (of_char c :: nat) in if 48 \<le> n \<and> n \<le> 57 then Some (int n - 48) else None)"

fun digits_val :: "int \<Rightarrow> string \<Rightarrow> int option" where
  "digits_val acc [] = Some acc"
| "digits_val acc (c # cs) =
     (case digit_val c of None \<Rightarrow> None | Some d \<Rightarrow> digits_val (10 * acc + d) cs)"

definition atoi_unsigned :: "bool \<Rightarrow> string \<Rightarrow> int option" where
  "atoi_unsigned neg ds =
     (if ds = [] then None
      else case digits_val 0 ds of
        None \<Rightarrow> None
      | Some n \<Rightarrow> (let v = (if neg then - n else n) in if in_int64 v then Some v else None))"

definition atoi :: "string \<Rightarrow> int option" where
  "atoi s =
     (case s of
        [] \<Rightarrow> None
      | c # cs \<Rightarrow> if c = CHR ''-'' then atoi_unsigned True cs
                else if c = CHR ''+'' then atoi_unsigned False cs
                else atoi_unsigned False s)"

definition digit_char :: "nat \<Rightarrow> char" where
  "digit_char d = char_of (48 + d)"

fun show_nat :: "nat \<Rightarrow> string" where
  "show_nat n = (if n < 10 then [digit_char n] else show_nat (n div 10) @ [digit_char (n mod 10)])"

declare show_nat.simps [simp del]

definition show_int :: "int \<Rightarrow> string" where
  "show_int n = (if n < 0 then CHR ''-'' # show_nat (nat (- n)) else show_nat (nat n))"

definition is_digit :: "char \<Rightarrow> bool" where
  "is_digit c \<longleftrightarrow> digit_val c \<noteq> None"

lemma digit_val_digit_char: "d < 10 \<Longrightarrow> digit_val (digit_char d) = Some (int d)"
proof -
  assume d: "d < 10"
  have "of_char (digit_char d) = ((48 + d) mod 256 :: nat)"
    by (simp add: digit_char_def)
  with d have "of_char (digit_char d) = (48 + d :: nat)" by simp
  with d show ?thesis by (simp add: digit_val_def)
qed

lemma digits_val_append:
  "digits_val acc (xs @ ys) = (case digits_val acc xs of None \<Rightarrow> None | Some n \<Rightarrow> digits_val n ys)"
  by (induction xs arbitrary: acc) (auto split: option.splits)

lemma show_nat_nonempty [simp]: "show_nat n \<noteq> []"
  by (subst show_nat.simps) simp

lemma digits_val_show_nat: "digits_val 0 (show_nat n) = Some (int n)"
proof (induction n rule: show_nat.induct)
  case (1 n)
  show ?case
  proof (cases "n < 10")
    case True
    then show ?thesis by (subst show_nat.simps) (simp add: digit_val_digit_char)
  next
    case False
    with 1 have "digits_val 0 (show_nat (n div 10)) = Some (int (n div 10))" by simp
    moreover have "10 * int (n div 10) + int (n mod 10) = int n"
      using mult_div_mod_eq [of 10 n] by (metis of_nat_add of_nat_mult of_nat_numeral)
    ultimately show ?thesis using False
      by (subst show_nat.simps) (simp add: digits_val_append digit_val_digit_char)
  qed
qed

lemma show_nat_digits: "c \<in> set (show_nat n) \<Longrightarrow> is_digit c"
proof (induction n rule: show_nat.induct)
  case (1 n)
  then show ?case
    by (subst (asm) show_nat.simps [of n])
       (auto simp: is_digit_def digit_val_digit_char split: if_splits)
qed

lemma not_digit [simp]:
  "\<not> is_digit (CHR ''-'')" "\<not> is_digit (CHR ''+'')" "\<not> is_digit (CHR ''/'')"
  "\<not> is_digit (CHR '','')" "\<not> is_digit (CHR ''*'')" "\<not> is_digit (CHR ''?'')"
  by (simp_all add: is_digit_def digit_val_def)

lemma space_not_digit: "is_space c \<Longrightarrow> \<not> is_digit c"
  by (elim is_space_def [THEN iffD1, elim_format] disjE) (simp_all add: is_digit_def digit_val_def)

lemma is_digit_cases:
  "is_digit c \<Longrightarrow> c \<noteq> CHR ''-'' \<and> c \<noteq> CHR ''+'' \<and> c \<noteq> CHR ''/'' \<and> c \<noteq> CHR '','' \<and> c \<noteq> CHR ''*'' \<and> c \<noteq> CHR ''?'' \<and> not_space c"
  using not_digit space_not_digit unfolding not_space_def by blast

lemma atoi_show_nat: "in_int64 (int n) \<Longrightarrow> atoi (show_nat n) = Some (int n)"
proof -
  assume n: "in_int64 (int n)"
  obtain c cs where s: "show_nat n = c # cs" by (cases "show_nat n") auto
  have "is_digit c" using show_nat_digits [of c n] s by simp
  then have "c \<noteq> CHR ''-''" "c \<noteq> CHR ''+''" using is_digit_cases by blast+
  then have "atoi (show_nat n) = atoi_unsigned False (show_nat n)" by (simp add: atoi_def s)
  then show ?thesis by (simp add: atoi_unsigned_def digits_val_show_nat n)
qed

lemma atoi_show_int: "in_int64 n \<Longrightarrow> atoi (show_int n) = Some n"
proof (cases "n < 0")
  case True
  assume "in_int64 n"
  then show ?thesis using True
    by (simp add: show_int_def atoi_def atoi_unsigned_def digits_val_show_nat)
next
  case False
  assume "in_int64 n"
  then show ?thesis using False atoi_show_nat [of "nat n"] by (simp add: show_int_def)
qed

lemma atoi_show_nat_big: "\<not> in_int64 (int n) \<Longrightarrow> atoi (show_nat n) = None"
proof -
  assume n: "\<not> in_int64 (int n)"
  obtain c cs where s: "show_nat n = c # cs" by (cases "show_nat n") auto
  have "is_digit c" using show_nat_digits [of c n] s by simp
  then have "c \<noteq> CHR ''-''" "c \<noteq> CHR ''+''" using is_digit_cases by blast+
  then have "atoi (show_nat n) = atoi_unsigned False (show_nat n)" by (simp add: atoi_def s)
  then show ?thesis by (simp add: atoi_unsigned_def digits_val_show_nat n)
qed

lemma minus_not_space: "not_space (CHR ''-'')"
  by (simp add: not_space_def is_space_def)

lemma show_int_not_space: "c \<in> set (show_int n) \<Longrightarrow> not_space c"
proof -
  assume "c \<in> set (show_int n)"
  then consider "c = CHR ''-''" | k where "c \<in> set (show_nat k)"
    unfolding show_int_def by (cases "n < 0") auto
  then show ?thesis
  proof cases
    case 1
    then show ?thesis using minus_not_space by simp
  next
    case 2
    then show ?thesis using show_nat_digits is_digit_cases by blast
  qed
qed

lemma show_int_nonempty [simp]: "show_int n \<noteq> []"
  by (simp add: show_int_def)

end
