(* ===== verification/Cron_Expr.thy ===== *)
theory Cron_Expr
  imports Go_Strings
begin

text \<open>
  \<open>cron/cron.go\<close>, the parser: \<open>field\<close>, \<open>Expr\<close>, \<open>Parse\<close>, \<open>parseField\<close>, and the errors
  \<open>parseError\<close> builds. The array \<open>set [60]bool\<close> is a list of 60 booleans, and an index
  outside it is a panic. An error keeps the field and the offending text of its message.
\<close>

section \<open>Data\<close>

datatype cron_field = FSec | FMin | FHour | FDom | FMonth | FDow

datatype cron_error =
    BadFieldCount
  | BadStep cron_field string
  | BadRange cron_field string
  | BadValue cron_field string
  | ScanLimit
  | BadCount

record field =
  f_set :: "bool list"
  f_all :: bool

record expr =
  e_raw :: string
  e_sec :: field
  e_min :: field
  e_hour :: field
  e_dom :: field
  e_month :: field
  e_dow :: field

definition max_scan_years :: int where
  "max_scan_years = 5"

definition empty_field :: field where
  "empty_field = \<lparr>f_set = replicate 60 False, f_all = False\<rparr>"

text \<open>Reading the array at an index the code has checked.\<close>

definition in_field :: "field \<Rightarrow> int \<Rightarrow> bool" where
  "in_field f i \<longleftrightarrow> f_set f ! nat i"

section \<open>Parsing a field\<close>

text \<open>The next index of the loop has wrapped or not.\<close>

lemma mark_next:
  assumes "0 \<le> i" "i < 60" "0 < step" "step \<le> max_int64"
  shows "wrap64 (i + step) < 0 \<or> wrap64 (i + step) = i + step"
proof (cases "i + step \<le> max_int64")
  case True
  then have "in_int64 (i + step)" using assms by (simp add: int64_defs)
  then show ?thesis by (simp add: wrap64_id)
next
  case False
  then show ?thesis using assms wrap64_overflow [of "i + step"] by (simp add: int64_defs)
qed

text \<open>
  The loop \<open>for i := lo; i <= hi; i += step\<close>. The index is an \<open>int64\<close> and wraps. The code
  has checked that the step is positive, and \<open>Atoi\<close> returns an \<open>int64\<close>; a step outside
  these bounds (with 0 the loop would not end) has no place in a run.
\<close>

function mark_steps :: "bool list \<Rightarrow> int \<Rightarrow> int \<Rightarrow> int \<Rightarrow> (cron_error, bool list) outcome" where
  "mark_steps s i hi step =
     (if i \<le> hi then
        if 0 \<le> i \<and> i < 60 then
          if 0 < step \<and> step \<le> max_int64 then mark_steps (s[nat i := True]) (wrap64 (i + step)) hi step
          else NoReturn
        else Panic
      else Ok s)"
  by pat_completeness auto

termination
proof (relation "measure (\<lambda>(s, i, hi, step). if i < 0 then 0 else nat (60 - i))", goal_cases)
  case 1
  then show ?case by simp
next
  case (2 s i hi step)
  then show ?case using mark_next [of i step] by auto
qed

declare mark_steps.simps [simp del]

text \<open>The body of the loop over the parts of a field, on the set and the flag \<open>all\<close>.\<close>

definition part_step :: "string \<Rightarrow> int option" where
  "part_step part =
     (if CHR ''/'' \<in> set part then
        case atoi (after_char (CHR ''/'') part) of
          None \<Rightarrow> None
        | Some n \<Rightarrow> if n \<le> 0 then None else Some n
      else Some 1)"

definition part_base :: "string \<Rightarrow> string" where
  "part_base part = (if CHR ''/'' \<in> set part then before_char (CHR ''/'') part else part)"

definition part_range :: "cron_field \<Rightarrow> int \<Rightarrow> int \<Rightarrow> string \<Rightarrow> (cron_error, int \<times> int) outcome" where
  "part_range fld mn mx base =
     (if base = ''*'' then Ok (mn, mx)
      else if CHR ''-'' \<in> set base then
        case (atoi (before_char (CHR ''-'') base), atoi (after_char (CHR ''-'') base)) of
          (Some a, Some b) \<Rightarrow> if a < mn \<or> mx < b \<or> b < a then Err (BadRange fld base) else Ok (a, b)
        | _ \<Rightarrow> Err (BadRange fld base)
      else
        case atoi base of
          None \<Rightarrow> Err (BadValue fld base)
        | Some n \<Rightarrow> if n < mn \<or> mx < n then Err (BadValue fld base) else Ok (n, n))"

definition parse_part ::
  "cron_field \<Rightarrow> int \<Rightarrow> int \<Rightarrow> string \<Rightarrow> bool list \<times> bool \<Rightarrow> (cron_error, bool list \<times> bool) outcome" where
  "parse_part fld mn mx p acc =
     (let part = (if p = ''?'' then ''*'' else p); base = part_base part
      in case part_step part of
           None \<Rightarrow> Err (BadStep fld (after_char (CHR ''/'') part))
         | Some step \<Rightarrow>
             bind_outcome (part_range fld mn mx base) (\<lambda>(lo, hi).
             bind_outcome (mark_steps (fst acc) lo hi step) (\<lambda>s.
               Ok (s, snd acc \<or> base = ''*''))))"

fun parse_parts ::
  "cron_field \<Rightarrow> int \<Rightarrow> int \<Rightarrow> string list \<Rightarrow> bool list \<times> bool \<Rightarrow> (cron_error, bool list \<times> bool) outcome" where
  "parse_parts fld mn mx [] acc = Ok acc"
| "parse_parts fld mn mx (p # ps) acc =
     bind_outcome (parse_part fld mn mx p acc) (parse_parts fld mn mx ps)"

definition parse_field :: "cron_field \<Rightarrow> int \<Rightarrow> int \<Rightarrow> string \<Rightarrow> (cron_error, field) outcome" where
  "parse_field fld mn mx s =
     bind_outcome (parse_parts fld mn mx (split_on (CHR '','') s) (f_set empty_field, False))
       (\<lambda>(set, all). Ok \<lparr>f_set = set, f_all = all\<rparr>)"

section \<open>Parsing an expression\<close>

text \<open>\<open>Parse\<close>: with five fields the second is 0 and the other fields follow.\<close>

definition zero_second :: field where
  "zero_second = \<lparr>f_set = (f_set empty_field)[0 := True], f_all = False\<rparr>"

definition parse_tail :: "string \<Rightarrow> field \<Rightarrow> string list \<Rightarrow> (cron_error, expr) outcome" where
  "parse_tail raw sec parts =
     bind_outcome (parse_field FMin 0 59 (parts ! 0)) (\<lambda>mi.
     bind_outcome (parse_field FHour 0 23 (parts ! 1)) (\<lambda>h.
     bind_outcome (parse_field FDom 1 31 (parts ! 2)) (\<lambda>d.
     bind_outcome (parse_field FMonth 1 12 (parts ! 3)) (\<lambda>m.
     bind_outcome (parse_field FDow 0 6 (parts ! 4)) (\<lambda>w.
       Ok \<lparr>e_raw = raw, e_sec = sec, e_min = mi, e_hour = h, e_dom = d, e_month = m, e_dow = w\<rparr>)))))"

definition parse :: "string \<Rightarrow> (cron_error, expr) outcome" where
  "parse s =
     (let parts = go_fields s
      in if length parts \<noteq> 5 \<and> length parts \<noteq> 6 then Err BadFieldCount
         else if length parts = 6 then
           bind_outcome (parse_field FSec 0 59 (parts ! 0)) (\<lambda>sec. parse_tail s sec (tl parts))
         else parse_tail s zero_second parts)"

text \<open>\<open>Expr.String\<close>.\<close>

definition expr_string :: "expr \<Rightarrow> string" where
  "expr_string e = e_raw e"

section \<open>What the loop marks\<close>

lemma mark_steps_cases:
  assumes "length s = 60" "0 \<le> i" "hi < 60" "0 < step" "step \<le> max_int64"
  shows "mark_steps s i hi step = Panic \<or>
    (\<exists>s'. mark_steps s i hi step = Ok s' \<and> length s' = 60 \<and>
       (\<forall>k<60. s' ! k \<longleftrightarrow> s ! k \<or> (i \<le> int k \<and> int k \<le> hi \<and> step dvd int k - i)))"
  using assms
proof (induction s i hi step rule: mark_steps.induct)
  case (1 s i hi step)
  show ?case
  proof (cases "i \<le> hi")
    case False
    then show ?thesis using 1 by (subst (1 2) mark_steps.simps) auto
  next
    case le: True
    with 1 have i: "0 \<le> i \<and> i < 60" by simp
    let ?n = "wrap64 (i + step)"
    have eq: "mark_steps s i hi step = mark_steps (s[nat i := True]) ?n hi step"
      using le i 1 by (subst mark_steps.simps) simp
    show ?thesis
    proof (cases "?n < 0")
      case True
      then have "mark_steps (s[nat i := True]) ?n hi step = Panic"
        using le i by (subst mark_steps.simps) simp
      with eq show ?thesis by simp
    next
      case False
      then have n: "?n = i + step" using mark_next [of i step] i 1 by simp
      have split: "(s[nat i := True]) ! k \<or> (i + step \<le> int k \<and> int k \<le> hi \<and> step dvd int k - (i + step))
          \<longleftrightarrow> s ! k \<or> (i \<le> int k \<and> int k \<le> hi \<and> step dvd int k - i)" if "k < 60" for k
      proof (cases "int k = i")
        case True
        then show ?thesis using le i that 1(2) by auto
      next
        case ne: False
        have dvd: "step dvd int k - (i + step) \<longleftrightarrow> step dvd int k - i"
        proof -
          have "int k - i = (int k - (i + step)) + step" by simp
          then show ?thesis by (metis dvd_add_triv_right_iff)
        qed
        have "i + step \<le> int k" if "i \<le> int k" "step dvd int k - i"
          using ne that 1(5) zdvd_imp_le [of step "int k - i"] by simp
        with dvd ne i 1(5) show ?thesis by auto
      qed
      have "mark_steps (s[nat i := True]) (i + step) hi step = Panic \<or>
        (\<exists>s'. mark_steps (s[nat i := True]) (i + step) hi step = Ok s' \<and> length s' = 60 \<and>
          (\<forall>k<60. s' ! k \<longleftrightarrow> (s[nat i := True]) ! k \<or>
            (i + step \<le> int k \<and> int k \<le> hi \<and> step dvd int k - (i + step))))"
        using 1(1) [OF le i] 1(2-) i by (simp add: n)
      then show ?thesis unfolding eq n using split by auto
    qed
  qed
qed

lemma mark_steps_panic:
  assumes "mark_steps s i hi step = Panic" "0 \<le> i" "hi < 60"
  shows "max_int64 - hi < step"
  using assms
proof (induction s i hi step rule: mark_steps.induct)
  case (1 s i hi step)
  show ?case
  proof (cases "i \<le> hi \<and> 0 < step \<and> step \<le> max_int64")
    case True
    then have eq: "mark_steps (s[nat i := True]) (wrap64 (i + step)) hi step = Panic"
      using 1(2-) by (subst (asm) mark_steps.simps) simp
    show ?thesis
    proof (cases "i + step \<le> max_int64")
      case le: True
      then have "wrap64 (i + step) = i + step" using True 1(3) by (simp add: wrap64_id int64_defs)
      then show ?thesis using 1(1) eq True 1(3,4) by simp
    next
      case False
      then show ?thesis using True by linarith
    qed
  next
    case False
    then show ?thesis using 1(2-) by (subst (asm) mark_steps.simps) (auto split: if_splits)
  qed
qed

lemma mark_steps_ok:
  assumes "length s = 60" "0 \<le> i" "hi < 60" "0 < step" "step \<le> max_int64 - 59"
  shows "\<exists>s'. mark_steps s i hi step = Ok s' \<and> length s' = 60 \<and>
       (\<forall>k<60. s' ! k \<longleftrightarrow> s ! k \<or> (i \<le> int k \<and> int k \<le> hi \<and> step dvd int k - i))"
  using mark_steps_cases [of s i hi step] mark_steps_panic [of s i hi step] assms by auto

lemma mark_steps_overflow:
  assumes "0 \<le> i" "i \<le> hi" "hi < 60" "0 < step" "step \<le> max_int64" "max_int64 < i + step"
  shows "mark_steps s i hi step = Panic"
proof -
  have "wrap64 (i + step) < 0" using assms wrap64_overflow [of "i + step"] by (simp add: int64_defs)
  with assms show ?thesis
    by (subst mark_steps.simps, simp) (subst mark_steps.simps, simp)
qed

lemma mark_steps_returns:
  assumes "0 < step" "step \<le> max_int64"
  shows "mark_steps s i hi step \<noteq> NoReturn"
  using assms
proof (induction s i hi step rule: mark_steps.induct)
  case (1 s i hi step)
  then show ?case by (subst mark_steps.simps) simp
qed

section \<open>Parts and fields\<close>

lemma atoi_in_int64: "atoi s = Some n \<Longrightarrow> in_int64 n"
  by (auto simp: atoi_def atoi_unsigned_def Let_def split: list.splits if_splits option.splits)

lemma part_step_pos: "part_step p = Some n \<Longrightarrow> 0 < n \<and> n \<le> max_int64"
  by (auto simp: part_step_def int64_defs dest: atoi_in_int64 split: if_splits option.splits)

lemma part_range_Ok:
  assumes "part_range fld mn mx base = Ok (lo, hi)" "mn \<le> mx"
  shows "mn \<le> lo \<and> lo \<le> hi \<and> hi \<le> mx"
  using assms by (auto simp: part_range_def split: if_splits option.splits)

lemma part_range_value: "part_range fld mn mx base \<noteq> Panic \<and> part_range fld mn mx base \<noteq> NoReturn"
  by (auto simp: part_range_def split: option.splits)

lemma question_step [simp]: "part_step ''?'' = Some 1" "part_step ''*'' = Some 1"
  by (simp_all add: part_step_def)

lemma parse_part_returns: "parse_part fld mn mx p acc \<noteq> NoReturn"
proof (cases "part_step (if p = ''?'' then ''*'' else p)")
  case None
  then show ?thesis by (simp add: parse_part_def Let_def)
next
  case (Some step)
  then show ?thesis
    using part_step_pos [OF Some] mark_steps_returns part_range_value
    by (auto simp: parse_part_def Let_def bind_outcome_eq_NoReturn split: prod.splits)
qed

lemma parse_part_panic:
  assumes "parse_part fld mn mx p acc = Panic" "0 \<le> mn" "mn \<le> mx" "mx < 60"
  shows "\<exists>n. part_step p = Some n \<and> max_int64 - mx < n"
proof (cases "part_step (if p = ''?'' then ''*'' else p)")
  case None
  then show ?thesis using assms by (simp add: parse_part_def Let_def)
next
  case (Some step)
  then obtain lo hi where r: "part_range fld mn mx (part_base (if p = ''?'' then ''*'' else p)) = Ok (lo, hi)"
    and m: "mark_steps (fst acc) lo hi step = Panic"
    using assms(1) part_range_value
    by (auto simp: parse_part_def Let_def bind_outcome_eq_Panic split: prod.splits)
  from part_range_Ok [OF r assms(3)] have "max_int64 - mx < step"
    using mark_steps_panic [OF m] assms(2-4) by simp
  then show ?thesis using Some by (auto split: if_splits)
qed

text \<open>A part that parses marks values between the bounds, and marks at least one.\<close>

lemma parse_part_Ok:
  assumes "parse_part fld mn mx p (s, al) = Ok (s', al')" "length s = 60" "0 \<le> mn" "mn \<le> mx" "mx < 60"
  shows "length s' = 60 \<and> (\<forall>k<60. s ! k \<longrightarrow> s' ! k) \<and>
    (\<forall>k<60. s' ! k \<and> \<not> s ! k \<longrightarrow> mn \<le> int k \<and> int k \<le> mx) \<and> (\<exists>k<60. s' ! k)"
proof -
  obtain step lo hi where st: "part_step (if p = ''?'' then ''*'' else p) = Some step"
    and r: "part_range fld mn mx (part_base (if p = ''?'' then ''*'' else p)) = Ok (lo, hi)"
    and m: "mark_steps s lo hi step = Ok s'"
    using assms(1) by (auto simp: parse_part_def Let_def bind_outcome_eq_Ok split: option.splits)
  have b: "mn \<le> lo \<and> lo \<le> hi \<and> hi \<le> mx" using part_range_Ok [OF r assms(4)] .
  have spec: "length s' = 60 \<and>
      (\<forall>k<60. s' ! k \<longleftrightarrow> s ! k \<or> (lo \<le> int k \<and> int k \<le> hi \<and> step dvd int k - lo))"
    using mark_steps_cases [of s lo hi step] m assms b part_step_pos [OF st] by auto
  moreover have "s' ! nat lo \<and> nat lo < 60" using spec b assms by auto
  ultimately show ?thesis using b by auto
qed

definition wf_field :: "int \<Rightarrow> int \<Rightarrow> field \<Rightarrow> bool" where
  "wf_field mn mx f \<longleftrightarrow> length (f_set f) = 60 \<and>
     (\<forall>k<60. f_set f ! k \<longrightarrow> mn \<le> int k \<and> int k \<le> mx) \<and> (\<exists>k<60. f_set f ! k)"

lemma parse_parts_Ok:
  assumes "parse_parts fld mn mx ps (s, al) = Ok (s', al')" "length s = 60"
    "\<forall>k<60. s ! k \<longrightarrow> mn \<le> int k \<and> int k \<le> mx" "ps \<noteq> [] \<or> (\<exists>k<60. s ! k)"
    "0 \<le> mn" "mn \<le> mx" "mx < 60"
  shows "wf_field mn mx \<lparr>f_set = s', f_all = al'\<rparr>"
  using assms
proof (induction ps arbitrary: s al)
  case Nil
  then show ?case by (simp add: wf_field_def)
next
  case (Cons p ps)
  then obtain s1 al1 where p: "parse_part fld mn mx p (s, al) = Ok (s1, al1)"
    and ps: "parse_parts fld mn mx ps (s1, al1) = Ok (s', al')"
    by (auto simp: bind_outcome_eq_Ok)
  from parse_part_Ok [OF p] Cons.prems
  have "length s1 = 60" "\<forall>k<60. s1 ! k \<longrightarrow> mn \<le> int k \<and> int k \<le> mx" "\<exists>k<60. s1 ! k"
    by blast+
  then show ?case using Cons.IH [OF ps] Cons.prems(5-7) by blast
qed

lemma parse_parts_returns: "parse_parts fld mn mx ps acc \<noteq> NoReturn"
  by (induction ps arbitrary: acc) (auto simp: bind_outcome_eq_NoReturn parse_part_returns)

lemma parse_parts_panic:
  assumes "parse_parts fld mn mx ps acc = Panic" "0 \<le> mn" "mn \<le> mx" "mx < 60"
  shows "\<exists>p\<in>set ps. \<exists>n. part_step p = Some n \<and> max_int64 - mx < n"
  using assms
proof (induction ps arbitrary: acc)
  case Nil
  then show ?case by simp
next
  case (Cons p ps)
  then show ?case using parse_part_panic [of fld mn mx p acc] by (auto simp: bind_outcome_eq_Panic)
qed

lemma parse_field_wf:
  assumes "parse_field fld mn mx s = Ok f" "0 \<le> mn" "mn \<le> mx" "mx < 60"
  shows "wf_field mn mx f"
proof -
  obtain s' al' where p: "parse_parts fld mn mx (split_on (CHR '','') s) (f_set empty_field, False) = Ok (s', al')"
    and f: "f = \<lparr>f_set = s', f_all = al'\<rparr>"
    using assms(1) by (auto simp: parse_field_def bind_outcome_eq_Ok)
  show ?thesis unfolding f
    by (rule parse_parts_Ok [OF p]) (use assms in \<open>simp_all add: empty_field_def\<close>)
qed

lemma parse_field_returns: "parse_field fld mn mx s \<noteq> NoReturn"
  by (auto simp: parse_field_def bind_outcome_eq_NoReturn parse_parts_returns)

lemma parse_field_panic:
  assumes "parse_field fld mn mx s = Panic" "0 \<le> mn" "mn \<le> mx" "mx < 60"
  shows "\<exists>p\<in>set (split_on (CHR '','') s). \<exists>n. part_step p = Some n \<and> max_int64 - mx < n"
  using assms(1) parse_parts_panic [OF _ assms(2-4)]
  by (auto simp: parse_field_def bind_outcome_eq_Panic)

section \<open>Expressions\<close>

definition wf_expr :: "expr \<Rightarrow> bool" where
  "wf_expr e \<longleftrightarrow> wf_field 0 59 (e_sec e) \<and> wf_field 0 59 (e_min e) \<and> wf_field 0 23 (e_hour e) \<and>
     wf_field 1 31 (e_dom e) \<and> wf_field 1 12 (e_month e) \<and> wf_field 0 6 (e_dow e)"

lemma zero_second_wf: "wf_field 0 59 zero_second"
  by (auto simp: wf_field_def zero_second_def empty_field_def nth_list_update)

lemma parse_tail_wf:
  assumes "parse_tail raw sec ps = Ok e" "wf_field 0 59 sec"
  shows "wf_expr e \<and> e_raw e = raw \<and> e_sec e = sec"
proof -
  obtain mi h d m w where f:
      "parse_field FMin 0 59 (ps ! 0) = Ok mi" "parse_field FHour 0 23 (ps ! 1) = Ok h"
      "parse_field FDom 1 31 (ps ! 2) = Ok d" "parse_field FMonth 1 12 (ps ! 3) = Ok m"
      "parse_field FDow 0 6 (ps ! 4) = Ok w"
    and e: "e = \<lparr>e_raw = raw, e_sec = sec, e_min = mi, e_hour = h, e_dom = d, e_month = m, e_dow = w\<rparr>"
    using assms(1) unfolding parse_tail_def bind_outcome_eq_Ok by blast
  show ?thesis
    using f(1-5) [THEN parse_field_wf] assms(2) by (simp add: e wf_expr_def)
qed

lemma parse_tail_returns: "parse_tail raw sec ps \<noteq> NoReturn"
  by (auto simp: parse_tail_def bind_outcome_eq_NoReturn parse_field_returns)

lemma parse_tail_panic:
  assumes "parse_tail raw sec ps = Panic"
  shows "\<exists>i<5. \<exists>p\<in>set (split_on (CHR '','') (ps ! i)). \<exists>n. part_step p = Some n \<and> max_int64 - 59 < n"
proof -
  have weaken: "\<exists>p\<in>set (split_on (CHR '','') w). \<exists>n. part_step p = Some n \<and> max_int64 - 59 < n"
    if "parse_field fld mn mx w = Panic" "0 \<le> mn" "mn \<le> mx" "mx < 60" for fld mn mx w
    using parse_field_panic [OF that] that(4) by fastforce
  have "\<exists>i<5. \<exists>fld mn mx. parse_field fld mn mx (ps ! i) = Panic \<and> 0 \<le> mn \<and> mn \<le> mx \<and> mx < 60"
  proof -
    consider "parse_field FMin 0 59 (ps ! 0) = Panic" | "parse_field FHour 0 23 (ps ! 1) = Panic"
      | "parse_field FDom 1 31 (ps ! 2) = Panic" | "parse_field FMonth 1 12 (ps ! 3) = Panic"
      | "parse_field FDow 0 6 (ps ! 4) = Panic"
      using assms by (auto simp: parse_tail_def bind_outcome_eq_Panic)
    then show ?thesis
    proof cases
      case 1
      show ?thesis
        by (rule exI [of _ 0], rule conjI, simp, rule exI [of _ FMin],
          rule exI [of _ 0], rule exI [of _ 59], simp add: 1)
    next
      case 2
      show ?thesis
        by (rule exI [of _ 1], rule conjI, simp, rule exI [of _ FHour],
          rule exI [of _ 0], rule exI [of _ 23], simp add: 2 [simplified])
    next
      case 3
      show ?thesis
        by (rule exI [of _ 2], rule conjI, simp, rule exI [of _ FDom],
          rule exI [of _ 1], rule exI [of _ 31], simp add: 3)
    next
      case 4
      show ?thesis
        by (rule exI [of _ 3], rule conjI, simp, rule exI [of _ FMonth],
          rule exI [of _ 1], rule exI [of _ 12], simp add: 4)
    next
      case 5
      show ?thesis
        by (rule exI [of _ 4], rule conjI, simp, rule exI [of _ FDow],
          rule exI [of _ 0], rule exI [of _ 6], simp add: 5)
    qed
  qed
  then show ?thesis using weaken by blast
qed

text \<open>
  C30: An expression that parses is well formed: each field's set is an array of 60 flags, has
  at least one value, and has only values of its range; the text is kept. Every read of the
  sets that \<open>Next\<close> makes is therefore in range.
\<close>
theorem parse_Ok_wf:
  assumes "parse s = Ok e"
  shows "wf_expr e \<and> expr_string e = s"
proof (cases "length (go_fields s) = 6")
  case True
  with assms obtain sec where "parse_field FSec 0 59 (go_fields s ! 0) = Ok sec"
    and "parse_tail s sec (tl (go_fields s)) = Ok e"
    by (auto simp: parse_def Let_def bind_outcome_eq_Ok)
  then show ?thesis using parse_field_wf [of FSec 0 59] parse_tail_wf [of s sec] by (simp add: expr_string_def)
next
  case False
  with assms have "parse_tail s zero_second (go_fields s) = Ok e"
    by (auto simp: parse_def Let_def split: if_splits)
  then show ?thesis using parse_tail_wf [of s zero_second] zero_second_wf by (simp add: expr_string_def)
qed

theorem parse_Ok_wf_witness:
  "\<exists>e. parse ''*/15 0 1,15 * 1-5'' = Ok e \<and> wf_expr e \<and> expr_string e = ''*/15 0 1,15 * 1-5''"
proof -
  obtain e where e: "parse ''*/15 0 1,15 * 1-5'' = Ok e"
  proof -
    have "(case parse ''*/15 0 1,15 * 1-5'' of Ok _ \<Rightarrow> True | _ \<Rightarrow> False)" by code_simp
    then show ?thesis using that by (cases "parse ''*/15 0 1,15 * 1-5''") simp_all
  qed
  with parse_Ok_wf [OF e] show ?thesis by blast
qed

text \<open>
  C31: \<open>Parse\<close> returns on every input, and it can only panic on a step within 59 of the
  largest \<open>int64\<close>.
\<close>
theorem parse_total:
  "parse s \<noteq> NoReturn \<and>
   (parse s = Panic \<longrightarrow>
     (\<exists>w\<in>set (go_fields s). \<exists>p\<in>set (split_on (CHR '','') w). \<exists>n. part_step p = Some n \<and> max_int64 - 59 < n))"
proof
  show "parse s \<noteq> NoReturn"
    by (auto simp: parse_def Let_def bind_outcome_eq_NoReturn parse_field_returns parse_tail_returns)
  show "parse s = Panic \<longrightarrow>
     (\<exists>w\<in>set (go_fields s). \<exists>p\<in>set (split_on (CHR '','') w). \<exists>n. part_step p = Some n \<and> max_int64 - 59 < n)"
  proof
    assume panic: "parse s = Panic"
    show "\<exists>w\<in>set (go_fields s). \<exists>p\<in>set (split_on (CHR '','') w). \<exists>n. part_step p = Some n \<and> max_int64 - 59 < n"
    proof (cases "length (go_fields s) = 6")
      case True
      then have mem: "go_fields s ! 0 \<in> set (go_fields s)"
        "i < 5 \<Longrightarrow> tl (go_fields s) ! i \<in> set (go_fields s)" for i
        by (simp_all add: nth_tl)
      from True panic consider "parse_field FSec 0 59 (go_fields s ! 0) = Panic"
        | sec where "parse_tail s sec (tl (go_fields s)) = Panic"
        by (auto simp: parse_def Let_def bind_outcome_eq_Panic)
      then show ?thesis
      proof cases
        case 1
        then show ?thesis using parse_field_panic [of FSec 0 59] mem(1) by fastforce
      next
        case 2
        then show ?thesis using parse_tail_panic mem(2) by blast
      qed
    next
      case False
      with panic have "length (go_fields s) = 5" "parse_tail s zero_second (go_fields s) = Panic"
        by (auto simp: parse_def Let_def split: if_splits)
      then show ?thesis using parse_tail_panic by (metis nth_mem)
    qed
  qed
qed

theorem parse_total_witness:
  "\<exists>w\<in>set (go_fields ''* * * */9223372036854775807 * *'').
     \<exists>p\<in>set (split_on (CHR '','') w). \<exists>n. part_step p = Some n \<and> max_int64 - 59 < n"
proof -
  have "parse ''* * * */9223372036854775807 * *'' = Panic" by code_simp
  then show ?thesis using parse_total [of "''* * * */9223372036854775807 * *''"] by simp
qed

text \<open>
  The index of the marking loop wraps. With the step \<open>MaxInt64\<close> on a field whose least
  value is not 0, the sum leaves the \<open>int64\<close> range, the next index is negative, and the write
  \<open>f.set[i]\<close> panics instead of \<open>Parse\<close> returning an error.
\<close>
theorem parse_step_overflow_panics:
  "parse ''* * * */9223372036854775807 * *'' = Panic \<and> parse ''0 0 * 1-12/9223372036854775807 *'' = Panic"
  by code_simp

end
