(* ===== verification/Cron_Syntax.thy ===== *)
theory Cron_Syntax
  imports Cron_Expr
begin

text \<open>
  The documented syntax of a cron field (\<open>parseField\<close>'s comment: a number, \<open>*\<close>, \<open>*/n\<close>,
  \<open>a-b\<close>, \<open>a,b,c\<close>, \<open>?\<close>) as an abstract syntax with its printed form and its meaning, and the
  proof that \<open>parse_field\<close> reads the printed form back as the meaning.
\<close>

section \<open>Abstract syntax\<close>

datatype item =
    Question
  | Star "int option"
  | Span int int "int option"
  | Single int "int option"

fun show_step :: "int option \<Rightarrow> string" where
  "show_step None = []"
| "show_step (Some n) = CHR ''/'' # show_int n"

fun show_base :: "item \<Rightarrow> string" where
  "show_base Question = ''?''"
| "show_base (Star st) = ''*''"
| "show_base (Span a b st) = show_int a @ CHR ''-'' # show_int b"
| "show_base (Single n st) = show_int n"

fun item_step :: "item \<Rightarrow> int option" where
  "item_step Question = None"
| "item_step (Star st) = st"
| "item_step (Span a b st) = st"
| "item_step (Single n st) = st"

definition show_item :: "item \<Rightarrow> string" where
  "show_item it = show_base it @ show_step (item_step it)"

fun show_items :: "item list \<Rightarrow> string" where
  "show_items [] = []"
| "show_items [it] = show_item it"
| "show_items (it # its) = show_item it @ CHR '','' # show_items its"

definition step_value :: "int option \<Rightarrow> int" where
  "step_value st = (case st of None \<Rightarrow> 1 | Some n \<Rightarrow> n)"

fun item_range :: "int \<Rightarrow> int \<Rightarrow> item \<Rightarrow> int \<times> int" where
  "item_range mn mx Question = (mn, mx)"
| "item_range mn mx (Star st) = (mn, mx)"
| "item_range mn mx (Span a b st) = (a, b)"
| "item_range mn mx (Single n st) = (n, n)"

definition item_has :: "int \<Rightarrow> int \<Rightarrow> item \<Rightarrow> int \<Rightarrow> bool" where
  "item_has mn mx it k \<longleftrightarrow>
     (case item_range mn mx it of (lo, hi) \<Rightarrow>
        lo \<le> k \<and> k \<le> hi \<and> step_value (item_step it) dvd k - lo)"

definition item_star :: "item \<Rightarrow> bool" where
  "item_star it \<longleftrightarrow> it = Question \<or> (\<exists>st. it = Star st)"

definition item_ok :: "int \<Rightarrow> int \<Rightarrow> item \<Rightarrow> bool" where
  "item_ok mn mx it \<longleftrightarrow>
     (case item_range mn mx it of (lo, hi) \<Rightarrow> mn \<le> lo \<and> lo \<le> hi \<and> hi \<le> mx) \<and>
     1 \<le> step_value (item_step it) \<and> step_value (item_step it) \<le> max_int64 - 59"

section \<open>The printed characters\<close>

lemma show_nat_no: "\<not> is_digit c \<Longrightarrow> c \<notin> set (show_nat n)"
  using show_nat_digits by blast

lemma show_int_no:
  "CHR '','' \<notin> set (show_int n)" "CHR ''/'' \<notin> set (show_int n)" "CHR ''*'' \<notin> set (show_int n)"
  "0 \<le> n \<Longrightarrow> CHR ''-'' \<notin> set (show_int n)" "CHR ''?'' \<notin> set (show_int n)"
  by (simp_all add: show_int_def show_nat_no)

lemma show_base_no: "CHR '','' \<notin> set (show_base it)" "CHR ''/'' \<notin> set (show_base it)"
  by (cases it; simp add: show_int_no)+

lemma show_step_no: "CHR '','' \<notin> set (show_step st)"
  by (cases st) (simp_all add: show_int_no)

lemma show_item_no: "CHR '','' \<notin> set (show_item it)"
  by (simp add: show_item_def show_base_no show_step_no)

lemma split_show_items: "its \<noteq> [] \<Longrightarrow> split_on (CHR '','') (show_items its) = map show_item its"
  by (induction its rule: show_items.induct) (simp_all add: split_on_none split_on_append show_item_no)

lemma step_value_int64: "1 \<le> step_value st \<Longrightarrow> step_value st \<le> max_int64 - 59 \<Longrightarrow> in_int64 (step_value st)"
  by (simp add: int64_defs)

lemma part_of_item:
  assumes "item_ok mn mx it"
  shows "part_step (show_item it) = Some (step_value (item_step it))" "part_base (show_item it) = show_base it"
proof -
  note no = show_base_no(2) [of it]
  show "part_step (show_item it) = Some (step_value (item_step it))"
  proof (cases "item_step it")
    case None
    with no show ?thesis by (simp add: part_step_def show_item_def step_value_def)
  next
    case (Some n)
    then have "0 < n" "in_int64 n"
      using assms step_value_int64 [of "Some n"] by (simp_all add: item_ok_def step_value_def)
    with Some no show ?thesis
      by (simp add: part_step_def show_item_def step_value_def after_char_append atoi_show_int)
  qed
  show "part_base (show_item it) = show_base it"
    using no by (cases "item_step it") (simp_all add: part_base_def show_item_def before_char_append)
qed

lemma show_int_not_star: "show_int n \<noteq> ''*''" "show_int n \<noteq> ''?''"
  "show_int a @ CHR ''-'' # r \<noteq> ''*''" "show_int a @ CHR ''-'' # r \<noteq> ''?''"
proof -
  have no: "CHR ''*'' \<notin> set (show_int m)" "CHR ''?'' \<notin> set (show_int m)" for m
    by (simp_all add: show_int_no)
  show "show_int n \<noteq> ''*''" using no(1) [of n] by auto
  show "show_int n \<noteq> ''?''" using no(2) [of n] by auto
  show "show_int a @ CHR ''-'' # r \<noteq> ''*''" by (cases "show_int a") auto
  show "show_int a @ CHR ''-'' # r \<noteq> ''?''" by (cases "show_int a") auto
qed

lemma range_of_item:
  assumes "item_ok mn mx it" "0 \<le> mn" "mx < 60" "it \<noteq> Question"
  shows "part_range fld mn mx (show_base it) = Ok (item_range mn mx it)"
    "show_base it = ''*'' \<longleftrightarrow> item_star it"
proof -
  have ok: "\<And>lo hi. item_range mn mx it = (lo, hi) \<Longrightarrow> mn \<le> lo \<and> lo \<le> hi \<and> hi \<le> mx"
    using assms(1) by (auto simp: item_ok_def)
  have "part_range fld mn mx (show_base it) = Ok (item_range mn mx it) \<and> (show_base it = ''*'' \<longleftrightarrow> item_star it)"
  proof (cases it)
    case Question
    with assms show ?thesis by simp
  next
    case (Star st)
    then show ?thesis by (simp add: part_range_def item_star_def)
  next
    case (Span a b st)
    with ok assms have "mn \<le> a" "a \<le> b" "b \<le> mx" "0 \<le> a" "in_int64 a" "in_int64 b"
      by (auto simp: int64_defs)
    with Span show ?thesis
      by (simp add: part_range_def item_star_def show_int_not_star before_char_append after_char_append
          show_int_no atoi_show_int)
  next
    case (Single n st)
    with ok assms have "mn \<le> n" "n \<le> mx" "0 \<le> n" "in_int64 n" by (auto simp: int64_defs)
    with Single show ?thesis
      by (simp add: part_range_def item_star_def show_int_not_star show_int_no atoi_show_int)
  qed
  then show "part_range fld mn mx (show_base it) = Ok (item_range mn mx it)"
    "show_base it = ''*'' \<longleftrightarrow> item_star it" by simp_all
qed

section \<open>Reading the printed form back\<close>

lemma parse_part_marks:
  assumes st: "part_step (if p = ''?'' then ''*'' else p) = Some step"
    and r: "part_range fld mn mx (part_base (if p = ''?'' then ''*'' else p)) = Ok (lo, hi)"
    and "length s = 60" "0 \<le> lo" "hi < 60" "step \<le> max_int64 - 59"
  shows "\<exists>s'. parse_part fld mn mx p (s, al)
        = Ok (s', al \<or> part_base (if p = ''?'' then ''*'' else p) = ''*'') \<and> length s' = 60 \<and>
      (\<forall>k<60. s' ! k \<longleftrightarrow> s ! k \<or> (lo \<le> int k \<and> int k \<le> hi \<and> step dvd int k - lo))"
proof -
  obtain s' where "mark_steps s lo hi step = Ok s'" "length s' = 60"
    "\<forall>k<60. s' ! k \<longleftrightarrow> s ! k \<or> (lo \<le> int k \<and> int k \<le> hi \<and> step dvd int k - lo)"
    using mark_steps_ok [of s lo hi step] part_step_pos [OF st] assms by auto
  with st r show ?thesis unfolding parse_part_def Let_def by simp
qed

lemma parse_item:
  assumes ok: "item_ok mn mx it" and b: "0 \<le> mn" "mx < 60" and len: "length s = 60"
  shows "\<exists>s'. parse_part fld mn mx (show_item it) (s, al) = Ok (s', al \<or> item_star it) \<and> length s' = 60 \<and>
      (\<forall>k<60. s' ! k \<longleftrightarrow> s ! k \<or> item_has mn mx it (int k))"
proof (cases "it = Question")
  case True
  then have "show_item it = ''?''" by (simp add: show_item_def)
  moreover have "mn \<le> mx" using ok True by (simp add: item_ok_def)
  ultimately show ?thesis
    using parse_part_marks [of "''?''" 1 fld mn mx mn mx s al] b len True
    by (simp add: part_base_def part_range_def item_has_def item_star_def step_value_def int64_defs)
next
  case False
  obtain lo hi where lh: "item_range mn mx it = (lo, hi)" by fastforce
  then have bounds: "mn \<le> lo" "hi \<le> mx" "step_value (item_step it) \<le> max_int64 - 59"
    using ok by (auto simp: item_ok_def)
  have nq: "show_item it \<noteq> ''?''"
  proof
    assume "show_item it = ''?''"
    moreover have "CHR ''?'' \<notin> set (show_item it)"
      using False by (cases it; cases "item_step it") (auto simp: show_item_def show_int_no)
    ultimately show False by simp
  qed
  show ?thesis
    using parse_part_marks [of "show_item it" "step_value (item_step it)" fld mn mx lo hi s al]
      part_of_item [OF ok] range_of_item(1) [OF ok b False, of fld] range_of_item(2) [OF ok b False] lh bounds b len nq
    by (simp add: item_has_def)
qed

lemma parse_items:
  assumes "\<forall>it\<in>set its. item_ok mn mx it" "0 \<le> mn" "mx < 60" "length s = 60"
  shows "\<exists>s'. parse_parts fld mn mx (map show_item its) (s, al) = Ok (s', al \<or> (\<exists>it\<in>set its. item_star it)) \<and>
      length s' = 60 \<and> (\<forall>k<60. s' ! k \<longleftrightarrow> s ! k \<or> (\<exists>it\<in>set its. item_has mn mx it (int k)))"
  using assms
proof (induction its arbitrary: s al)
  case Nil
  then show ?case by simp
next
  case (Cons it its)
  from parse_item [of mn mx it s fld al] Cons.prems obtain s1 where
    s1: "parse_part fld mn mx (show_item it) (s, al) = Ok (s1, al \<or> item_star it)" "length s1 = 60"
      "\<forall>k<60. s1 ! k \<longleftrightarrow> s ! k \<or> item_has mn mx it (int k)" by auto
  from Cons.IH [of s1 "al \<or> item_star it"] Cons.prems s1(2) obtain s2 where
    "parse_parts fld mn mx (map show_item its) (s1, al \<or> item_star it)
       = Ok (s2, (al \<or> item_star it) \<or> (\<exists>it\<in>set its. item_star it))" "length s2 = 60"
      "\<forall>k<60. s2 ! k \<longleftrightarrow> s1 ! k \<or> (\<exists>it\<in>set its. item_has mn mx it (int k))" by auto
  with s1 show ?case by (auto simp: disj_ac)
qed

lemma parse_items_back:
  assumes "its \<noteq> []" "\<forall>it\<in>set its. item_ok mn mx it" "0 \<le> mn" "mx < 60"
  shows "\<exists>f. parse_field fld mn mx (show_items its) = Ok f \<and> wf_field mn mx f \<and>
      (\<forall>k. 0 \<le> k \<and> k < 60 \<longrightarrow> (in_field f k \<longleftrightarrow> (\<exists>it\<in>set its. item_has mn mx it k))) \<and>
      (f_all f \<longleftrightarrow> (\<exists>it\<in>set its. item_star it))"
proof -
  from parse_items [OF assms(2-4), of "f_set empty_field" fld False] obtain s' where
    s': "parse_parts fld mn mx (map show_item its) (f_set empty_field, False)
          = Ok (s', \<exists>it\<in>set its. item_star it)" "length s' = 60"
      "\<forall>k<60. s' ! k \<longleftrightarrow> (\<exists>it\<in>set its. item_has mn mx it (int k))"
    by (auto simp: empty_field_def)
  let ?f = "\<lparr>f_set = s', f_all = \<exists>it\<in>set its. item_star it\<rparr>"
  have p: "parse_field fld mn mx (show_items its) = Ok ?f"
    using s'(1) by (simp add: parse_field_def split_show_items [OF assms(1)])
  have "mn \<le> mx" using assms(1,2) by (cases its) (auto simp: item_ok_def)
  with parse_field_wf [OF p] assms(3,4) have "wf_field mn mx ?f" by simp
  moreover have "in_field ?f k \<longleftrightarrow> (\<exists>it\<in>set its. item_has mn mx it k)" if "0 \<le> k \<and> k < 60" for k
    using s'(3) that by (auto simp: in_field_def dest: spec [of _ "nat k"])
  ultimately show ?thesis using p by auto
qed

text \<open>
  C32: Reading a printed field back. For a non-empty list of items within the bounds of a field,
  \<open>parseField\<close> accepts the printed list; a value is in the resulting set exactly when one of
  the items has it (a range with a step has every step-th value from its start), and \<open>all\<close> is
  set exactly when one of the items is a star or a question mark.
\<close>
theorem parse_show_items:
  assumes "its \<noteq> []" "\<forall>it\<in>set its. item_ok mn mx it" "0 \<le> mn" "mx < 60"
  shows "\<exists>f. parse_field fld mn mx (show_items its) = Ok f \<and> wf_field mn mx f \<and>
      (\<forall>k. 0 \<le> k \<and> k < 60 \<longrightarrow> (in_field f k \<longleftrightarrow> (\<exists>it\<in>set its. item_has mn mx it k))) \<and>
      (f_all f \<longleftrightarrow> (\<exists>it\<in>set its. item_star it))"
  using assms by (rule parse_items_back)

theorem parse_show_items_witness:
  "show_items [Star (Some 20), Span 1 5 None, Single 7 None] = ''*/20,1-5,7'' \<and>
   (\<exists>f. parse_field FMin 0 59 ''*/20,1-5,7'' = Ok f \<and> in_field f 40 \<and> in_field f 3 \<and> \<not> in_field f 6)"
proof -
  let ?its = "[Star (Some 20), Span 1 5 None, Single 7 None]"
  have s: "show_items ?its = ''*/20,1-5,7''" by code_simp
  have ok: "\<forall>it\<in>set ?its. item_ok 0 59 it"
    by (simp add: item_ok_def step_value_def int64_defs)
  have ne: "?its \<noteq> []" by simp
  from parse_show_items [OF ne ok, of FMin] obtain f where
    f: "parse_field FMin 0 59 ''*/20,1-5,7'' = Ok f"
      "\<And>k. 0 \<le> k \<and> k < 60 \<Longrightarrow> in_field f k \<longleftrightarrow> (\<exists>it\<in>set ?its. item_has 0 59 it k)"
    unfolding s by auto
  have "in_field f 40" "in_field f 3" "\<not> in_field f 6"
    using f(2) [of 40] f(2) [of 3] f(2) [of 6] by (simp_all add: item_has_def step_value_def)
  with s f(1) show ?thesis by blast
qed

end
