(* ===== verification/Go_Time.thy ===== *)
theory Go_Time
  imports Jobx_Prelude
begin

text \<open>
  The part of Go's package \<open>time\<close> that the source uses. A \<open>time.Time\<close> is the number of
  nanoseconds since Go's zero time, 1 January of year 1, 00:00:00 UTC, so that \<open>IsZero\<close> is
  equality with 0 and \<open>Truncate\<close>, which counts from the zero time, is a remainder. A
  \<open>time.Location\<close> is a list of offset changes, as in the tz database. The calendar is the
  proleptic Gregorian calendar. Go stores seconds in an \<open>int64\<close>; the model does not wrap
  instants, which lie within some 292 billion years of the zero time.
\<close>

type_synonym time = int
type_synonym duration = int

definition zero_time :: time where
  "zero_time = 0"

definition nanosecond :: duration where "nanosecond = 1"
definition second :: duration where "second = 1000000000"
definition minute :: duration where "minute = 60 * second"
definition hour :: duration where "hour = 60 * minute"

lemmas duration_defs [go_time_simps] = nanosecond_def second_def minute_def hour_def zero_time_def

section \<open>Locations\<close>

text \<open>
  \<open>z_first\<close> is the offset east of UTC, in seconds, before the first change; each change is
  the instant (in seconds since the zero time) from which the offset that follows holds.
  \<open>lookup_zone\<close> is \<open>Location.lookup\<close>: the offset in force at an instant and the bounds of the
  period it is in force.
\<close>

record zone =
  z_first :: int
  z_changes :: "(int \<times> int) list"

fun lookup_changes :: "int \<Rightarrow> int option \<Rightarrow> (int \<times> int) list \<Rightarrow> int \<Rightarrow> int \<times> int option \<times> int option" where
  "lookup_changes off start [] s = (off, start, None)"
| "lookup_changes off start ((c, off') # cs) s =
     (if s < c then (off, start, Some c) else lookup_changes off' (Some c) cs s)"

definition lookup_zone :: "zone \<Rightarrow> int \<Rightarrow> int \<times> int option \<times> int option" where
  "lookup_zone z s = lookup_changes (z_first z) None (z_changes z) s"

definition zone_offset :: "zone \<Rightarrow> int \<Rightarrow> int" where
  "zone_offset z s = fst (lookup_zone z s)"

definition fixed_zone :: "int \<Rightarrow> zone" where
  "fixed_zone off = \<lparr>z_first = off, z_changes = []\<rparr>"

definition utc :: zone where
  "utc = fixed_zone 0"

lemma lookup_fixed_zone [simp]: "lookup_zone (fixed_zone off) s = (off, None, None)"
  by (simp add: lookup_zone_def fixed_zone_def)

lemma zone_offset_fixed [simp]: "zone_offset (fixed_zone off) s = off"
  by (simp add: zone_offset_def)

section \<open>The calendar\<close>

text \<open>Days are counted from 1 January of year 1, a Monday.\<close>

definition is_leap :: "int \<Rightarrow> bool" where
  "is_leap y \<longleftrightarrow> y mod 4 = 0 \<and> (y mod 100 \<noteq> 0 \<or> y mod 400 = 0)"

definition days_before_year :: "int \<Rightarrow> int" where
  "days_before_year y = 365 * (y - 1) + (y - 1) div 4 - (y - 1) div 100 + (y - 1) div 400"

definition leap_day :: "int \<Rightarrow> int" where
  "leap_day y = (if is_leap y then 1 else 0)"

text \<open>The days of year \<open>y\<close> before month \<open>m\<close> (1 to 12).\<close>

definition days_before_month :: "int \<Rightarrow> int \<Rightarrow> int" where
  "days_before_month y m =
     (if m \<le> 1 then 0 else if m = 2 then 31 else
        leap_day y +
        (if m = 3 then 59 else if m = 4 then 90 else if m = 5 then 120 else if m = 6 then 151
         else if m = 7 then 181 else if m = 8 then 212 else if m = 9 then 243
         else if m = 10 then 273 else if m = 11 then 304 else if m = 12 then 334 else 365))"

definition year_of_day :: "int \<Rightarrow> int" where
  "year_of_day d =
     (let r400 = d mod 146097;
          n100 = min 3 (r400 div 36524);
          r100 = r400 - 36524 * n100;
          r4 = r100 mod 1461
      in 400 * (d div 146097) + 100 * n100 + 4 * (r100 div 1461) + min 3 (r4 div 365) + 1)"

definition yday_of_day :: "int \<Rightarrow> int" where
  "yday_of_day d = d - days_before_year (year_of_day d)"

definition month_of_yday :: "int \<Rightarrow> int \<Rightarrow> int" where
  "month_of_yday y n =
     (if n < 31 then 1 else
      (let k = n - leap_day y in
       if k < 59 then 2 else if k < 90 then 3 else if k < 120 then 4 else if k < 151 then 5
       else if k < 181 then 6 else if k < 212 then 7 else if k < 243 then 8
       else if k < 273 then 9 else if k < 304 then 10 else if k < 334 then 11 else 12))"

definition month_of_day :: "int \<Rightarrow> int" where
  "month_of_day d = month_of_yday (year_of_day d) (yday_of_day d)"

definition mday_of_day :: "int \<Rightarrow> int" where
  "mday_of_day d = yday_of_day d - days_before_month (year_of_day d) (month_of_day d) + 1"

definition weekday_of_day :: "int \<Rightarrow> int" where
  "weekday_of_day d = (d + 1) mod 7"

text \<open>
  The day number of a date whose month may lie outside 1 to 12 and whose day may lie outside
  the month, normalised as \<open>time.Date\<close> does.
\<close>

definition day_of_date :: "int \<Rightarrow> int \<Rightarrow> int \<Rightarrow> int" where
  "day_of_date y m d =
     (let y' = y + (m - 1) div 12; m' = (m - 1) mod 12 + 1
      in days_before_year y' + days_before_month y' m' + d - 1)"

section \<open>Reading and building instants\<close>

definition unix_sec :: "time \<Rightarrow> int" where
  "unix_sec t = t div second"

definition nsec_of :: "time \<Rightarrow> int" where
  "nsec_of t = t mod second"

definition local_sec :: "zone \<Rightarrow> time \<Rightarrow> int" where
  "local_sec z t = unix_sec t + zone_offset z (unix_sec t)"

definition local_day :: "zone \<Rightarrow> time \<Rightarrow> int" where
  "local_day z t = local_sec z t div 86400"

definition time_year :: "zone \<Rightarrow> time \<Rightarrow> int" where
  "time_year z t = year_of_day (local_day z t)"

definition time_month :: "zone \<Rightarrow> time \<Rightarrow> int" where
  "time_month z t = month_of_day (local_day z t)"

definition time_day :: "zone \<Rightarrow> time \<Rightarrow> int" where
  "time_day z t = mday_of_day (local_day z t)"

definition time_weekday :: "zone \<Rightarrow> time \<Rightarrow> int" where
  "time_weekday z t = weekday_of_day (local_day z t)"

definition time_hour :: "zone \<Rightarrow> time \<Rightarrow> int" where
  "time_hour z t = local_sec z t mod 86400 div 3600"

definition time_minute :: "zone \<Rightarrow> time \<Rightarrow> int" where
  "time_minute z t = local_sec z t mod 3600 div 60"

definition time_second :: "zone \<Rightarrow> time \<Rightarrow> int" where
  "time_second z t = local_sec z t mod 60"

text \<open>
  \<open>Time.Truncate\<close> counts from the zero time, not from local midnight. \<open>time.Date\<close> first
  looks the offset up as if the wall clock were UTC, and looks it up once more when the
  instant this gives lies outside the period of that offset.
\<close>

definition truncate_time :: "time \<Rightarrow> duration \<Rightarrow> time" where
  "truncate_time t d = t - t mod d"

definition resolve_local :: "zone \<Rightarrow> int \<Rightarrow> int" where
  "resolve_local z ls =
     (case lookup_zone z ls of (off, start, end) \<Rightarrow>
        let u = ls - off;
            before = (case start of None \<Rightarrow> False | Some b \<Rightarrow> u < b);
            after = (case end of None \<Rightarrow> False | Some b \<Rightarrow> b \<le> u)
        in if off = 0 then ls
           else if before \<or> after then ls - zone_offset z u else u)"

definition go_date :: "zone \<Rightarrow> int \<Rightarrow> int \<Rightarrow> int \<Rightarrow> int \<Rightarrow> int \<Rightarrow> int \<Rightarrow> int \<Rightarrow> time" where
  "go_date z y m d h mi s ns =
     resolve_local z (day_of_date y m d * 86400 + h * 3600 + mi * 60 + s + ns div second) * second
     + ns mod second"

definition add_date :: "zone \<Rightarrow> time \<Rightarrow> int \<Rightarrow> int \<Rightarrow> int \<Rightarrow> time" where
  "add_date z t ys ms ds =
     go_date z (time_year z t + ys) (time_month z t + ms) (time_day z t + ds)
       (time_hour z t) (time_minute z t) (time_second z t) (nsec_of t)"

lemma resolve_fixed_zone [simp]: "resolve_local (fixed_zone off) ls = ls - off"
  by (simp add: resolve_local_def Let_def)

section \<open>The calendar is correct\<close>

lemma div_pred:
  assumes "0 < (n::int)"
  shows "y div n = (y - 1) div n + (if y mod n = 0 then 1 else 0)"
proof -
  have y: "y = n * (y div n) + y mod n" by simp
  have bounds: "0 \<le> y mod n" "y mod n < n" using assms by simp_all
  show ?thesis
  proof (cases "y mod n = 0")
    case True
    have "(y - 1) div n = y div n - 1"
      by (rule int_div_pos_eq [where r = "n - 1"]) (use y True assms in \<open>simp_all add: algebra_simps\<close>)
    with True show ?thesis by simp
  next
    case False
    have "(y - 1) div n = y div n"
      by (rule int_div_pos_eq [where r = "y mod n - 1"]) (use y False bounds in simp_all)
    with False show ?thesis by simp
  qed
qed

text \<open>The parts of a day number within its cycles of 400, 100, 4 and 1 years.\<close>

lemma year_parts:
  assumes "0 \<le> a" "a \<le> 3" "0 \<le> b" "b \<le> 24" "0 \<le> e" "e \<le> (3::int)"
  shows "days_before_year (400 * c + 100 * a + 4 * b + e + 1) = 146097 * c + 36524 * a + 1461 * b + 365 * e"
proof -
  define k where "k = 400 * c + 100 * a + 4 * b + e"
  have "k div 4 = 100 * c + 25 * a + b"
    using assms unfolding k_def by (intro int_div_pos_eq [where r = e]) auto
  moreover have "k div 100 = 4 * c + a"
    using assms unfolding k_def by (intro int_div_pos_eq [where r = "4 * b + e"]) auto
  moreover have "k div 400 = c"
    using assms unfolding k_def by (intro int_div_pos_eq [where r = "100 * a + 4 * b + e"]) auto
  ultimately have "days_before_year (k + 1) = 365 * k + (100 * c + 25 * a + b) - (4 * c + a) + c"
    by (simp add: days_before_year_def)
  then show ?thesis by (simp add: k_def algebra_simps)
qed

lemma year_parts_next:
  assumes "0 \<le> a" "a \<le> 3" "0 \<le> b" "b \<le> 24" "0 \<le> e" "e \<le> (3::int)"
    and "e < 3 \<longrightarrow> r < 365" "r \<le> 365" "e = 3 \<and> b = 24 \<and> a < 3 \<longrightarrow> r < 365"
  shows "146097 * c + 36524 * a + 1461 * b + 365 * e + r < days_before_year (400 * c + 100 * a + 4 * b + e + 2)"
proof -
  define k where "k = 400 * c + 100 * a + 4 * b + e + 1"
  have d4: "k div 4 = 100 * c + 25 * a + b + (if e = 3 then 1 else 0)"
    using assms unfolding k_def
    by (intro int_div_pos_eq [where r = "if e = 3 then 0 else e + 1"]) auto
  have d100: "k div 100 = 4 * c + a + (if e = 3 \<and> b = 24 then 1 else 0)"
    using assms unfolding k_def
    by (intro int_div_pos_eq [where r = "if e = 3 \<and> b = 24 then 0 else 4 * b + e + 1"]) auto
  have d400: "k div 400 = c + (if e = 3 \<and> b = 24 \<and> a = 3 then 1 else 0)"
    using assms unfolding k_def
    by (intro int_div_pos_eq [where r = "if e = 3 \<and> b = 24 \<and> a = 3 then 0 else 100 * a + 4 * b + e + 1"]) auto
  have "400 * c + 100 * a + 4 * b + e + 2 - 1 = k" by (simp add: k_def)
  then have "days_before_year (400 * c + 100 * a + 4 * b + e + 2) = 365 * k + k div 4 - k div 100 + k div 400"
    by (simp only: days_before_year_def)
  then show ?thesis using assms by (simp only: d4 d100 d400) (auto simp: k_def)
qed

lemma min3_div:
  assumes "0 \<le> r" "0 < (w::int)"
  shows "0 \<le> r - w * min 3 (r div w)" "min 3 (r div w) < 3 \<longrightarrow> r - w * min 3 (r div w) < w"
proof -
  have r: "r = w * (r div w) + r mod w" "0 \<le> r mod w" "r mod w < w" using assms by simp_all
  have "w * min 3 (r div w) \<le> w * (r div w)" using assms(2) by (intro mult_left_mono) simp_all
  with r show "0 \<le> r - w * min 3 (r div w)" by linarith
  show "min 3 (r div w) < 3 \<longrightarrow> r - w * min 3 (r div w) < w"
  proof
    assume "min 3 (r div w) < 3"
    then have "r - w * min 3 (r div w) = r mod w" by (simp add: minus_mult_div_eq_mod)
    with r(3) show "r - w * min 3 (r div w) < w" by simp
  qed
qed

lemma year_of_day_bounds:
  "days_before_year (year_of_day d) \<le> d \<and> d < days_before_year (year_of_day d + 1)"
proof -
  define c where "c = d div 146097"
  define r where "r = d mod 146097"
  define a where "a = min 3 (r div 36524)"
  define r1 where "r1 = r - 36524 * a"
  define b where "b = r1 div 1461"
  define r4 where "r4 = r1 mod 1461"
  define e where "e = min 3 (r4 div 365)"
  have r: "0 \<le> r" "r < 146097" by (simp_all add: r_def)
  have a: "0 \<le> a" "a \<le> 3" using r by (simp_all add: a_def)
  have r1: "0 \<le> r1" "r1 \<le> 36524" "a < 3 \<longrightarrow> r1 < 36524"
    using r by (auto simp: r1_def a_def min_def split: if_splits)
  have b: "0 \<le> b" "b \<le> 24" using r1 by (auto simp: b_def)
  have r4: "0 \<le> r4" "r4 < 1461" by (simp_all add: r4_def)
  have e: "0 \<le> e" "e \<le> 3" using r4 by (simp_all add: e_def)
  have d: "d = 146097 * c + 36524 * a + 1461 * b + r4"
    by (simp add: c_def r_def [symmetric] r4_def b_def r1_def)
       (simp add: r_def)
  have last: "b = 24 \<and> a < 3 \<longrightarrow> r4 < 1460"
  proof
    assume h: "b = 24 \<and> a < 3"
    have "r1 = 1461 * b + r4" by (simp add: b_def r4_def)
    with h r1 show "r4 < 1460" by simp
  qed
  have rest0: "0 \<le> r4 - 365 * e" and small: "e < 3 \<longrightarrow> r4 - 365 * e < 365"
    unfolding e_def using min3_div [of r4 365] r4 by simp_all
  have rest: "e < 3 \<longrightarrow> r4 - 365 * e < 365" "r4 - 365 * e \<le> 365"
    "e = 3 \<and> b = 24 \<and> a < 3 \<longrightarrow> r4 - 365 * e < 365"
    using small r4 e last by (cases "e = 3"; simp)+
  have y: "year_of_day d = 400 * c + 100 * a + 4 * b + e + 1"
    unfolding year_of_day_def Let_def c_def [symmetric] r_def [symmetric] a_def [symmetric]
      r1_def [symmetric] b_def [symmetric] r4_def [symmetric] e_def [symmetric] by (rule refl)
  from year_parts [OF a b e, of c] year_parts_next [OF a b e rest, of c] rest0
  show ?thesis unfolding y by (simp add: d algebra_simps)
qed

lemma days_before_year_step: "days_before_year (y + 1) = days_before_year y + 365 + leap_day y"
proof -
  have m4: "y mod 4 = 0" if "y mod 100 = 0"
  proof -
    have "(4::int) dvd 100" by simp
    moreover have "100 dvd y" using that by (simp add: mod_eq_0_iff_dvd)
    ultimately have "4 dvd y" by (rule dvd_trans)
    then show ?thesis by (simp add: mod_eq_0_iff_dvd)
  qed
  have m100: "y mod 100 = 0" if "y mod 400 = 0"
  proof -
    have "(100::int) dvd 400" by simp
    moreover have "400 dvd y" using that by (simp add: mod_eq_0_iff_dvd)
    ultimately have "100 dvd y" by (rule dvd_trans)
    then show ?thesis by (simp add: mod_eq_0_iff_dvd)
  qed
  define i4 i100 i400 :: int where "i4 = (if y mod 4 = 0 then 1 else 0)"
    and "i100 = (if y mod 100 = 0 then 1 else 0)" and "i400 = (if y mod 400 = 0 then 1 else 0)"
  note i_defs = this
  have d: "y div 4 = (y - 1) div 4 + i4" "y div 100 = (y - 1) div 100 + i100"
    "y div 400 = (y - 1) div 400 + i400"
    unfolding i_defs by (rule div_pred, simp)+
  have leap: "leap_day y = i4 - i100 + i400"
    unfolding leap_day_def is_leap_def i_defs using m4 m100
    by (cases "y mod 4 = 0"; cases "y mod 100 = 0"; cases "y mod 400 = 0") simp_all
  have succ_year: "days_before_year (y + 1) = 365 * y + y div 4 - y div 100 + y div 400"
    unfolding days_before_year_def by simp
  show ?thesis unfolding succ_year leap d days_before_year_def [of y] by (simp add: algebra_simps)
qed

lemma leap_day_bounds: "0 \<le> leap_day y" "leap_day y \<le> 1"
  by (simp_all add: leap_day_def)

lemma days_before_year_mono: "y \<le> y' \<Longrightarrow> days_before_year y \<le> days_before_year y'"
proof (induction y' rule: int_ge_induct)
  case base
  show ?case by simp
next
  case (step i)
  then show ?case using days_before_year_step [of i] leap_day_bounds [of i] by linarith
qed

lemma year_of_day_unique:
  assumes "days_before_year y \<le> d" "d < days_before_year (y + 1)"
  shows "year_of_day d = y"
  using assms year_of_day_bounds [of d]
    days_before_year_mono [of "y + 1" "year_of_day d"] days_before_year_mono [of "year_of_day d + 1" y]
  by linarith

lemma yday_bounds: "0 \<le> yday_of_day d" "yday_of_day d < 365 + leap_day (year_of_day d)"
  using year_of_day_bounds [of d] days_before_year_step [of "year_of_day d"]
  by (simp_all add: yday_of_day_def)

lemma month_of_yday_bounds:
  assumes "0 \<le> n" "n < 365 + leap_day y"
  shows "1 \<le> month_of_yday y n" "month_of_yday y n \<le> 12"
    "days_before_month y (month_of_yday y n) \<le> n"
    "n < days_before_month y (month_of_yday y n + 1)"
    "n \<le> days_before_month y (month_of_yday y n) + 30"
  using assms leap_day_bounds [of y]
  by (auto simp: month_of_yday_def days_before_month_def Let_def)

lemma days_before_month_step:
  assumes "1 \<le> m" "m \<le> 12"
  shows "days_before_month y m + 28 \<le> days_before_month y (m + 1)"
proof -
  have "m \<in> {1, 2, 3, 4, 5, 6, 7, 8, 9, 10, 11, 12}" using assms by (simp, arith)
  then show ?thesis using leap_day_bounds [of y] by (auto simp: days_before_month_def)
qed

lemma days_before_month_mono:
  assumes "1 \<le> m" "m \<le> m'" "m' \<le> 13"
  shows "days_before_month y m \<le> days_before_month y m'"
  using assms(2,3)
proof (induction m' rule: int_ge_induct)
  case base
  show ?case by simp
next
  case (step i)
  then show ?case using days_before_month_step [of i y] assms(1) by simp
qed

lemma month_of_yday_unique:
  assumes "1 \<le> m" "m \<le> 12" "days_before_month y m \<le> n" "n < days_before_month y (m + 1)"
  shows "month_of_yday y n = m"
proof -
  have "days_before_month y 1 = 0" "days_before_month y 13 = 365 + leap_day y"
    by (simp_all add: days_before_month_def)
  then have "0 \<le> n" "n < 365 + leap_day y"
    using assms days_before_month_mono [of 1 m y] days_before_month_mono [of "m + 1" 13 y] by linarith+
  note b = month_of_yday_bounds [OF this]
  show ?thesis
    using b assms days_before_month_mono [of "m + 1" "month_of_yday y n" y]
      days_before_month_mono [of "month_of_yday y n + 1" m y] by linarith
qed

lemma month_of_day_bounds: "1 \<le> month_of_day d" "month_of_day d \<le> 12"
  using month_of_yday_bounds [OF yday_bounds] by (simp_all add: month_of_day_def)

lemma yday_in_month:
  "days_before_month (year_of_day d) (month_of_day d) \<le> yday_of_day d"
  "yday_of_day d < days_before_month (year_of_day d) (month_of_day d + 1)"
  using month_of_yday_bounds(3,4) [OF yday_bounds, of d] by (simp_all add: month_of_day_def)

lemma mday_of_day_bounds: "1 \<le> mday_of_day d" "mday_of_day d \<le> 31"
  using month_of_yday_bounds [OF yday_bounds, of d] by (simp_all add: mday_of_day_def month_of_day_def)

lemma weekday_of_day_bounds: "0 \<le> weekday_of_day d" "weekday_of_day d \<le> 6"
proof -
  have "0 \<le> (d + 1) mod 7" "(d + 1) mod 7 < 7" by simp_all
  then show "0 \<le> weekday_of_day d" "weekday_of_day d \<le> 6" unfolding weekday_of_day_def by linarith+
qed

lemma day_of_date_shift: "day_of_date y m (d + k) = day_of_date y m d + k"
  by (simp add: day_of_date_def Let_def)

lemma day_of_date_of_day [simp]:
  "day_of_date (year_of_day d) (month_of_day d) (mday_of_day d) = d"
  using month_of_day_bounds [of d]
  by (simp add: day_of_date_def Let_def mday_of_day_def yday_of_day_def)

lemma first_of_next_month:
  "day_of_date (year_of_day d) (month_of_day d + 1) 1
   = days_before_year (year_of_day d) + days_before_month (year_of_day d) (month_of_day d + 1)"
proof (cases "month_of_day d = 12")
  case True
  then show ?thesis
    by (simp add: day_of_date_def Let_def days_before_year_step days_before_month_def)
next
  case False
  then have "1 \<le> month_of_day d" "month_of_day d \<le> 11" using month_of_day_bounds [of d] by simp_all
  then show ?thesis by (simp add: day_of_date_def Let_def)
qed

text \<open>The days from \<open>d\<close> to the end of its month are in its month.\<close>

lemma next_month_later: "d < day_of_date (year_of_day d) (month_of_day d + 1) 1"
  using yday_in_month(2) [of d] unfolding first_of_next_month by (simp add: yday_of_day_def)

lemma month_constant:
  assumes "d \<le> d'" "d' < day_of_date (year_of_day d) (month_of_day d + 1) 1"
  shows "year_of_day d' = year_of_day d \<and> month_of_day d' = month_of_day d"
proof -
  let ?y = "year_of_day d" and ?m = "month_of_day d"
  have m: "1 \<le> ?m" "?m \<le> 12" by (fact month_of_day_bounds)+
  have le: "days_before_month ?y (?m + 1) \<le> 365 + leap_day ?y"
    using m leap_day_bounds [of ?y] by (auto simp: days_before_month_def)
  have "days_before_year ?y \<le> d'" "d' < days_before_year (?y + 1)"
    using assms le year_of_day_bounds [of d] by (simp_all add: first_of_next_month days_before_year_step)
  then have y: "year_of_day d' = ?y" by (rule year_of_day_unique)
  have "days_before_month ?y ?m \<le> yday_of_day d'" "yday_of_day d' < days_before_month ?y (?m + 1)"
    using assms yday_in_month(1) [of d] y
    by (simp_all add: yday_of_day_def first_of_next_month)
  then have "month_of_yday ?y (yday_of_day d') = ?m" using m by (blast intro: month_of_yday_unique)
  with y show ?thesis by (simp add: month_of_day_def)
qed

end
