(* ===== verification/Cron_Next.thy ===== *)
theory Cron_Next
  imports Cron_Expr Go_Time
begin

text \<open>
  \<open>cron/cron.go\<close>, the search: \<open>nextInSet\<close>, \<open>dayMatch\<close>, \<open>Next\<close> and \<open>NextN\<close>. The loop of
  \<open>Next\<close> is a \<open>partial_function\<close>, so that a search that does not return is the value \<open>None\<close>;
  one pass of its body is the function \<open>next_body\<close>. The location of \<open>after\<close> is the
  argument \<open>z\<close>.
\<close>

section \<open>The search\<close>

function next_in_set :: "field \<Rightarrow> int \<Rightarrow> int" where
  "next_in_set f v =
     (if v < 60 then if in_field f v then v else next_in_set f (v + 1) else - 1)"
  by pat_completeness auto
termination
  by (relation "measure (\<lambda>(f, v). nat (60 - v))") auto

declare next_in_set.simps [simp del]

definition day_match :: "bool \<Rightarrow> bool \<Rightarrow> bool \<Rightarrow> bool \<Rightarrow> bool" where
  "day_match dom_all dow_all dom_ok dow_ok =
     (if dom_all \<and> dow_all then True
      else if dom_all then dow_ok
      else if dow_all then dom_ok
      else dom_ok \<or> dow_ok)"

datatype 'a next_step = Jump 'a | Found 'a

text \<open>The inner loop over the later hours of the day; a wall-clock hour that a gap removes is skipped.\<close>

function next_hour :: "field \<Rightarrow> zone \<Rightarrow> time \<Rightarrow> int \<Rightarrow> time option" where
  "next_hour f z t h =
     (if h < 24 then
        if \<not> in_field f h then next_hour f z t (h + 1)
        else
          (let candidate = go_date z (time_year z t) (time_month z t) (time_day z t) h 0 0 0
           in if time_hour z candidate = h then Some candidate else next_hour f z t (h + 1))
      else None)"
  by pat_completeness auto
termination
  by (relation "measure (\<lambda>(f, z, t, h). nat (24 - h))") auto

declare next_hour.simps [simp del]

definition next_midnight :: "zone \<Rightarrow> time \<Rightarrow> time" where
  "next_midnight z t =
     add_date z (go_date z (time_year z t) (time_month z t) (time_day z t) 0 0 0 0) 0 0 1"

definition day_ok :: "expr \<Rightarrow> zone \<Rightarrow> time \<Rightarrow> bool" where
  "day_ok e z t =
     day_match (f_all (e_dom e)) (f_all (e_dow e))
       (in_field (e_dom e) (time_day z t)) (in_field (e_dow e) (time_weekday z t))"

definition next_body :: "expr \<Rightarrow> zone \<Rightarrow> time \<Rightarrow> time next_step" where
  "next_body e z t =
     (if \<not> in_field (e_sec e) (time_second z t) then
        (let n = next_in_set (e_sec e) (time_second z t)
         in if 0 \<le> n then Jump (t + (n - time_second z t) * second)
            else Jump (truncate_time t minute + minute))
      else if \<not> in_field (e_min e) (time_minute z t) then
        (let n = next_in_set (e_min e) (time_minute z t)
         in if 0 \<le> n then Jump (truncate_time t minute + (n - time_minute z t) * minute)
            else Jump (truncate_time t hour + hour))
      else if \<not> in_field (e_hour e) (time_hour z t) then
        (case next_hour (e_hour e) z t (time_hour z t + 1) of
           Some candidate \<Rightarrow> Jump candidate
         | None \<Rightarrow> Jump (next_midnight z t))
      else if \<not> day_ok e z t then Jump (next_midnight z t)
      else if \<not> in_field (e_month e) (time_month z t) then
        Jump (go_date z (time_year z t) (time_month z t + 1) 1 0 0 0 0)
      else Found t)"

partial_function (option) next_loop :: "expr \<Rightarrow> zone \<Rightarrow> time \<Rightarrow> time \<Rightarrow> (cron_error + time) option" where
  "next_loop e z limit t =
     (if t < limit then
        (case next_body e z t of
           Jump t' \<Rightarrow> next_loop e z limit t'
         | Found t' \<Rightarrow> Some (Inr t'))
      else Some (Inl ScanLimit))"

declare next_loop.simps [code]

definition next_start :: "time \<Rightarrow> time" where
  "next_start after = truncate_time (after + second) second"

definition next_limit :: "zone \<Rightarrow> time \<Rightarrow> time" where
  "next_limit z after = add_date z (next_start after) max_scan_years 0 0"

definition cron_next :: "expr \<Rightarrow> zone \<Rightarrow> time \<Rightarrow> (cron_error + time) option" where
  "cron_next e z after = next_loop e z (next_limit z after) (next_start after)"

text \<open>The loop of \<open>NextN\<close>, on the method \<open>Next\<close> of the expression.\<close>

fun next_n_loop ::
  "(time \<Rightarrow> (cron_error + time) option) \<Rightarrow> nat \<Rightarrow> time \<Rightarrow> time list \<Rightarrow> (cron_error + time list) option" where
  "next_n_loop nx 0 prev out = Some (Inr out)"
| "next_n_loop nx (Suc n) prev out =
     (case nx prev of
        None \<Rightarrow> None
      | Some (Inl err) \<Rightarrow> Some (Inl err)
      | Some (Inr t) \<Rightarrow> next_n_loop nx n t (out @ [t]))"

definition next_n :: "expr \<Rightarrow> zone \<Rightarrow> time \<Rightarrow> int \<Rightarrow> (cron_error + time list) option" where
  "next_n e z after n =
     (if n \<le> 0 then Some (Inl BadCount) else next_n_loop (cron_next e z) (nat n) after [])"

section \<open>What an expression means\<close>

text \<open>
  An instant matches when its wall-clock second, minute, hour and month are in the sets and its
  day passes \<open>dayMatch\<close>. Triggers are whole seconds.
\<close>

definition cron_matches :: "expr \<Rightarrow> zone \<Rightarrow> time \<Rightarrow> bool" where
  "cron_matches e z t \<longleftrightarrow>
     in_field (e_sec e) (time_second z t) \<and> in_field (e_min e) (time_minute z t) \<and>
     in_field (e_hour e) (time_hour z t) \<and> day_ok e z t \<and> in_field (e_month e) (time_month z t)"

definition whole_second :: "time \<Rightarrow> bool" where
  "whole_second t \<longleftrightarrow> t mod second = 0"

lemma next_body_Found: "next_body e z t = Found t' \<longleftrightarrow> t' = t \<and> cron_matches e z t"
  by (auto simp: next_body_def cron_matches_def Let_def split: option.splits if_splits)

lemma next_in_set_spec:
  "(next_in_set f v = - 1 \<and> (\<forall>k. v \<le> k \<and> k < 60 \<longrightarrow> \<not> in_field f k)) \<or>
   (v \<le> next_in_set f v \<and> next_in_set f v < 60 \<and> in_field f (next_in_set f v) \<and>
    (\<forall>k. v \<le> k \<and> k < next_in_set f v \<longrightarrow> \<not> in_field f k))"
proof (induction f v rule: next_in_set.induct)
  case (1 f v)
  show ?case
  proof (cases "v < 60 \<and> \<not> in_field f v")
    case True
    then have eq: "next_in_set f v = next_in_set f (v + 1)" by (subst next_in_set.simps) simp
    have here: "\<not> in_field f k" if "v \<le> k" "\<And>j. v + 1 \<le> k \<Longrightarrow> \<not> in_field f k" for k
      using that True by (cases "k = v") auto
    from 1 True have IH: "(next_in_set f (v + 1) = - 1 \<and> (\<forall>k. v + 1 \<le> k \<and> k < 60 \<longrightarrow> \<not> in_field f k)) \<or>
       (v + 1 \<le> next_in_set f (v + 1) \<and> next_in_set f (v + 1) < 60 \<and> in_field f (next_in_set f (v + 1)) \<and>
        (\<forall>k. v + 1 \<le> k \<and> k < next_in_set f (v + 1) \<longrightarrow> \<not> in_field f k))" by blast
    then show ?thesis unfolding eq
    proof
      assume "next_in_set f (v + 1) = - 1 \<and> (\<forall>k. v + 1 \<le> k \<and> k < 60 \<longrightarrow> \<not> in_field f k)"
      then show "(next_in_set f (v + 1) = - 1 \<and> (\<forall>k. v \<le> k \<and> k < 60 \<longrightarrow> \<not> in_field f k)) \<or>
       (v \<le> next_in_set f (v + 1) \<and> next_in_set f (v + 1) < 60 \<and> in_field f (next_in_set f (v + 1)) \<and>
        (\<forall>k. v \<le> k \<and> k < next_in_set f (v + 1) \<longrightarrow> \<not> in_field f k))" using here by auto
    qed (use here in auto)
  next
    case False
    then show ?thesis by (subst (1 2 3 4 5) next_in_set.simps) auto
  qed
qed

lemma next_in_set_neg:
  assumes "0 \<le> v"
  shows "\<not> 0 \<le> next_in_set f v \<longleftrightarrow> (\<forall>k. v \<le> k \<and> k < 60 \<longrightarrow> \<not> in_field f k)"
  using next_in_set_spec [of f v] assms by auto

lemma next_in_set_later:
  assumes "0 \<le> next_in_set f v" "\<not> in_field f v"
  shows "v < next_in_set f v" "next_in_set f v < 60"
    "\<And>k. v \<le> k \<Longrightarrow> k < next_in_set f v \<Longrightarrow> \<not> in_field f k"
proof -
  have s: "v \<le> next_in_set f v \<and> next_in_set f v < 60 \<and> in_field f (next_in_set f v) \<and>
    (\<forall>k. v \<le> k \<and> k < next_in_set f v \<longrightarrow> \<not> in_field f k)"
    using next_in_set_spec [of f v] assms(1) by auto
  then show "v < next_in_set f v" using assms(2) by (cases "next_in_set f v = v") auto
  show "next_in_set f v < 60" using s by blast
  show "\<And>k. v \<le> k \<Longrightarrow> k < next_in_set f v \<Longrightarrow> \<not> in_field f k" using s by blast
qed

text \<open>Whatever the location, a result matches and lies before the limit.\<close>

lemma next_loop_matches:
  assumes "next_loop e z limit t = Some r"
  shows "case r of Inl err \<Rightarrow> err = ScanLimit | Inr t' \<Rightarrow> t' < limit \<and> cron_matches e z t'"
proof (rule next_loop.raw_induct [where
    P = "\<lambda>e z limit t r. case r of Inl err \<Rightarrow> err = ScanLimit | Inr t' \<Rightarrow> t' < limit \<and> cron_matches e z t'", OF _ assms])
  fix f :: "expr \<Rightarrow> zone \<Rightarrow> time \<Rightarrow> time \<Rightarrow> (cron_error + time) option"
  fix e z limit t r
  assume IH: "\<And>e z limit t r. f e z limit t = Some r \<Longrightarrow>
      (case r of Inl err \<Rightarrow> err = ScanLimit | Inr t' \<Rightarrow> t' < limit \<and> cron_matches e z t')"
    and eq: "(if t < limit then
        (case next_body e z t of Jump t' \<Rightarrow> f e z limit t' | Found t' \<Rightarrow> Some (Inr t'))
      else Some (Inl ScanLimit)) = Some r"
  show "case r of Inl err \<Rightarrow> err = ScanLimit | Inr t' \<Rightarrow> t' < limit \<and> cron_matches e z t'"
  proof (cases "t < limit")
    case True
    show ?thesis
    proof (cases "next_body e z t")
      case (Jump t')
      with eq True show ?thesis using IH [of e z limit t' r] by simp
    next
      case (Found t')
      with eq True have "r = Inr t'" by simp
      with Found True next_body_Found show ?thesis by simp
    qed
  next
    case False
    with eq have "r = Inl ScanLimit" by simp
    then show ?thesis by simp
  qed
qed

section \<open>The search on local seconds\<close>

text \<open>
  In a location of one offset the wall clock is a count of local seconds. \<open>local_body\<close> is the
  pass of the loop on that count; it agrees with \<open>next_body\<close> where the offset is a whole number
  of hours, because \<open>Truncate\<close> rounds to hours of UTC.
\<close>

fun map_step :: "('a \<Rightarrow> 'b) \<Rightarrow> 'a next_step \<Rightarrow> 'b next_step" where
  "map_step f (Jump x) = Jump (f x)"
| "map_step f (Found x) = Found (f x)"

definition loc_minute :: "int \<Rightarrow> int" where "loc_minute l = l mod 3600 div 60"
definition loc_hour :: "int \<Rightarrow> int" where "loc_hour l = l mod 86400 div 3600"
definition loc_day :: "int \<Rightarrow> int" where "loc_day l = l div 86400"

definition loc_day_ok :: "expr \<Rightarrow> int \<Rightarrow> bool" where
  "loc_day_ok e d =
     day_match (f_all (e_dom e)) (f_all (e_dow e))
       (in_field (e_dom e) (mday_of_day d)) (in_field (e_dow e) (weekday_of_day d))"

fun first_hour :: "field \<Rightarrow> int list \<Rightarrow> int option" where
  "first_hour f [] = None"
| "first_hour f (h # hs) = (if in_field f h then Some h else first_hour f hs)"

definition local_body :: "expr \<Rightarrow> int \<Rightarrow> int next_step" where
  "local_body e l =
     (if \<not> in_field (e_sec e) (l mod 60) then
        (let n = next_in_set (e_sec e) (l mod 60)
         in if 0 \<le> n then Jump (l + (n - l mod 60)) else Jump (l - l mod 60 + 60))
      else if \<not> in_field (e_min e) (loc_minute l) then
        (let n = next_in_set (e_min e) (loc_minute l)
         in if 0 \<le> n then Jump (l - l mod 60 + (n - loc_minute l) * 60) else Jump (l - l mod 3600 + 3600))
      else if \<not> in_field (e_hour e) (loc_hour l) then
        (case first_hour (e_hour e) [loc_hour l + 1..23] of
           Some h \<Rightarrow> Jump (loc_day l * 86400 + h * 3600)
         | None \<Rightarrow> Jump ((loc_day l + 1) * 86400))
      else if \<not> loc_day_ok e (loc_day l) then Jump ((loc_day l + 1) * 86400)
      else if \<not> in_field (e_month e) (month_of_day (loc_day l)) then
        Jump (day_of_date (year_of_day (loc_day l)) (month_of_day (loc_day l) + 1) 1 * 86400)
      else Found l)"

definition local_matches :: "expr \<Rightarrow> int \<Rightarrow> bool" where
  "local_matches e l \<longleftrightarrow>
     in_field (e_sec e) (l mod 60) \<and> in_field (e_min e) (loc_minute l) \<and>
     in_field (e_hour e) (loc_hour l) \<and> loc_day_ok e (loc_day l) \<and>
     in_field (e_month e) (month_of_day (loc_day l))"

lemma first_hour_Some:
  "first_hour f [a..23] = Some h \<Longrightarrow> a \<le> h \<and> h < 24 \<and> in_field f h \<and> (\<forall>k. a \<le> k \<and> k < h \<longrightarrow> \<not> in_field f k)"
proof (induction "nat (24 - a)" arbitrary: a)
  case 0
  then show ?case by simp
next
  case (Suc n)
  then have a24: "a \<le> 23" by simp
  then have a: "[a..23] = a # [a + 1..23]" by (simp add: upto_rec1)
  show ?case
  proof (cases "in_field f a")
    case True
    with Suc.prems a a24 show ?thesis by (auto split: if_splits)
  next
    case False
    with Suc.prems a have "first_hour f [a + 1..23] = Some h" by simp
    with Suc.hyps(1) [of "a + 1"] Suc.hyps(2)
    have IH: "a + 1 \<le> h \<and> h < 24 \<and> in_field f h \<and> (\<forall>k. a + 1 \<le> k \<and> k < h \<longrightarrow> \<not> in_field f k)" by simp
    have "\<not> in_field f k" if "a \<le> k" "k < h" for k
      using that IH False by (cases "k = a") auto
    with IH show ?thesis by auto
  qed
qed

lemma first_hour_None: "first_hour f hs = None \<longleftrightarrow> (\<forall>h\<in>set hs. \<not> in_field f h)"
  by (induction hs) auto

lemma mod_shift:
  assumes "0 \<le> j" "l mod m + j < (m::int)" "0 < m"
  shows "(l + j) mod m = l mod m + j" "(l + j) div m = l div m"
proof -
  have "0 \<le> l mod m" using assms(3) by simp
  moreover have "l + j = m * (l div m) + (l mod m + j)" by simp
  ultimately show "(l + j) mod m = l mod m + j" "(l + j) div m = l div m"
    using assms by (metis add_nonneg_nonneg int_mod_pos_eq, metis add_nonneg_nonneg int_div_pos_eq)
qed

lemma loc_bounds:
  "0 \<le> loc_minute l" "loc_minute l < 60" "0 \<le> loc_hour l" "loc_hour l < 24"
  "l mod 3600 = 60 * loc_minute l + l mod 60" "l mod 86400 = 3600 * loc_hour l + l mod 3600"
proof -
  have b: "0 \<le> l mod 3600" "l mod 3600 < 3600" "0 \<le> l mod 86400" "l mod 86400 < 86400" by simp_all
  then show "0 \<le> loc_minute l" "loc_minute l < 60" "0 \<le> loc_hour l" "loc_hour l < 24"
    unfolding loc_minute_def loc_hour_def by (auto simp: pos_imp_zdiv_nonneg_iff)
  have "l mod 3600 mod 60 = l mod 60" "l mod 86400 mod 3600 = l mod 3600"
    by (simp_all add: mod_mod_cancel)
  then show "l mod 3600 = 60 * loc_minute l + l mod 60" "l mod 86400 = 3600 * loc_hour l + l mod 3600"
    unfolding loc_minute_def loc_hour_def
    using mult_div_mod_eq [of 60 "l mod 3600"] mult_div_mod_eq [of 3600 "l mod 86400"] by simp_all
qed

text \<open>Within a jump the coarser parts of the wall clock stay and the part in question is not in its set.\<close>

lemma skip_second:
  assumes "l \<le> m" "m < l + (n - l mod 60)" "n \<le> 60" "\<And>k. l mod 60 \<le> k \<Longrightarrow> k < n \<Longrightarrow> \<not> in_field f k"
  shows "\<not> in_field f (m mod 60)"
proof -
  have "m mod 60 = l mod 60 + (m - l)"
    using mod_shift(1) [of "m - l" l 60] assms by simp
  then show ?thesis using assms by simp
qed

lemma skip_minute:
  assumes "l \<le> m" "m < l - l mod 60 + (n - loc_minute l) * 60" "n \<le> 60"
    "\<And>k. loc_minute l \<le> k \<Longrightarrow> k < n \<Longrightarrow> \<not> in_field f k"
  shows "\<not> in_field f (loc_minute m)"
proof -
  have b: "l mod 3600 = 60 * loc_minute l + l mod 60" by (fact loc_bounds)
  then have m: "m mod 3600 = l mod 3600 + (m - l)"
    using mod_shift(1) [of "m - l" l 3600] assms(1-3) by simp
  have "l mod 3600 \<le> m mod 3600" "m mod 3600 < 60 * n" using m b assms(1,2) by simp_all
  then have "loc_minute l \<le> loc_minute m" "loc_minute m < n"
    unfolding loc_minute_def by (simp_all add: zdiv_mono1 div_less_iff_less_mult mult.commute)
  then show ?thesis using assms(4) by blast
qed

lemma skip_hour:
  assumes "l \<le> m" "m < loc_day l * 86400 + h * 3600" "h \<le> 24"
    "\<And>k. loc_hour l \<le> k \<Longrightarrow> k < h \<Longrightarrow> \<not> in_field f k"
  shows "\<not> in_field f (loc_hour m)"
proof -
  have l: "l = loc_day l * 86400 + l mod 86400" by (simp add: loc_day_def)
  then have m: "m mod 86400 = l mod 86400 + (m - l)"
    using mod_shift(1) [of "m - l" l 86400] assms(1-3) by simp
  have "l mod 86400 \<le> m mod 86400" "m mod 86400 < 3600 * h" using m l assms(1,2) by linarith+
  then have "loc_hour l \<le> loc_hour m" "loc_hour m < h"
    unfolding loc_hour_def by (simp_all add: zdiv_mono1 div_less_iff_less_mult mult.commute)
  then show ?thesis using assms(4) by blast
qed

lemma loc_day_between:
  assumes "l \<le> m" "m < d * 86400"
  shows "loc_day l \<le> loc_day m" "loc_day m < d"
  using assms unfolding loc_day_def by (simp_all add: zdiv_mono1 div_less_iff_less_mult)

lemma local_jump_later:
  assumes "local_body e l = Jump l'"
  shows "l < l'"
proof -
  note b = loc_bounds [of l]
  have l: "l = loc_day l * 86400 + l mod 86400" by (simp add: loc_day_def)
  have m: "l mod 60 < 60" "l mod 3600 < 3600" "l mod 86400 < 86400" "0 \<le> l mod 60" by simp_all
  have "(loc_day l + 1) * 86400 = loc_day l * 86400 + 86400" by (simp add: distrib_right)
  then have day: "l < (loc_day l + 1) * 86400" using l m by linarith
  have month: "(loc_day l + 1) * 86400
      \<le> day_of_date (year_of_day (loc_day l)) (month_of_day (loc_day l) + 1) 1 * 86400"
    using next_month_later [of "loc_day l"] by simp
  consider n where "l' = l + (n - l mod 60)" "l mod 60 < n" | "l' = l - l mod 60 + 60"
    | n where "l' = l - l mod 60 + (n - loc_minute l) * 60" "loc_minute l + 1 \<le> n"
    | "l' = l - l mod 3600 + 3600"
    | h where "l' = loc_day l * 86400 + h * 3600" "loc_hour l + 1 \<le> h"
    | "l' = (loc_day l + 1) * 86400"
    | "l' = day_of_date (year_of_day (loc_day l)) (month_of_day (loc_day l) + 1) 1 * 86400"
    using assms next_in_set_later(1) [of "e_sec e" "l mod 60"] next_in_set_later(1) [of "e_min e" "loc_minute l"]
      first_hour_Some [of "e_hour e" "loc_hour l + 1"]
    by (auto simp: local_body_def Let_def split: if_splits option.splits)
  then show ?thesis
  proof cases
    case (3 n)
    then have "60 \<le> (n - loc_minute l) * 60" by simp
    with 3 m show ?thesis by linarith
  next
    case (5 h)
    then show ?thesis using l b(6) m by linarith
  next
    case 6
    then show ?thesis using day by simp
  next
    case 7
    then show ?thesis using day month by linarith
  qed (use m in linarith)+
qed

lemma local_jump_skips:
  assumes "local_body e l = Jump l'" "l \<le> m" "m < l'"
  shows "\<not> local_matches e m"
proof -
  have day: "\<not> local_matches e m" if "l' = (loc_day l + 1) * 86400" "\<not> loc_day_ok e (loc_day l)"
    using loc_day_between [of l m "loc_day l + 1"] assms(2,3) that by (auto simp: local_matches_def)
  show ?thesis
  proof (cases "in_field (e_sec e) (l mod 60)")
    case sec: False
    have "\<not> in_field (e_sec e) (m mod 60)"
    proof (cases "0 \<le> next_in_set (e_sec e) (l mod 60)")
      case True
      then show ?thesis
        using assms sec next_in_set_later [OF True sec] skip_second [of l m "next_in_set (e_sec e) (l mod 60)" "e_sec e"]
        by (simp add: local_body_def Let_def)
    next
      case False
      then show ?thesis
        using assms sec next_in_set_neg [of "l mod 60" "e_sec e"] skip_second [of l m 60 "e_sec e"]
        by (simp add: local_body_def Let_def)
    qed
    then show ?thesis by (simp add: local_matches_def)
  next
    case sec: True
    show ?thesis
    proof (cases "in_field (e_min e) (loc_minute l)")
      case min: False
      have "\<not> in_field (e_min e) (loc_minute m)"
      proof (cases "0 \<le> next_in_set (e_min e) (loc_minute l)")
        case True
        then show ?thesis
          using assms sec min next_in_set_later [OF True min]
            skip_minute [of l m "next_in_set (e_min e) (loc_minute l)" "e_min e"]
          by (simp add: local_body_def Let_def)
      next
        case False
        then show ?thesis
          using assms sec min next_in_set_neg [of "loc_minute l" "e_min e"] skip_minute [of l m 60 "e_min e"]
            loc_bounds(1,5) [of l]
          by (simp add: local_body_def Let_def)
      qed
      then show ?thesis by (simp add: local_matches_def)
    next
      case min: True
      show ?thesis
      proof (cases "in_field (e_hour e) (loc_hour l)")
        case hr: False
        have "\<not> in_field (e_hour e) (loc_hour m)"
        proof (cases "first_hour (e_hour e) [loc_hour l + 1..23]")
          case None
          then have "\<not> in_field (e_hour e) k" if "loc_hour l \<le> k" "k < 24" for k
            using that hr by (cases "k = loc_hour l") (auto simp: first_hour_None)
          then show ?thesis
            using assms sec min hr None skip_hour [of l m 24 "e_hour e"] by (simp add: local_body_def algebra_simps)
        next
          case (Some h)
          from first_hour_Some [OF this] hr
          have "\<not> in_field (e_hour e) k" if "loc_hour l \<le> k" "k < h" for k
            using that by (cases "k = loc_hour l") auto
          then show ?thesis
            using assms sec min hr Some first_hour_Some [OF Some] skip_hour [of l m h "e_hour e"]
            by (simp add: local_body_def)
        qed
        then show ?thesis by (simp add: local_matches_def)
      next
        case hr: True
        show ?thesis
        proof (cases "loc_day_ok e (loc_day l)")
          case False
          with assms(1) sec min hr day show ?thesis by (simp add: local_body_def)
        next
          case ok: True
          then have mo: "\<not> in_field (e_month e) (month_of_day (loc_day l))"
            and l': "l' = day_of_date (year_of_day (loc_day l)) (month_of_day (loc_day l) + 1) 1 * 86400"
            using assms(1) sec min hr by (auto simp: local_body_def split: if_splits)
          have "month_of_day (loc_day m) = month_of_day (loc_day l)"
            using month_constant [of "loc_day l" "loc_day m"] loc_day_between [of l m] assms(2,3) l' by blast
          with mo show ?thesis by (simp add: local_matches_def)
        qed
      qed
    qed
  qed
qed

lemma local_body_Found: "local_body e l = Found l' \<longleftrightarrow> l' = l \<and> local_matches e l"
  by (auto simp: local_body_def local_matches_def Let_def split: option.splits if_splits)

end
