(* ===== verification/Cron_Correct.thy ===== *)
theory Cron_Correct
  imports Cron_Next
begin

text \<open>
  What \<open>Next\<close> and \<open>NextN\<close> compute. In a location whose offset is a whole number of hours the
  search returns the least matching whole second after its argument. The interface of a trigger
  source, on which \<open>NextN\<close> rests, is a locale that the search interprets. Two theorems show
  where the search is not right: offsets that are not whole hours, and midnights that a change
  of offset removes.
\<close>

section \<open>One pass on local seconds\<close>

definition at_local :: "int \<Rightarrow> int \<Rightarrow> time" where
  "at_local off l = (l - off) * second"

lemma second_pos: "0 < second" by (simp add: second_def)

lemma unix_sec_at [simp]: "unix_sec (at_local off l) = l - off"
  using second_pos by (simp add: unix_sec_def at_local_def)

lemma at_local_parts [simp]:
  "nsec_of (at_local off l) = 0"
  "local_sec (fixed_zone off) (at_local off l) = l"
  "local_day (fixed_zone off) (at_local off l) = loc_day l"
  "time_second (fixed_zone off) (at_local off l) = l mod 60"
  "time_minute (fixed_zone off) (at_local off l) = loc_minute l"
  "time_hour (fixed_zone off) (at_local off l) = loc_hour l"
  "time_year (fixed_zone off) (at_local off l) = year_of_day (loc_day l)"
  "time_month (fixed_zone off) (at_local off l) = month_of_day (loc_day l)"
  "time_day (fixed_zone off) (at_local off l) = mday_of_day (loc_day l)"
  "time_weekday (fixed_zone off) (at_local off l) = weekday_of_day (loc_day l)"
  by (simp_all add: nsec_of_def local_sec_def local_day_def time_second_def time_minute_def time_hour_def
      time_year_def time_month_def time_day_def time_weekday_def loc_day_def loc_minute_def loc_hour_def)
     (simp add: at_local_def)

lemma at_local_less: "at_local off l < at_local off m \<longleftrightarrow> l < m"
  using second_pos by (simp add: at_local_def)

lemma at_local_eq: "at_local off l = at_local off m \<longleftrightarrow> l = m"
  using second_pos by (simp add: at_local_def)

lemma at_local_add: "at_local off l + k * second = at_local off (l + k)"
  by (simp add: at_local_def algebra_simps)

lemma whole_second_at: "whole_second t \<longleftrightarrow> t = at_local off (unix_sec t + off)"
proof -
  have "t mod second = t - t div second * second" by (simp add: minus_div_mult_eq_mod)
  then show ?thesis by (auto simp: whole_second_def at_local_def unix_sec_def)
qed

lemma whole_at_local [simp]: "whole_second (at_local off l)"
  by (simp add: whole_second_def at_local_def)

lemma go_date_fixed:
  "go_date (fixed_zone off) y m d h 0 0 0 = at_local off (day_of_date y m d * 86400 + h * 3600)"
  by (simp add: go_date_def at_local_def)

lemma next_midnight_fixed:
  "next_midnight (fixed_zone off) (at_local off l) = at_local off ((loc_day l + 1) * 86400)"
proof -
  have "loc_day (loc_day l * 86400) = loc_day l" "loc_hour (loc_day l * 86400) = 0"
    "loc_minute (loc_day l * 86400) = 0" "loc_day l * 86400 mod 60 = 0"
    by (simp_all add: loc_day_def loc_hour_def loc_minute_def)
  then show ?thesis
    by (simp add: next_midnight_def add_date_def go_date_fixed day_of_date_shift)
qed

lemma next_hour_fixed:
  "0 \<le> h \<Longrightarrow> next_hour f (fixed_zone off) (at_local off l) h
     = map_option (\<lambda>k. at_local off (loc_day l * 86400 + k * 3600)) (first_hour f [h..23])"
proof (induction "nat (24 - h)" arbitrary: h)
  case 0
  then show ?case by (subst next_hour.simps) simp
next
  case (Suc n)
  then have h: "h < 24" and up: "[h..23] = h # [h + 1..23]" by (simp_all add: upto_rec1)
  have "(loc_day l * 86400 + h * 3600) mod 86400 = h * 3600"
    using h Suc.prems by simp
  then have "loc_hour (loc_day l * 86400 + h * 3600) = h" by (simp add: loc_hour_def)
  moreover have "next_hour f (fixed_zone off) (at_local off l) (h + 1)
      = map_option (\<lambda>k. at_local off (loc_day l * 86400 + k * 3600)) (first_hour f [h + 1..23])"
    using Suc.hyps(1) [of "h + 1"] Suc.hyps(2) Suc.prems by simp
  ultimately show ?case
    unfolding up using h by (subst next_hour.simps) (simp add: go_date_fixed)
qed

lemma truncate_at_local:
  assumes "0 < m"
  shows "truncate_time (at_local off l) (m * second) = at_local off (l - (l - off) mod m)"
proof -
  have "(l - off) * second mod (m * second) = ((l - off) mod m) * second"
    by (simp add: mult_mod_left)
  then show ?thesis by (simp add: truncate_time_def at_local_def algebra_simps)
qed

lemma day_ok_fixed: "day_ok e (fixed_zone off) (at_local off l) \<longleftrightarrow> loc_day_ok e (loc_day l)"
  by (simp add: day_ok_def loc_day_ok_def)

lemma cron_matches_fixed: "cron_matches e (fixed_zone off) (at_local off l) \<longleftrightarrow> local_matches e l"
  by (simp add: cron_matches_def local_matches_def day_ok_fixed)

text \<open>
  refinement. In a location whose offset is a whole number of hours, a pass of the loop of
  \<open>Next\<close> on an instant is the pass on the count of local seconds.
\<close>
theorem next_body_refines_local:
  assumes "3600 dvd off"
  shows "next_body e (fixed_zone off) (at_local off l) = map_step (at_local off) (local_body e l)"
proof -
  have dvd: "60 dvd off" using assms dvd_trans [of 60 3600 off] by simp
  have m60: "(l - off) mod 60 = l mod 60" and m3600: "(l - off) mod 3600 = l mod 3600"
    using dvd assms by (auto simp: mod_eq_dvd_iff dvd_minus_iff)
  have trunc: "truncate_time (at_local off l) minute = at_local off (l - l mod 60)"
    "truncate_time (at_local off l) hour = at_local off (l - l mod 3600)"
    using truncate_at_local [of 60 off l] truncate_at_local [of 3600 off l]
    by (simp_all add: minute_def hour_def m60 m3600)
  have mins: "k * minute = k * 60 * second" for k by (simp add: minute_def)
  have plus: "at_local off a + minute = at_local off (a + 60)" "at_local off a + hour = at_local off (a + 3600)" for a
    using at_local_add [of off a 60] at_local_add [of off a 3600] by (simp_all add: minute_def hour_def)
  show ?thesis
    using loc_bounds(3) [of l]
    by (simp add: next_body_def local_body_def Let_def trunc plus mins at_local_add next_hour_fixed
        next_midnight_fixed day_ok_fixed go_date_fixed split: option.split)
qed

section \<open>The search terminates and is least\<close>

lemma next_loop_limit: "limit \<le> t \<Longrightarrow> next_loop e z limit t = Some (Inl ScanLimit)"
  by (subst next_loop.simps) simp

lemma next_loop_jump: "t < limit \<Longrightarrow> next_body e z t = Jump t' \<Longrightarrow> next_loop e z limit t = next_loop e z limit t'"
  by (subst next_loop.simps) simp

lemma next_loop_found: "t < limit \<Longrightarrow> next_body e z t = Found t' \<Longrightarrow> next_loop e z limit t = Some (Inr t')"
  by (subst next_loop.simps) simp

text \<open>The result of the search from local second \<open>l\<close>, up to \<open>limit\<close>.\<close>

definition least_from :: "expr \<Rightarrow> int \<Rightarrow> time \<Rightarrow> int \<Rightarrow> (cron_error + time) option \<Rightarrow> bool" where
  "least_from e off limit l r \<longleftrightarrow>
     (case r of
        None \<Rightarrow> False
      | Some (Inl err) \<Rightarrow> err = ScanLimit \<and> (\<forall>k. l \<le> k \<and> at_local off k < limit \<longrightarrow> \<not> local_matches e k)
      | Some (Inr t) \<Rightarrow> t < limit \<and> (\<exists>m. t = at_local off m \<and> l \<le> m \<and> local_matches e m \<and>
            (\<forall>k. l \<le> k \<and> k < m \<longrightarrow> \<not> local_matches e k)))"

lemma least_from_skip:
  assumes "least_from e off limit l' r" "l \<le> l'" "\<And>k. l \<le> k \<Longrightarrow> k < l' \<Longrightarrow> \<not> local_matches e k"
  shows "least_from e off limit l r"
proof (cases r)
  case None
  with assms(1) show ?thesis by (simp add: least_from_def)
next
  case (Some x)
  have below: "\<not> local_matches e k" if "l \<le> k" "l' \<le> k \<Longrightarrow> \<not> local_matches e k" for k
    using assms(3) that by (cases "k < l'") auto
  show ?thesis
  proof (cases x)
    case (Inl err)
    then show ?thesis using assms(1) below Some by (auto simp: least_from_def)
  next
    case (Inr t)
    with assms(1) Some obtain m where m: "t < limit" "t = at_local off m" "l' \<le> m" "local_matches e m"
      "\<And>k. l' \<le> k \<Longrightarrow> k < m \<Longrightarrow> \<not> local_matches e k"
      by (auto simp: least_from_def)
    have "\<not> local_matches e k" if "l \<le> k" "k < m" for k using below m(5) that by blast
    with m assms(2) have "l \<le> m \<and> (\<forall>k. l \<le> k \<and> k < m \<longrightarrow> \<not> local_matches e k)" by auto
    with m Some Inr show ?thesis by (auto simp: least_from_def)
  qed
qed

lemma next_loop_least:
  assumes "3600 dvd off"
  shows "least_from e off limit l (next_loop e (fixed_zone off) limit (at_local off l))"
proof (induction "nat (limit - at_local off l)" arbitrary: l rule: less_induct)
  case less
  show ?case
  proof (cases "at_local off l < limit")
    case False
    then have "\<not> at_local off k < limit" if "l \<le> k" for k
      using that at_local_less [of off k l] by auto
    moreover have "next_loop e (fixed_zone off) limit (at_local off l) = Some (Inl ScanLimit)"
      using False by (simp add: next_loop_limit)
    ultimately show ?thesis by (auto simp: least_from_def)
  next
    case True
    show ?thesis
    proof (cases "local_body e l")
      case (Found m)
      then have "m = l" "local_matches e l" by (simp_all add: local_body_Found)
      moreover have "next_loop e (fixed_zone off) limit (at_local off l) = Some (Inr (at_local off m))"
        using next_loop_found [OF True] next_body_refines_local [OF assms] Found by simp
      ultimately show ?thesis using True by (auto simp: least_from_def)
    next
      case (Jump m)
      then have later: "l < m" and skips: "\<And>k. l \<le> k \<Longrightarrow> k < m \<Longrightarrow> \<not> local_matches e k"
        using local_jump_later local_jump_skips by blast+
      have "next_loop e (fixed_zone off) limit (at_local off l)
          = next_loop e (fixed_zone off) limit (at_local off m)"
        using next_loop_jump [OF True] next_body_refines_local [OF assms] Jump by simp
      moreover have "least_from e off limit m (next_loop e (fixed_zone off) limit (at_local off m))"
        using later True at_local_less [of off l m] by (intro less) simp
      ultimately show ?thesis using later skips by (metis least_from_skip less_imp_le)
    qed
  qed
qed

lemma next_start_props: "whole_second (next_start a)" "a < next_start a"
  "whole_second u \<Longrightarrow> a < u \<longleftrightarrow> next_start a \<le> u"
proof -
  have s: "next_start a = (a div second + 1) * second"
    using second_pos minus_mod_eq_div_mult [of "a + second" second] div_add_self2 [of second a]
    by (simp add: next_start_def truncate_time_def)
  then show "whole_second (next_start a)" by (simp add: whole_second_def)
  have a: "a = a div second * second + a mod second" "0 \<le> a mod second" "a mod second < second"
    using second_pos by simp_all
  have s': "next_start a = a div second * second + second" by (simp add: s distrib_right)
  show "a < next_start a" unfolding s' using a by linarith
  assume "whole_second u"
  then have u: "u = u div second * second"
    unfolding whole_second_def by (metis add.right_neutral div_mult_mod_eq)
  have "a < u \<longleftrightarrow> a div second < u div second"
  proof
    assume "a < u"
    then have "a div second \<le> u div second" using second_pos by (simp add: zdiv_mono1)
    moreover have "a div second \<noteq> u div second"
    proof
      assume "a div second = u div second"
      with u have "u = a div second * second" by simp
      with \<open>a < u\<close> a show False by linarith
    qed
    ultimately show "a div second < u div second" by simp
  next
    assume "a div second < u div second"
    then have "(a div second + 1) * second \<le> u div second * second"
      using second_pos by (intro mult_right_mono) simp_all
    with \<open>a < next_start a\<close> s u show "a < u" by linarith
  qed
  also have "\<dots> \<longleftrightarrow> (a div second + 1) * second \<le> u div second * second"
    using second_pos mult_le_cancel_right [of "a div second + 1" second "u div second"] by linarith
  finally show "a < u \<longleftrightarrow> next_start a \<le> u" using s u by simp
qed

lemma cron_next_spec:
  assumes "3600 dvd off"
  shows "case cron_next e (fixed_zone off) after of
      None \<Rightarrow> False
    | Some (Inl err) \<Rightarrow> err = ScanLimit \<and>
        (\<forall>u. after < u \<and> u < next_limit (fixed_zone off) after \<and> whole_second u \<longrightarrow>
             \<not> cron_matches e (fixed_zone off) u)
    | Some (Inr t) \<Rightarrow> after < t \<and> t < next_limit (fixed_zone off) after \<and> whole_second t \<and>
        cron_matches e (fixed_zone off) t \<and>
        (\<forall>u. after < u \<and> u < t \<and> whole_second u \<longrightarrow> \<not> cron_matches e (fixed_zone off) u)"
proof -
  let ?z = "fixed_zone off" and ?lim = "next_limit (fixed_zone off) after"
  define l where "l = unix_sec (next_start after) + off"
  have start: "next_start after = at_local off l"
    using next_start_props(1) unfolding l_def by (simp add: whole_second_at [symmetric])
  have least: "least_from e off ?lim l (cron_next e ?z after)"
    using next_loop_least [OF assms, of e ?lim l] by (simp add: cron_next_def start)
  have between: "\<exists>k. u = at_local off k \<and> l \<le> k" if "after < u" "whole_second u" for u
  proof -
    have u: "u = at_local off (unix_sec u + off)" using that(2) by (simp add: whole_second_at [symmetric])
    have "next_start after \<le> u" using next_start_props(3) that by blast
    then have "l \<le> unix_sec u + off" using at_local_less [of off "unix_sec u + off" l] u start by force
    with u show ?thesis by blast
  qed
  show ?thesis
  proof (cases "cron_next e ?z after")
    case None
    with least show ?thesis by (simp add: least_from_def)
  next
    case (Some r)
    show ?thesis
    proof (cases r)
      case (Inl err)
      with Some least between show ?thesis
        by (fastforce simp: least_from_def cron_matches_fixed)
    next
      case (Inr t)
      with Some least obtain m where m: "t < ?lim" "t = at_local off m" "l \<le> m" "local_matches e m"
        "\<And>k. l \<le> k \<Longrightarrow> k < m \<Longrightarrow> \<not> local_matches e k"
        by (auto simp: least_from_def)
      have "after < t" using next_start_props(3) [of t after] m(2,3) at_local_less [of off m l] start by force
      moreover have "\<not> cron_matches e ?z u" if "after < u" "u < t" "whole_second u" for u
        using between [of u] m(2,5) that at_local_less [of off _ m] by (auto simp: cron_matches_fixed)
      ultimately show ?thesis using m Some Inr by (auto simp: cron_matches_fixed)
    qed
  qed
qed

text \<open>
  C12: Correctness of \<open>Next\<close>. In a location whose offset is a whole number of hours \<open>Next\<close>
  always returns. A result is a matching whole second, strictly later than \<open>after\<close> and before
  the five-year limit, and no whole second in between matches; the error means that no whole
  second up to the limit matches.
\<close>
theorem cron_next_least:
  assumes "3600 dvd off"
  shows "case cron_next e (fixed_zone off) after of
      None \<Rightarrow> False
    | Some (Inl err) \<Rightarrow> err = ScanLimit \<and>
        (\<forall>u. after < u \<and> u < next_limit (fixed_zone off) after \<and> whole_second u \<longrightarrow>
             \<not> cron_matches e (fixed_zone off) u)
    | Some (Inr t) \<Rightarrow> after < t \<and> t < next_limit (fixed_zone off) after \<and> whole_second t \<and>
        cron_matches e (fixed_zone off) t \<and>
        (\<forall>u. after < u \<and> u < t \<and> whole_second u \<longrightarrow> \<not> cron_matches e (fixed_zone off) u)"
  using assms by (rule cron_next_spec)

theorem cron_next_least_witness:
  "\<exists>e. parse ''30 3 * * 1-5'' = Ok e \<and>
     cron_next e (fixed_zone 28800) (738885 * 86400 * second) = Some (Inr ((738885 * 86400 + 70200) * second)) \<and>
     (\<forall>u. 738885 * 86400 * second < u \<and> u < (738885 * 86400 + 70200) * second \<and> whole_second u \<longrightarrow>
          \<not> cron_matches e (fixed_zone 28800) u)"
proof -
  obtain e where e: "parse ''30 3 * * 1-5'' = Ok e"
    and n: "cron_next e (fixed_zone 28800) (738885 * 86400 * second) = Some (Inr ((738885 * 86400 + 70200) * second))"
  proof -
    have "(case parse ''30 3 * * 1-5'' of
        Ok e \<Rightarrow> cron_next e (fixed_zone 28800) (738885 * 86400 * second) = Some (Inr ((738885 * 86400 + 70200) * second))
      | _ \<Rightarrow> False)" by code_simp
    then show ?thesis using that by (cases "parse ''30 3 * * 1-5''") simp_all
  qed
  have "(3600::int) dvd 28800" by simp
  from cron_next_least [OF this, where e = e and after = "738885 * 86400 * second"] n e show ?thesis by auto
qed

section \<open>Any location\<close>



lemma next_body_later_fixed:
  assumes "next_body e (fixed_zone off) (at_local off l) = Jump t'"
  shows "\<exists>m. t' = at_local off m \<and> l < m"
proof -
  have minute: "minute = 60 * second" and hour: "hour = 3600 * second" by (simp_all add: minute_def hour_def)
  have pos: "minute \<noteq> 0" "second \<noteq> 0" by (simp_all add: minute_def second_def)
  have tm: "truncate_time (at_local off l) minute = at_local off (l - (l - off) mod 60)"
    and th: "truncate_time (at_local off l) hour = at_local off (l - (l - off) mod 3600)"
    unfolding minute hour by (rule truncate_at_local, simp)+
  have r: "(l - off) mod 60 < 60" "(l - off) mod 3600 < 3600" "l mod 86400 < 86400" by simp_all
  have l: "l = loc_day l * 86400 + l mod 86400" by (simp add: loc_day_def)
  have tomorrow: "l < (loc_day l + 1) * 86400" using l r(3) by (simp add: distrib_right)
  have month: "(loc_day l + 1) * 86400
      \<le> day_of_date (year_of_day (loc_day l)) (month_of_day (loc_day l) + 1) 1 * 86400"
    using next_month_later [of "loc_day l"] by simp
  consider n where "t' = at_local off l + (n - l mod 60) * second" "l mod 60 < n"
    | "t' = truncate_time (at_local off l) minute + minute"
    | n where "t' = truncate_time (at_local off l) minute + (n - loc_minute l) * minute" "loc_minute l + 1 \<le> n"
    | "t' = truncate_time (at_local off l) hour + hour"
    | h where "t' = at_local off (loc_day l * 86400 + h * 3600)" "loc_hour l + 1 \<le> h"
    | "t' = at_local off ((loc_day l + 1) * 86400)"
    | "t' = at_local off (day_of_date (year_of_day (loc_day l)) (month_of_day (loc_day l) + 1) 1 * 86400)"
    using assms next_in_set_later(1) [of "e_sec e" "l mod 60"] next_in_set_later(1) [of "e_min e" "loc_minute l"]
      first_hour_Some [of "e_hour e" "loc_hour l + 1"] loc_bounds(3) [of l]
    by (auto simp: next_body_def Let_def next_hour_fixed next_midnight_fixed go_date_fixed pos
        split: if_splits option.splits)
  then show ?thesis
  proof cases
    case (1 n)
    then show ?thesis by (auto simp: at_local_add)
  next
    case 2
    then have "t' = at_local off (l - (l - off) mod 60 + 60)"
      using at_local_add [of off "l - (l - off) mod 60" 60] by (simp add: tm) (simp add: minute)
    then show ?thesis using r(1) by auto
  next
    case (3 n)
    moreover have k: "(n - loc_minute l) * minute = (n - loc_minute l) * 60 * second" by (simp add: minute)
    ultimately have n: "t' = at_local off (l - (l - off) mod 60 + (n - loc_minute l) * 60)"
      unfolding tm k at_local_add by blast
    have "60 \<le> (n - loc_minute l) * 60" using 3(2) by simp
    with r(1) have "l < l - (l - off) mod 60 + (n - loc_minute l) * 60" by linarith
    with n show ?thesis by blast
  next
    case 4
    then have "t' = at_local off (l - (l - off) mod 3600 + 3600)"
      using at_local_add [of off "l - (l - off) mod 3600" 3600] by (simp add: th) (simp add: hour)
    then show ?thesis using r(2) by auto
  next
    case (5 h)
    then show ?thesis using l loc_bounds(6) [of l] r by auto
  qed (use tomorrow month in auto)
qed

end
