(* ===== verification/Cron_Triggers.thy ===== *)
theory Cron_Triggers
  imports Cron_Correct
begin

text \<open>
  The interface of a trigger source, as a locale: each trigger is strictly later than the
  instant asked about, fires, and no firing instant is left out. \<open>Next\<close> provides it in a
  location of whole hours, and \<open>NextN\<close>, the client, is proved on the interface. Then the
  locations and expressions on which \<open>Next\<close> does not do what it means to.
\<close>

section \<open>Trigger sources\<close>

locale trigger_source =
  fixes nx :: "time \<Rightarrow> (cron_error + time) option"
    and fires :: "time \<Rightarrow> bool"
  assumes returns: "nx a \<noteq> None"
    and later: "nx a = Some (Inr t) \<Longrightarrow> a < t"
    and sound: "nx a = Some (Inr t) \<Longrightarrow> fires t"
    and least: "nx a = Some (Inr t) \<Longrightarrow> a < u \<Longrightarrow> u < t \<Longrightarrow> \<not> fires u"
    and failure: "nx a = Some (Inl err) \<Longrightarrow> err = ScanLimit"
begin

text \<open>\<open>ts\<close> are the first firing instants after \<open>a\<close>, in order.\<close>

lemma next_n_loop_spec:
  "case next_n_loop nx n a out of
     None \<Rightarrow> False
   | Some (Inl err) \<Rightarrow> err = ScanLimit
   | Some (Inr ts) \<Rightarrow> \<exists>new. ts = out @ new \<and> length new = n \<and> sorted_wrt (<) (a # new) \<and>
       (\<forall>u. a < u \<and> u \<le> last (a # new) \<longrightarrow> (fires u \<longleftrightarrow> u \<in> set new))"
proof (induction n arbitrary: a out)
  case 0
  show ?case by auto
next
  case (Suc n)
  show ?case
  proof (cases "nx a")
    case None
    then show ?thesis using returns by simp
  next
    case (Some r)
    show ?thesis
    proof (cases r)
      case (Inl err)
      then show ?thesis using Some failure by simp
    next
      case (Inr t)
      note at = later [OF Some [unfolded Inr]] and ft = sound [OF Some [unfolded Inr]]
      have eq: "next_n_loop nx (Suc n) a out = next_n_loop nx n t (out @ [t])"
        using Some Inr by simp
      show ?thesis
      proof (cases "next_n_loop nx n t (out @ [t])")
        case None
        then show ?thesis using Suc [where a = t and out = "out @ [t]"] by simp
      next
        case r2: (Some r2)
        show ?thesis
        proof (cases r2)
          case (Inl err)
          then show ?thesis using Suc [where a = t and out = "out @ [t]"] r2 eq by simp
        next
          case inr: (Inr ts)
          obtain new where new: "ts = (out @ [t]) @ new" "length new = n" "sorted_wrt (<) (t # new)"
            "\<And>u. t < u \<Longrightarrow> u \<le> last (t # new) \<Longrightarrow> fires u \<longleftrightarrow> u \<in> set new"
            using Suc [where a = t and out = "out @ [t]"] r2 inr by auto
          have "sorted_wrt (<) (a # t # new)" using new(3) at by auto
          moreover have "fires u \<longleftrightarrow> u \<in> set (t # new)" if "a < u" "u \<le> last (a # t # new)" for u
          proof (cases u t rule: linorder_cases)
            case less
            then show ?thesis using least [OF Some [unfolded Inr] that(1)] new(3) by auto
          next
            case equal
            then show ?thesis using ft by simp
          next
            case greater
            then show ?thesis using new(4) [of u] that(2) by auto
          qed
          ultimately show ?thesis
            using r2 inr eq new(1,2) by (auto intro!: exI [of _ "t # new"])
        qed
      qed
    qed
  qed
qed

end

definition fires_in :: "expr \<Rightarrow> int \<Rightarrow> time \<Rightarrow> bool" where
  "fires_in e off t \<longleftrightarrow> whole_second t \<and> cron_matches e (fixed_zone off) t"

interpretation whole_hours: trigger_source "cron_next e (fixed_zone (3600 * h))" "fires_in e (3600 * h)"
  for e h
proof unfold_locales
  fix a t u err
  note spec = cron_next_spec [OF dvd_triv_left [of 3600 h], where e = e and after = a]
  show "cron_next e (fixed_zone (3600 * h)) a \<noteq> None"
    using spec by (cases "cron_next e (fixed_zone (3600 * h)) a") auto
  show "err = ScanLimit" if "cron_next e (fixed_zone (3600 * h)) a = Some (Inl err)"
    using spec that by simp
  assume "cron_next e (fixed_zone (3600 * h)) a = Some (Inr t)"
  with spec show "a < t" "fires_in e (3600 * h) t"
    "a < u \<Longrightarrow> u < t \<Longrightarrow> \<not> fires_in e (3600 * h) u"
    by (auto simp: fires_in_def)
qed

lemma sorted_wrt_last_le: "sorted_wrt (<) xs \<Longrightarrow> x \<in> set xs \<Longrightarrow> x \<le> last (xs :: int list)"
  using last_in_set by (induction xs) (fastforce split: if_splits)+


section \<open>Where the search goes wrong\<close>

text \<open>
  C35: Termination for every fixed offset: \<open>Next\<close> returns in every location without changes of
  offset, whole hours or not.
\<close>
theorem cron_next_returns_fixed:
  "\<exists>r. cron_next e (fixed_zone off) after = Some r"
proof -
  have loop: "\<exists>r. next_loop e (fixed_zone off) limit (at_local off l) = Some r" for limit l
  proof (induction "nat (limit - at_local off l)" arbitrary: l rule: less_induct)
    case less
    show ?case
    proof (cases "at_local off l < limit")
      case False
      then show ?thesis by (simp add: next_loop_limit)
    next
      case True
      show ?thesis
      proof (cases "next_body e (fixed_zone off) (at_local off l)")
        case (Found t)
        then show ?thesis using next_loop_found [OF True] by blast
      next
        case (Jump t)
        then obtain m where "t = at_local off m" "l < m" using next_body_later_fixed by blast
        with next_loop_jump [OF True Jump] less [of m] True at_local_less [of off l m] show ?thesis
          by simp
      qed
    qed
  qed
  have "next_start after = at_local off (unix_sec (next_start after) + off)"
    using next_start_props(1) by (simp add: whole_second_at [symmetric])
  then show ?thesis using loop unfolding cron_next_def by metis
qed

text \<open>
  An offset of a half hour. \<open>Truncate(time.Hour)\<close> rounds to hours of UTC, which are half past
  on the wall clock, so the search for a minute before 30 jumps from half past to half past.
\<close>

definition only_at :: "field \<Rightarrow> int \<Rightarrow> bool" where
  "only_at f v \<longleftrightarrow> list_all (\<lambda>k. in_field f k \<longleftrightarrow> k = v) [0..59]"

lemma only_atD: "only_at f v \<Longrightarrow> 0 \<le> k \<Longrightarrow> k < 60 \<Longrightarrow> in_field f k \<longleftrightarrow> k = v"
  by (auto simp: only_at_def list_all_iff)

lemma only_at_no_later: "only_at f v \<Longrightarrow> v < k \<Longrightarrow> 0 \<le> k \<Longrightarrow> \<not> 0 \<le> next_in_set f k"
  by (auto simp: next_in_set_neg only_atD)

lemma half_hour_jump:
  assumes sec: "only_at (e_sec e) 0" and min: "only_at (e_min e) 15"
    and l: "15 < loc_minute l" "loc_minute l < 59 \<or> l mod 60 = 0"
  shows "\<exists>m. next_body e (fixed_zone 19800) (at_local 19800 l) = Jump (at_local 19800 m) \<and>
      15 < loc_minute m \<and> (loc_minute m < 59 \<or> m mod 60 = 0)"
proof (cases "l mod 60 = 0")
  case False
  let ?m = "l - l mod 60 + 60"
  have "0 \<le> l mod 60" "l mod 60 < 60" by simp_all
  then have ns: "\<not> in_field (e_sec e) (l mod 60)" "\<not> 0 \<le> next_in_set (e_sec e) (l mod 60)"
    using only_atD [OF sec] only_at_no_later [OF sec] False by simp_all
  have "(l - 19800) mod 60 = l mod 60" by (simp add: mod_eq_dvd_iff)
  then have jump: "next_body e (fixed_zone 19800) (at_local 19800 l) = Jump (at_local 19800 ?m)"
    using ns truncate_at_local [of 60 19800 l] at_local_add [of 19800 "l - l mod 60" 60]
    by (simp add: next_body_def Let_def minute_def)
  have m: "?m mod 3600 = 60 * (loc_minute l + 1)"
    using mod_shift(1) [of "60 - l mod 60" l 3600] loc_bounds(5) [of l] l False by (simp add: algebra_simps)
  then have "loc_minute ?m = loc_minute l + 1" by (simp add: loc_minute_def)
  moreover have "?m mod 60 = 0" by (simp add: mod_eq_0_iff_dvd)
  ultimately show ?thesis using jump l by auto
next
  case True
  let ?m = "l - (l - 19800) mod 3600 + 3600"
  have ns: "in_field (e_sec e) (l mod 60)" "\<not> in_field (e_min e) (loc_minute l)"
    "\<not> 0 \<le> next_in_set (e_min e) (loc_minute l)"
    using only_atD [OF sec] only_atD [OF min] only_at_no_later [OF min] True l loc_bounds(1,2) [of l]
    by simp_all
  have jump: "next_body e (fixed_zone 19800) (at_local 19800 l) = Jump (at_local 19800 ?m)"
    using ns truncate_at_local [of 3600 19800 l] at_local_add [of 19800 "l - (l - 19800) mod 3600" 3600]
    by (simp add: next_body_def Let_def hour_def minute_def)
  have m: "?m = 3600 * ((l - 19800) div 3600 + 6) + 1800"
    using minus_mod_eq_mult_div [of "l - 19800" 3600] by simp
  have "?m mod 3600 = 1800" unfolding m by simp
  moreover from this have "?m mod 60 = 0" using loc_bounds(5) [of ?m] mod_mod_cancel [of 60 3600 ?m] by simp
  ultimately show ?thesis using jump by (auto simp: loc_minute_def intro!: exI [of _ ?m])
qed

lemma half_hour_loop:
  assumes "only_at (e_sec e) 0" "only_at (e_min e) 15"
    "15 < loc_minute l" "loc_minute l < 59 \<or> l mod 60 = 0"
  shows "next_loop e (fixed_zone 19800) limit (at_local 19800 l) = Some (Inl ScanLimit)"
  using assms(3,4)
proof (induction "nat (limit - at_local 19800 l)" arbitrary: l rule: less_induct)
  case less
  show ?case
  proof (cases "at_local 19800 l < limit")
    case False
    then show ?thesis by (simp add: next_loop_limit)
  next
    case True
    obtain m where m: "next_body e (fixed_zone 19800) (at_local 19800 l) = Jump (at_local 19800 m)"
      "15 < loc_minute m" "loc_minute m < 59 \<or> m mod 60 = 0"
      using half_hour_jump [OF assms(1,2) less(2,3)] by (elim exE conjE)
    obtain k where "at_local 19800 m = at_local 19800 k" "l < k"
      using next_body_later_fixed [OF m(1)] by (elim exE conjE)
    then have "at_local 19800 l < at_local 19800 m" by (simp only: at_local_less)
    with True have "nat (limit - at_local 19800 m) < nat (limit - at_local 19800 l)" by linarith
    then have "next_loop e (fixed_zone 19800) limit (at_local 19800 m) = Some (Inl ScanLimit)"
      using m(2,3) by (rule less(1))
    then show ?thesis using next_loop_jump [OF True m(1)] by (simp only:)
  qed
qed

text \<open>
  At the offset +05:30 the expression for minute 15 of every hour is not found once the
  minute has passed: \<open>Next\<close> scans to its limit and reports that there is no trigger, although
  one lies within the hour.
\<close>
theorem half_hour_offset_misses:
  assumes "parse ''15 * * * *'' = Ok e"
    "15 < time_minute (fixed_zone 19800) (next_start after)"
    "time_minute (fixed_zone 19800) (next_start after) < 59"
  shows "cron_next e (fixed_zone 19800) after = Some (Inl ScanLimit)"
proof -
  have "(case parse ''15 * * * *'' of Ok e \<Rightarrow> only_at (e_sec e) 0 \<and> only_at (e_min e) 15 | _ \<Rightarrow> False)"
    by code_simp
  then have e: "only_at (e_sec e) 0" "only_at (e_min e) 15" using assms(1) by simp_all
  obtain l where l: "next_start after = at_local 19800 l"
    using next_start_props(1) whole_second_at by blast
  show ?thesis
    using half_hour_loop [OF e, of l] assms(2,3) unfolding cron_next_def l by simp
qed

theorem half_hour_offset_misses_witness:
  "\<exists>e. parse ''15 * * * *'' = Ok e \<and>
     cron_next e (fixed_zone 19800) (at_local 19800 (738885 * 86400 + 38700)) = Some (Inl ScanLimit) \<and>
     cron_matches e (fixed_zone 19800) (at_local 19800 (738885 * 86400 + 40500))"
proof -
  obtain e where e: "parse ''15 * * * *'' = Ok e"
    and m: "cron_matches e (fixed_zone 19800) (at_local 19800 (738885 * 86400 + 40500))"
  proof -
    have "(case parse ''15 * * * *'' of
        Ok e \<Rightarrow> cron_matches e (fixed_zone 19800) (at_local 19800 (738885 * 86400 + 40500)) | _ \<Rightarrow> False)"
      by code_simp
    then show ?thesis using that by (cases "parse ''15 * * * *''") simp_all
  qed
  have "time_minute (fixed_zone 19800) (next_start (at_local 19800 (738885 * 86400 + 38700))) = 45"
    by code_simp
  with half_hour_offset_misses [OF e] e m show ?thesis by simp
qed

text \<open>A pass that stays where it is never ends.\<close>

lemma next_loop_stuck:
  assumes "next_body e z t = Jump t" "t < limit"
  shows "next_loop e z limit t = None"
proof (rule ccontr)
  assume "next_loop e z limit t \<noteq> None"
  then obtain r where r: "next_loop e z limit t = Some r" by blast
  have "\<not> (e' = e \<and> z' = z \<and> limit' = limit \<and> t' = t)" if "next_loop e' z' limit' t' = Some r'" for e' z' limit' t' r'
  proof (rule next_loop.raw_induct [where
        P = "\<lambda>e' z' limit' t' r'. \<not> (e' = e \<and> z' = z \<and> limit' = limit \<and> t' = t)", OF _ that])
    fix f :: "expr \<Rightarrow> zone \<Rightarrow> time \<Rightarrow> time \<Rightarrow> (cron_error + time) option"
    fix e' z' limit' t' r'
    assume IH: "\<And>e' z' limit' t' r'. f e' z' limit' t' = Some r' \<Longrightarrow>
        \<not> (e' = e \<and> z' = z \<and> limit' = limit \<and> t' = t)"
      and eq: "(if t' < limit' then
          (case next_body e' z' t' of Jump u \<Rightarrow> f e' z' limit' u | Found u \<Rightarrow> Some (Inr u))
        else Some (Inl ScanLimit)) = Some r'"
    show "\<not> (e' = e \<and> z' = z \<and> limit' = limit \<and> t' = t)"
    proof
      assume "e' = e \<and> z' = z \<and> limit' = limit \<and> t' = t"
      with eq assms have "f e z limit t = Some r'" by simp
      with IH show False by blast
    qed
  qed
  with r show False by blast
qed

text \<open>
  Cuba in 2024: clocks went from 00:00 to 01:00 on 10 March, at 05:00 UTC, from UTC-5 to UTC-4.
\<close>

definition havana :: zone where
  "havana = \<lparr>z_first = - 18000, z_changes = [(738954 * 86400 + 18000, - 14400)]\<rparr>"


text \<open>
  a star with a step counts as unrestricted, so when the other day field is a star too the
  step is ignored: the expression for every second day of the month, which keeps only the odd
  days, fires on 2 January.
\<close>
theorem star_step_day_ignored:
  "\<exists>e. parse ''0 0 */2 * *'' = Ok e \<and> \<not> in_field (e_dom e) 2 \<and>
     cron_next e utc (738885 * 86400 * second) = Some (Inr (738886 * 86400 * second)) \<and>
     time_day utc (738886 * 86400 * second) = 2"
proof -
  have "(case parse ''0 0 */2 * *'' of
      Ok e \<Rightarrow> \<not> in_field (e_dom e) 2 \<and>
        cron_next e utc (738885 * 86400 * second) = Some (Inr (738886 * 86400 * second)) \<and>
        time_day utc (738886 * 86400 * second) = 2
    | _ \<Rightarrow> False)" by code_simp
  then show ?thesis by (cases "parse ''0 0 */2 * *''") simp_all
qed

end
