(* ===== verification/Jobx_Errors.thy ===== *)
theory Jobx_Errors
  imports Cron_Expr
begin

text \<open>
  \<open>internal/core/errors.go\<close>: the error codes, the classification registered for each, and the
  error values the package returns. An error value keeps its code, or the error it wraps; the
  message texts are not modelled. \<open>errx\<close> is not part of the repository: of it the model uses
  only that \<open>NewCode\<close> and \<open>WrapCode\<close> give an error with the code they are given.
\<close>

section \<open>Codes\<close>

datatype err_code =
    CodeInvalidConfig | CodeHandlerNotFound | CodeHandlerConflict | CodeJobInvalid
  | CodeJobNotFound | CodeQueueFull | CodeShuttingDown | CodeTimeout | CodeRetryExhausted
  | CodeExecutionFailed | CodeSkipped | CodeReplaced | CodeCronInvalid | CodeSchedulerStopped
  | CodeStoreInvalid | CodeIDGenerateFailed | CodeJobCancelled

datatype err_kind =
    KindInvalid | KindNotFound | KindAlreadyExists | KindRateLimited | KindUnavailable
  | KindTimeout | KindInternal | KindConflict | KindCancelled

fun code_string :: "err_code \<Rightarrow> string" where
  "code_string CodeInvalidConfig = ''jobx_invalid_config''"
| "code_string CodeHandlerNotFound = ''jobx_handler_not_found''"
| "code_string CodeHandlerConflict = ''jobx_handler_conflict''"
| "code_string CodeJobInvalid = ''jobx_job_invalid''"
| "code_string CodeJobNotFound = ''jobx_job_not_found''"
| "code_string CodeQueueFull = ''jobx_queue_full''"
| "code_string CodeShuttingDown = ''jobx_shutting_down''"
| "code_string CodeTimeout = ''jobx_timeout''"
| "code_string CodeRetryExhausted = ''jobx_retry_exhausted''"
| "code_string CodeExecutionFailed = ''jobx_execution_failed''"
| "code_string CodeSkipped = ''jobx_skipped''"
| "code_string CodeReplaced = ''jobx_replaced''"
| "code_string CodeCronInvalid = ''jobx_cron_invalid''"
| "code_string CodeSchedulerStopped = ''jobx_scheduler_stopped''"
| "code_string CodeStoreInvalid = ''jobx_store_invalid''"
| "code_string CodeIDGenerateFailed = ''jobx_id_generate_failed''"
| "code_string CodeJobCancelled = ''jobx_job_cancelled''"

text \<open>The table \<open>registerCodes\<close> registers.\<close>

fun code_kind :: "err_code \<Rightarrow> err_kind" where
  "code_kind CodeInvalidConfig = KindInvalid"
| "code_kind CodeHandlerNotFound = KindNotFound"
| "code_kind CodeHandlerConflict = KindAlreadyExists"
| "code_kind CodeJobInvalid = KindInvalid"
| "code_kind CodeJobNotFound = KindNotFound"
| "code_kind CodeQueueFull = KindRateLimited"
| "code_kind CodeShuttingDown = KindUnavailable"
| "code_kind CodeTimeout = KindTimeout"
| "code_kind CodeRetryExhausted = KindInternal"
| "code_kind CodeExecutionFailed = KindInternal"
| "code_kind CodeSkipped = KindAlreadyExists"
| "code_kind CodeReplaced = KindConflict"
| "code_kind CodeCronInvalid = KindInvalid"
| "code_kind CodeSchedulerStopped = KindUnavailable"
| "code_kind CodeStoreInvalid = KindUnavailable"
| "code_kind CodeIDGenerateFailed = KindUnavailable"
| "code_kind CodeJobCancelled = KindCancelled"

text \<open>The code the package \<open>cron\<close> declares for itself.\<close>

definition cron_code :: string where
  "cron_code = ''jobx_cron_invalid''"

lemma cron_code_agrees: "cron_code = code_string CodeCronInvalid"
  by (simp add: cron_code_def)

section \<open>Error values\<close>

datatype ctx_error = Canceled | DeadlineExceeded

text \<open>
  \<open>Coded\<close> is \<open>errx.NewCode\<close>, \<open>Wrapped\<close> is \<open>errx.WrapCode\<close>, \<open>CronFailed\<close> an error of the
  package \<open>cron\<close>, \<open>CtxFailed\<close> the error of a context, \<open>Foreign\<close> an error value of code outside
  the repository (a handler, a store, the random source).
\<close>

datatype go_err =
    Coded err_code
  | Wrapped err_code go_err
  | CronFailed cron_error
  | CtxFailed ctx_error
  | Foreign nat
  | HandlerPanic nat

fun err_code_of :: "go_err \<Rightarrow> err_code option" where
  "err_code_of (Coded c) = Some c"
| "err_code_of (Wrapped c e) = Some c"
| "err_code_of (CronFailed e) = Some CodeCronInvalid"
| "err_code_of (CtxFailed e) = None"
| "err_code_of (Foreign n) = None"
| "err_code_of (HandlerPanic n) = None"

abbreviation "ErrInvalidConfig \<equiv> Coded CodeInvalidConfig"
abbreviation "ErrHandlerNotFound \<equiv> Coded CodeHandlerNotFound"
abbreviation "ErrHandlerConflict \<equiv> Coded CodeHandlerConflict"
abbreviation "ErrJobInvalid \<equiv> Coded CodeJobInvalid"
abbreviation "ErrJobNotFound \<equiv> Coded CodeJobNotFound"
abbreviation "ErrQueueFull \<equiv> Coded CodeQueueFull"
abbreviation "ErrShuttingDown \<equiv> Coded CodeShuttingDown"
abbreviation "ErrSkipped \<equiv> Coded CodeSkipped"
abbreviation "ErrSchedulerStopped \<equiv> Coded CodeSchedulerStopped"

end
