(* ===== verification/Job.thy ===== *)
theory Job
  imports Jobx_Errors Go_Time
begin

text \<open>
  \<open>internal/core/job.go\<close>: the job, the specification of a submission and its options; and
  the name rule and the identifier of \<open>dispatcher.go\<close>. A payload is its list of bytes. An
  option is a function on the specification that may fail, as in the code; \<open>apply_opts\<close> is the
  loop that applies a list of them.
\<close>

record job =
  job_id :: string
  job_name :: string
  job_payload :: string
  job_created_at :: time
  job_run_at :: time
  job_max_retries :: int
  job_retry_delay :: duration
  job_timeout :: duration
  job_attempt :: int

record job_spec =
  spec_run_at :: time
  spec_max_retries :: int
  spec_retry_delay :: duration
  spec_timeout :: duration

type_synonym submit_option = "job_spec \<Rightarrow> go_err + job_spec"

definition empty_spec :: job_spec where
  "empty_spec = \<lparr>spec_run_at = zero_time, spec_max_retries = 0, spec_retry_delay = 0, spec_timeout = 0\<rparr>"

definition with_timeout :: "duration \<Rightarrow> submit_option" where
  "with_timeout timeout s =
     (if timeout < 0 then Inl ErrJobInvalid else Inr (s\<lparr>spec_timeout := timeout\<rparr>))"

definition with_run_at :: "time \<Rightarrow> submit_option" where
  "with_run_at at s =
     (if at = zero_time then Inl ErrJobInvalid else Inr (s\<lparr>spec_run_at := at\<rparr>))"

definition with_retry :: "int \<Rightarrow> duration \<Rightarrow> submit_option" where
  "with_retry max_retries delay s =
     (if max_retries < 0 \<or> 100 < max_retries then Inl ErrJobInvalid
      else if delay < 0 then Inl ErrJobInvalid
      else Inr (s\<lparr>spec_max_retries := max_retries, spec_retry_delay := delay\<rparr>))"

fun apply_opts :: "('a \<Rightarrow> go_err + 'a) list \<Rightarrow> 'a \<Rightarrow> go_err + 'a" where
  "apply_opts [] s = Inr s"
| "apply_opts (f # fs) s = (case f s of Inl e \<Rightarrow> Inl e | Inr s' \<Rightarrow> apply_opts fs s')"

definition max_name_length :: nat where
  "max_name_length = 128"

text \<open>The rule \<open>jobx_task_name\<close>; the length of a Go string counts bytes.\<close>

definition validate_name :: "string \<Rightarrow> go_err option" where
  "validate_name name =
     (if name = [] \<or> max_name_length < length name then Some ErrJobInvalid else None)"

text \<open>The options keep a specification within the bounds the documentation gives.\<close>

definition wf_spec :: "job_spec \<Rightarrow> bool" where
  "wf_spec s \<longleftrightarrow> 0 \<le> spec_max_retries s \<and> spec_max_retries s \<le> 100 \<and> 0 \<le> spec_retry_delay s \<and> 0 \<le> spec_timeout s"

lemma empty_spec_wf: "wf_spec empty_spec"
  by (simp add: wf_spec_def empty_spec_def)

lemma submit_options_wf:
  "with_timeout d s = Inr s' \<Longrightarrow> wf_spec s \<Longrightarrow> wf_spec s'"
  "with_run_at t s = Inr s' \<Longrightarrow> wf_spec s \<Longrightarrow> wf_spec s'"
  "with_retry n d s = Inr s' \<Longrightarrow> wf_spec s \<Longrightarrow> wf_spec s'"
  by (auto simp: with_timeout_def with_run_at_def with_retry_def wf_spec_def split: if_splits)

lemma apply_opts_wf:
  assumes "apply_opts opts s = Inr s'" "wf_spec s"
    and "\<And>f s s'. f \<in> set opts \<Longrightarrow> f s = Inr s' \<Longrightarrow> wf_spec s \<Longrightarrow> wf_spec s'"
  shows "wf_spec s'"
  using assms
proof (induction opts arbitrary: s)
  case Nil
  then show ?case by simp
next
  case (Cons f fs)
  then obtain s1 where "f s = Inr s1" "apply_opts fs s1 = Inr s'" by (auto split: sum.splits)
  with Cons show ?case by (metis list.set_intros)
qed

lemma apply_opts_append:
  "apply_opts (fs @ gs) s = (case apply_opts fs s of Inl e \<Rightarrow> Inl e | Inr s' \<Rightarrow> apply_opts gs s')"
  by (induction fs arbitrary: s) (auto split: sum.splits)

text \<open>A job for the concrete runs of the other theories.\<close>

definition sample_job :: "string \<Rightarrow> time \<Rightarrow> job" where
  "sample_job jid t = \<lparr>job_id = jid, job_name = ''n'', job_payload = [], job_created_at = 1, job_run_at = t,
     job_max_retries = 0, job_retry_delay = 0, job_timeout = 0, job_attempt = 0\<rparr>"

end
