(* ===== verification/Ready_Queue.thy ===== *)
theory Ready_Queue
  imports Job "HOL-Library.Sublist"
begin

text \<open>
  \<open>internal/core/ready_queue.go\<close>: the bounded queue between submitters and workers. The first part
  holds the critical sections and the operations run without interference; the second the
  goroutines that call them, one step per critical section, channel operation or return, with the
  invariants of every interleaving and three interleavings that end badly.
\<close>

section \<open>The queue and its critical sections\<close>

text \<open>
  \<open>rq_token\<close> tells whether the one-place channel \<open>notify\<close> holds a value. \<open>closedCh\<close> is closed in
  the critical section that sets \<open>closed\<close>, so one flag stands for both.
\<close>

record ready_queue =
  rq_items :: "job list"
  rq_cap :: nat
  rq_closed :: bool
  rq_token :: bool

definition new_ready_queue :: "nat \<Rightarrow> ready_queue" where
  "new_ready_queue c = \<lparr>rq_items = [], rq_cap = c, rq_closed = False, rq_token = False\<rparr>"

definition rq_signal :: "ready_queue \<Rightarrow> ready_queue" where
  "rq_signal q = q\<lparr>rq_token := True\<rparr>"

datatype push_turn = PushAppended | PushRefused go_err | PushMustWait

text \<open>One turn of the loop of \<open>push\<close>, up to the \<open>select\<close>; the signal that follows an append is separate.\<close>

definition push_attempt :: "ready_queue \<Rightarrow> job \<Rightarrow> bool \<Rightarrow> ready_queue \<times> push_turn" where
  "push_attempt q e dr =
     (if length (rq_items q) < rq_cap q then (q\<lparr>rq_items := rq_items q @ [e]\<rparr>, PushAppended)
      else if dr then (q, PushRefused ErrQueueFull)
      else if rq_closed q then (q, PushRefused ErrShuttingDown)
      else (q, PushMustWait))"

datatype pop_turn = PopTook job | PopClosed | PopMustWait

definition pop_attempt :: "ready_queue \<Rightarrow> ready_queue \<times> pop_turn" where
  "pop_attempt q =
     (case rq_items q of
        e # rest \<Rightarrow> (q\<lparr>rq_items := rest\<rparr>, PopTook e)
      | [] \<Rightarrow> if rq_closed q then (q, PopClosed) else (q, PopMustWait))"

fun remove_first :: "string \<Rightarrow> job list \<Rightarrow> job list option" where
  "remove_first jid [] = None"
| "remove_first jid (e # es) = (if job_id e = jid then Some es else map_option (Cons e) (remove_first jid es))"

definition rq_remove :: "ready_queue \<Rightarrow> string \<Rightarrow> ready_queue \<times> bool" where
  "rq_remove q jid =
     (case remove_first jid (rq_items q) of
        None \<Rightarrow> (q, False)
      | Some es \<Rightarrow> (q\<lparr>rq_items := es\<rparr>, True))"

definition rq_close :: "ready_queue \<Rightarrow> ready_queue" where
  "rq_close q = rq_signal (q\<lparr>rq_closed := True\<rparr>)"

section \<open>The operations run without interference\<close>

text \<open>
  When no other goroutine runs, a \<open>push\<close> that has to wait returns only if its context ends
  (\<open>ctx = Some e\<close>); a value left in \<open>notify\<close> sends it around the loop once more and is used up.
  Likewise a \<open>pop\<close> that has to wait.
\<close>

definition rq_push :: "ctx_error option \<Rightarrow> ready_queue \<Rightarrow> job \<Rightarrow> bool \<Rightarrow> ready_queue \<times> (go_err, unit) outcome" where
  "rq_push ctx q e dr =
     (case push_attempt q e dr of
        (q', PushAppended) \<Rightarrow> (rq_signal q', Ok ())
      | (q', PushRefused err) \<Rightarrow> (q', Err err)
      | (q', PushMustWait) \<Rightarrow>
          (case ctx of None \<Rightarrow> (q'\<lparr>rq_token := False\<rparr>, NoReturn) | Some c \<Rightarrow> (q', Err (CtxFailed c))))"

definition rq_pop :: "ready_queue \<Rightarrow> ready_queue \<times> (go_err, job option) outcome" where
  "rq_pop q =
     (case pop_attempt q of
        (q', PopTook e) \<Rightarrow> (rq_signal q', Ok (Some e))
      | (q', PopClosed) \<Rightarrow> (q', Ok None)
      | (q', PopMustWait) \<Rightarrow> (q'\<lparr>rq_token := False\<rparr>, NoReturn))"

lemma remove_first_None: "remove_first jid es = None \<longleftrightarrow> jid \<notin> job_id ` set es"
  by (induction es) auto

lemma remove_first_Some:
  "remove_first jid es = Some es' \<Longrightarrow>
   \<exists>xs e ys. es = xs @ e # ys \<and> es' = xs @ ys \<and> job_id e = jid \<and> jid \<notin> job_id ` set xs"
proof (induction es arbitrary: es')
  case Nil
  then show ?case by simp
next
  case (Cons e es)
  show ?case
  proof (cases "job_id e = jid")
    case True
    with Cons(2) show ?thesis by (intro exI [of _ "[]"]) auto
  next
    case False
    with Cons(2) obtain es1 where es1: "remove_first jid es = Some es1" "es' = e # es1" by auto
    from Cons(1) [OF es1(1)] obtain xs f ys where
      "es = xs @ f # ys \<and> es1 = xs @ ys \<and> job_id f = jid \<and> jid \<notin> job_id ` set xs" by blast
    then show ?thesis using es1(2) False by (intro exI [of _ "e # xs"] exI [of _ f] exI [of _ ys]) auto
  qed
qed

section \<open>Goroutines\<close>

text \<open>
  The control points of the callers. \<open>Pushing e d ctx\<close> is about to take the lock, \<open>PushSelect\<close>
  waits in the \<open>select\<close>, \<open>PushSignal\<close> has appended and not signalled yet. \<open>ctx = Some c\<close> is a
  context that may end with \<open>c\<close>; \<open>None\<close> is one that never ends. A worker runs the job it took
  (\<open>Working\<close>) and comes back. \<open>Removing\<close> is a \<open>remove\<close>, \<open>Closing\<close> a \<open>close\<close>.
\<close>

datatype proc =
    Pushing job bool "ctx_error option"
  | PushSelect job "ctx_error option"
  | PushSignal job
  | PushReturned job "go_err option"
  | Popping
  | PopSelect
  | PopSignal job
  | Working job
  | WorkerExited
  | Removing string
  | Closing
  | CloseSignal
  | Finished

datatype event = Pushed job | Popped job | Removed job | Silent

text \<open>The moves of a goroutine: the queue after it, the next control point, and what happened.\<close>

fun proc_moves :: "ready_queue \<Rightarrow> proc \<Rightarrow> (ready_queue \<times> proc \<times> event) list" where
  "proc_moves q (Pushing e dr ctx) =
     (case push_attempt q e dr of
        (q', PushAppended) \<Rightarrow> [(q', PushSignal e, Pushed e)]
      | (q', PushRefused err) \<Rightarrow> [(q', PushReturned e (Some err), Silent)]
      | (q', PushMustWait) \<Rightarrow> [(q', PushSelect e ctx, Silent)])"
| "proc_moves q (PushSelect e ctx) =
     (if rq_token q then [(q\<lparr>rq_token := False\<rparr>, Pushing e False ctx, Silent)] else []) @
     (if rq_closed q then [(q, Pushing e False ctx, Silent)] else []) @
     (case ctx of None \<Rightarrow> [] | Some c \<Rightarrow> [(q, PushReturned e (Some (CtxFailed c)), Silent)])"
| "proc_moves q (PushSignal e) = [(rq_signal q, PushReturned e None, Silent)]"
| "proc_moves q (PushReturned e r) = []"
| "proc_moves q Popping =
     (case pop_attempt q of
        (q', PopTook e) \<Rightarrow> [(q', PopSignal e, Popped e)]
      | (q', PopClosed) \<Rightarrow> [(q', WorkerExited, Silent)]
      | (q', PopMustWait) \<Rightarrow> [(q', PopSelect, Silent)])"
| "proc_moves q PopSelect =
     (if rq_token q then [(q\<lparr>rq_token := False\<rparr>, Popping, Silent)] else []) @
     (if rq_closed q then [(q, Popping, Silent)] else [])"
| "proc_moves q (PopSignal e) = [(rq_signal q, Working e, Silent)]"
| "proc_moves q (Working e) = [(q, Popping, Silent)]"
| "proc_moves q WorkerExited = []"
| "proc_moves q (Removing jid) =
     (case remove_first jid (rq_items q) of
        None \<Rightarrow> [(q, Finished, Silent)]
      | Some es \<Rightarrow> [(q\<lparr>rq_items := es\<rparr>, Finished, Removed (hd (filter (\<lambda>e. job_id e = jid) (rq_items q))))])"
| "proc_moves q Closing = [(q\<lparr>rq_closed := True\<rparr>, CloseSignal, Silent)]"
| "proc_moves q CloseSignal = [(rq_signal q, Finished, Silent)]"
| "proc_moves q Finished = []"

record system =
  sys_queue :: ready_queue
  sys_procs :: "proc list"
  sys_trace :: "event list"

inductive sys_step :: "system \<Rightarrow> system \<Rightarrow> bool" where
  "i < length (sys_procs s) \<Longrightarrow> (q', p', ev) \<in> set (proc_moves (sys_queue s) (sys_procs s ! i)) \<Longrightarrow>
   sys_step s \<lparr>sys_queue = q', sys_procs = (sys_procs s)[i := p'], sys_trace = sys_trace s @ [ev]\<rparr>"

inductive_cases sys_stepE: "sys_step s s'"

text \<open>Executions start with any number of calls, none of which has begun.\<close>

fun entry_point :: "proc \<Rightarrow> bool" where
  "entry_point (Pushing e dr ctx) = True"
| "entry_point Popping = True"
| "entry_point (Removing jid) = True"
| "entry_point Closing = True"
| "entry_point _ = False"

definition start_system :: "nat \<Rightarrow> proc list \<Rightarrow> system" where
  "start_system c ps = \<lparr>sys_queue = new_ready_queue c, sys_procs = ps, sys_trace = []\<rparr>"

inductive sys_reach :: "nat \<Rightarrow> proc list \<Rightarrow> system \<Rightarrow> bool" for c ps where
  start: "list_all entry_point ps \<Longrightarrow> sys_reach c ps (start_system c ps)"
| step: "sys_reach c ps s \<Longrightarrow> sys_step s s' \<Longrightarrow> sys_reach c ps s'"

text \<open>No goroutine can move.\<close>

definition stuck :: "system \<Rightarrow> bool" where
  "stuck s \<longleftrightarrow> list_all (\<lambda>p. proc_moves (sys_queue s) p = []) (sys_procs s)"

lemma stuck_iff: "stuck s \<longleftrightarrow> \<not> (\<exists>s'. sys_step s s')"
proof
  assume st: "stuck s"
  show "\<not> (\<exists>s'. sys_step s s')"
  proof
    assume "\<exists>s'. sys_step s s'"
    then obtain i q' p' ev where
      "i < length (sys_procs s)" "(q', p', ev) \<in> set (proc_moves (sys_queue s) (sys_procs s ! i))"
      by (auto elim: sys_stepE)
    with st show False by (auto simp: stuck_def list_all_length)
  qed
next
  assume no: "\<not> (\<exists>s'. sys_step s s')"
  have "proc_moves (sys_queue s) (sys_procs s ! i) = []" if i: "i < length (sys_procs s)" for i
  proof (rule ccontr)
    assume "\<not> ?thesis"
    then obtain q' p' ev where "(q', p', ev) \<in> set (proc_moves (sys_queue s) (sys_procs s ! i))"
      by (metis ex_in_conv prod_cases3 set_empty)
    with no i show False by (blast intro: sys_step.intros)
  qed
  then show "stuck s" by (simp add: stuck_def list_all_length)
qed

text \<open>An execution given by the goroutine and the number of its move, at each step.\<close>

fun exec :: "(nat \<times> nat) list \<Rightarrow> system \<Rightarrow> system option" where
  "exec [] s = Some s"
| "exec ((i, k) # sched) s =
     (if i < length (sys_procs s) \<and> k < length (proc_moves (sys_queue s) (sys_procs s ! i)) then
        (case proc_moves (sys_queue s) (sys_procs s ! i) ! k of
           (q', p', ev) \<Rightarrow>
             exec sched \<lparr>sys_queue = q', sys_procs = (sys_procs s)[i := p'], sys_trace = sys_trace s @ [ev]\<rparr>)
      else None)"

lemma exec_reach: "exec sched s = Some s' \<Longrightarrow> sys_reach c ps s \<Longrightarrow> sys_reach c ps s'"
proof (induction sched s rule: exec.induct)
  case (1 s)
  then show ?case by simp
next
  case (2 i k sched s)
  let ?m = "proc_moves (sys_queue s) (sys_procs s ! i)"
  have ok: "i < length (sys_procs s)" "k < length ?m" using 2(2) by (auto split: if_splits)
  obtain q' p' ev where m: "?m ! k = (q', p', ev)" by (cases "?m ! k")
  with ok(2) have "(q', p', ev) \<in> set ?m" by (metis nth_mem)
  then have st: "sys_step s \<lparr>sys_queue = q', sys_procs = (sys_procs s)[i := p'], sys_trace = sys_trace s @ [ev]\<rparr>"
    using ok(1) by (rule sys_step.intros [rotated])
  from 2(2) ok m have rest:
    "exec sched \<lparr>sys_queue = q', sys_procs = (sys_procs s)[i := p'], sys_trace = sys_trace s @ [ev]\<rparr> = Some s'" by simp
  show ?case using 2(1) [OF conjI [OF ok] m [symmetric] refl rest sys_reach.step [OF 2(3) st]] .
qed

section \<open>Bound, order and conservation\<close>

fun pushed_of :: "event list \<Rightarrow> job list" where
  "pushed_of [] = []"
| "pushed_of (Pushed j # es) = j # pushed_of es"
| "pushed_of (_ # es) = pushed_of es"

fun popped_of :: "event list \<Rightarrow> job list" where
  "popped_of [] = []"
| "popped_of (Popped j # es) = j # popped_of es"
| "popped_of (_ # es) = popped_of es"

fun removed_of :: "event list \<Rightarrow> job list" where
  "removed_of [] = []"
| "removed_of (Removed j # es) = j # removed_of es"
| "removed_of (_ # es) = removed_of es"

lemma history_append [simp]:
  "pushed_of (xs @ ys) = pushed_of xs @ pushed_of ys"
  "popped_of (xs @ ys) = popped_of xs @ popped_of ys"
  "removed_of (xs @ ys) = removed_of xs @ removed_of ys"
  by (induction xs rule: pushed_of.induct; simp)+

definition queue_ok :: "nat \<Rightarrow> ready_queue \<Rightarrow> event list \<Rightarrow> bool" where
  "queue_ok c q tr \<longleftrightarrow>
     rq_cap q = c \<and> length (rq_items q) \<le> c \<and>
     subseq (popped_of tr @ rq_items q) (pushed_of tr) \<and>
     mset (pushed_of tr) = mset (popped_of tr) + mset (removed_of tr) + mset (rq_items q)"

lemma remove_first_facts:
  assumes "remove_first jid es = Some es'"
  shows "\<exists>e. hd (filter (\<lambda>e. job_id e = jid) es) = e \<and> job_id e = jid \<and> subseq es' es \<and>
    mset es = add_mset e (mset es') \<and> length es = Suc (length es')"
proof -
  obtain xs e ys where d: "es = xs @ e # ys" "es' = xs @ ys" "job_id e = jid" "jid \<notin> job_id ` set xs"
    using remove_first_Some [OF assms] by blast
  then have "filter (\<lambda>e. job_id e = jid) xs = []" by (simp add: filter_empty_conv) (metis image_eqI)
  with d show ?thesis by (auto intro: list_emb_append_mono)
qed

lemma move_queue_ok:
  assumes "queue_ok c q tr" "(q', p', ev) \<in> set (proc_moves q p)"
  shows "queue_ok c q' (tr @ [ev])"
proof (cases p)
  case (Pushing e dr ctx)
  have app: "subseq (ps @ xs @ [e]) (all @ [e])" if "subseq (ps @ xs) all" for ps xs all
    using subseq_append' [of "ps @ xs" all "[e]"] that by (metis append.assoc list_emb_append_mono subseq_order.refl)
  show ?thesis using assms Pushing app
    by (auto simp: queue_ok_def push_attempt_def split: if_splits)
next
  case (PushSelect e ctx)
  then show ?thesis using assms by (auto simp: queue_ok_def split: if_splits option.splits)
next
  case Popping
  then show ?thesis using assms
    by (auto simp: queue_ok_def pop_attempt_def split: if_splits list.splits)
next
  case PopSelect
  then show ?thesis using assms by (auto simp: queue_ok_def split: if_splits)
next
  case (Removing jid)
  show ?thesis
  proof (cases "remove_first jid (rq_items q)")
    case None
    then show ?thesis using assms Removing by (auto simp: queue_ok_def)
  next
    case (Some es)
    from remove_first_facts [OF this] obtain e where
      e: "hd (filter (\<lambda>e. job_id e = jid) (rq_items q)) = e" "subseq es (rq_items q)"
        "mset (rq_items q) = add_mset e (mset es)" "length (rq_items q) = Suc (length es)" by blast
    have "subseq (popped_of tr @ es) (pushed_of tr)"
      using assms(1) e(2) unfolding queue_ok_def
      by (meson list_emb_append_mono subseq_order.order_refl subseq_order.trans)
    then show ?thesis using assms Removing Some e by (auto simp: queue_ok_def)
  qed
qed (use assms in \<open>auto simp: queue_ok_def rq_signal_def\<close>)

lemma reach_queue_ok: "sys_reach c ps s \<Longrightarrow> queue_ok c (sys_queue s) (sys_trace s)"
proof (induction rule: sys_reach.induct)
  case start
  then show ?case by (simp add: queue_ok_def start_system_def new_ready_queue_def)
next
  case (step s s')
  then show ?case by (auto elim!: sys_stepE intro: move_queue_ok)
qed

section \<open>Wake-ups when no push blocks\<close>

text \<open>Goroutines that will signal or look at the items before they wait.\<close>

fun will_wake :: "proc \<Rightarrow> bool" where
  "will_wake Popping = True"
| "will_wake (PushSignal e) = True"
| "will_wake (PopSignal e) = True"
| "will_wake CloseSignal = True"
| "will_wake _ = False"

fun no_block :: "proc \<Rightarrow> bool" where
  "no_block (Pushing e dr ctx) = dr"
| "no_block (PushSelect e ctx) = False"
| "no_block _ = True"

definition wake_ok :: "system \<Rightarrow> bool" where
  "wake_ok s \<longleftrightarrow> rq_items (sys_queue s) = [] \<or> rq_token (sys_queue s) \<or> list_ex will_wake (sys_procs s)"

lemma list_ex_update:
  "i < length ps \<Longrightarrow> list_ex P (ps[i := p]) \<longleftrightarrow> P p \<or> (\<exists>k<length ps. k \<noteq> i \<and> P (ps ! k))"
  by (auto simp: list_ex_length nth_list_update)

lemma move_no_block: "no_block p \<Longrightarrow> (q', p', ev) \<in> set (proc_moves q p) \<Longrightarrow> no_block p'"
  by (cases p) (auto simp: push_attempt_def pop_attempt_def split: if_splits list.splits option.splits)

text \<open>A move of a goroutine that does not block gives up neither the last value nor the last waker.\<close>

lemma move_wake:
  assumes "no_block p" "(q', p', ev) \<in> set (proc_moves q p)"
  shows "rq_items q' = [] \<or> rq_token q' \<or> will_wake p' \<or>
    (\<not> will_wake p \<and> \<not> rq_token q \<and> rq_items q \<noteq> [])"
  using assms
  by (cases p) (auto simp: push_attempt_def pop_attempt_def rq_signal_def split: if_splits list.splits option.splits)

lemma step_wake:
  assumes "sys_step s s'" "list_all no_block (sys_procs s)" "wake_ok s"
  shows "list_all no_block (sys_procs s') \<and> wake_ok s'"
proof -
  obtain i q' p' ev where i: "i < length (sys_procs s)"
    and m: "(q', p', ev) \<in> set (proc_moves (sys_queue s) (sys_procs s ! i))"
    and s': "s' = \<lparr>sys_queue = q', sys_procs = (sys_procs s)[i := p'], sys_trace = sys_trace s @ [ev]\<rparr>"
    using assms(1) by (auto elim: sys_stepE)
  have nb: "no_block (sys_procs s ! i)" using assms(2) i by (simp add: list_all_length)
  have "list_all no_block (sys_procs s')"
    using assms(2) move_no_block [OF nb m] i by (simp add: s' list_all_length nth_list_update)
  moreover have "wake_ok s'"
    using move_wake [OF nb m] assms(3) i unfolding wake_ok_def s'
    by (simp add: list_ex_update) (auto simp: list_ex_length)
  ultimately show ?thesis ..
qed

lemma reach_wake:
  "sys_reach c ps s \<Longrightarrow> list_all no_block ps \<Longrightarrow> list_all no_block (sys_procs s) \<and> wake_ok s"
proof (induction rule: sys_reach.induct)
  case start
  then show ?case by (simp add: start_system_def wake_ok_def new_ready_queue_def)
next
  case (step s s')
  then show ?case using step_wake by blast
qed

section \<open>Closing\<close>

text \<open>A bound on the moves left once the queue is closed: no control point waits any more.\<close>

fun weight :: "proc \<Rightarrow> nat" where
  "weight (Pushing e dr ctx) = 5"
| "weight (PushSelect e ctx) = 6"
| "weight (PushSignal e) = 1"
| "weight (PushReturned e r) = 0"
| "weight Popping = 1"
| "weight PopSelect = 2"
| "weight (PopSignal e) = 3"
| "weight (Working e) = 2"
| "weight WorkerExited = 0"
| "weight (Removing jid) = 1"
| "weight Closing = 2"
| "weight CloseSignal = 1"
| "weight Finished = 0"

definition work_left :: "system \<Rightarrow> nat" where
  "work_left s = 3 * length (rq_items (sys_queue s)) + sum_list (map weight (sys_procs s))"

lemma move_work:
  assumes "rq_closed q" "(q', p', ev) \<in> set (proc_moves q p)"
  shows "rq_closed q' \<and> 3 * length (rq_items q') + weight p' < 3 * length (rq_items q) + weight p"
proof (cases p)
  case (Removing jid)
  then show ?thesis using assms remove_first_facts [of jid "rq_items q"] by (auto split: option.splits)
qed (use assms in \<open>auto simp: push_attempt_def pop_attempt_def rq_signal_def split: if_splits list.splits option.splits\<close>)

lemma sum_list_update_nat:
  "i < length ps \<Longrightarrow> sum_list (map weight (ps[i := p])) + weight (ps ! i) = sum_list (map weight ps) + weight p"
proof (induction ps arbitrary: i)
  case (Cons a ps)
  then show ?case by (cases i) auto
qed simp

lemma step_work:
  assumes "sys_step s s'" "rq_closed (sys_queue s)"
  shows "rq_closed (sys_queue s') \<and> work_left s' < work_left s"
proof -
  obtain i q' p' ev where i: "i < length (sys_procs s)"
    and m: "(q', p', ev) \<in> set (proc_moves (sys_queue s) (sys_procs s ! i))"
    and s': "s' = \<lparr>sys_queue = q', sys_procs = (sys_procs s)[i := p'], sys_trace = sys_trace s @ [ev]\<rparr>"
    using assms(1) by (auto elim: sys_stepE)
  show ?thesis
    using move_work [OF assms(2) m] sum_list_update_nat [OF i, of p'] by (simp add: work_left_def s')
qed

lemma closed_execution_bound:
  assumes "(sys_step ^^ n) s s'" "rq_closed (sys_queue s)"
  shows "rq_closed (sys_queue s') \<and> n + work_left s' \<le> work_left s"
  using assms
proof (induction n arbitrary: s')
  case 0
  then show ?case by simp
next
  case (Suc n)
  then obtain s1 where "(sys_step ^^ n) s s1" "sys_step s1 s'" by auto
  with Suc step_work [of s1 s'] show ?case by fastforce
qed

fun returned :: "proc \<Rightarrow> bool" where
  "returned (PushReturned e r) = True"
| "returned WorkerExited = True"
| "returned Finished = True"
| "returned _ = False"

lemma closed_stuck_returned:
  assumes "rq_closed q" "proc_moves q p = []"
  shows "returned p"
  using assms
  by (cases p) (auto simp: push_attempt_def pop_attempt_def split: if_splits list.splits option.splits)

section \<open>Properties\<close>

text \<open>
  C9: In every interleaving of pushes, pops, removals and a close, the queue never exceeds its
  capacity, the entries handed to workers come out in the order they were pushed, and every pushed
  entry is handed out once, removed once, or still queued.
\<close>
theorem ready_queue_conserves:
  assumes "sys_reach c ps s"
  shows "length (rq_items (sys_queue s)) \<le> c \<and>
    subseq (popped_of (sys_trace s) @ rq_items (sys_queue s)) (pushed_of (sys_trace s)) \<and>
    mset (pushed_of (sys_trace s)) =
      mset (popped_of (sys_trace s)) + mset (removed_of (sys_trace s)) + mset (rq_items (sys_queue s))"
  using reach_queue_ok [OF assms] by (simp add: queue_ok_def)

text \<open>
  C21: When no push may block (the policy \<open>QueueFullDrop\<close>), no wake-up is lost: while entries are
  queued, a value is in \<open>notify\<close> or some goroutine is about to send one or to look at the items;
  so if nothing can move the queue is empty.
\<close>
theorem drop_policy_no_lost_wakeup:
  assumes "sys_reach c ps s" "list_all no_block ps" "PopSelect \<in> set (sys_procs s)"
  shows "(rq_items (sys_queue s) \<noteq> [] \<longrightarrow>
      rq_token (sys_queue s) \<or> (\<exists>p\<in>set (sys_procs s). will_wake p)) \<and>
    (stuck s \<longrightarrow> rq_items (sys_queue s) = [])"
proof (intro conjI impI)
  assume "rq_items (sys_queue s) \<noteq> []"
  then show "rq_token (sys_queue s) \<or> (\<exists>p\<in>set (sys_procs s). will_wake p)"
    using reach_wake [OF assms(1,2)] by (auto simp: wake_ok_def list_ex_iff)
next
  assume st: "stuck s"
  have mv: "proc_moves (sys_queue s) p = []" if "p \<in> set (sys_procs s)" for p
    using st that by (auto simp: stuck_def list_all_iff)
  have "\<not> rq_token (sys_queue s)" using mv [OF assms(3)] by auto
  moreover have "\<not> will_wake p" if "p \<in> set (sys_procs s)" for p
    using mv [OF that] by (cases p) (auto simp: pop_attempt_def split: list.splits if_splits)
  ultimately show "rq_items (sys_queue s) = []"
    using reach_wake [OF assms(1,2)] by (auto simp: wake_ok_def list_ex_iff)
qed


text \<open>
  C36: With blocking pushes a wake-up can be lost for good. One worker, capacity 1, two submissions:
  the worker finds the queue empty and leaves the lock; the first submission appends; the second
  finds the queue full and waits; the first one's signal reaches the second, which finds the queue
  still full and waits again; the worker waits. The queue is open, holds a job, the worker is idle,
  and nothing can move.
\<close>
theorem blocking_push_deadlock:
  "\<exists>s. sys_reach 1 [Popping, Pushing j1 False None, Pushing j2 False None] s \<and> stuck s \<and>
     \<not> rq_closed (sys_queue s) \<and> rq_items (sys_queue s) = [j1] \<and>
     sys_procs s = [PopSelect, PushReturned j1 None, PushSelect j2 None]"
proof -
  let ?ps = "[Popping, Pushing j1 False None, Pushing j2 False None]"
  have "sys_reach 1 ?ps (start_system 1 ?ps)" by (rule sys_reach.start) simp
  moreover have "\<exists>s. exec [(0, 0), (1, 0), (2, 0), (1, 0), (2, 0), (2, 0)] (start_system 1 ?ps) = Some s \<and>
     stuck s \<and> \<not> rq_closed (sys_queue s) \<and> rq_items (sys_queue s) = [j1] \<and>
     sys_procs s = [PopSelect, PushReturned j1 None, PushSelect j2 None]"
    by (simp add: start_system_def new_ready_queue_def push_attempt_def pop_attempt_def rq_signal_def
        stuck_def numeral_2_eq_2)
  ultimately show ?thesis using exec_reach by blast
qed

text \<open>
  A removal frees a place without a signal. Capacity 1, one busy worker, one queued job and one
  blocked submission: when the queued job is cancelled and the worker then finds the queue empty,
  the submission waits for ever although the queue is empty and the worker idle.
\<close>
theorem removal_loses_wakeup:
  "\<exists>s. sys_reach 1 [Popping, Pushing j0 False None, Pushing j1 False None, Pushing j2 False None,
       Removing (job_id j1)] s \<and> stuck s \<and>
     \<not> rq_closed (sys_queue s) \<and> rq_items (sys_queue s) = [] \<and>
     sys_procs s = [PopSelect, PushReturned j0 None, PushReturned j1 None, PushSelect j2 None, Finished]"
proof -
  let ?ps = "[Popping, Pushing j0 False None, Pushing j1 False None, Pushing j2 False None, Removing (job_id j1)]"
  have "sys_reach 1 ?ps (start_system 1 ?ps)" by (rule sys_reach.start) simp
  moreover have "\<exists>s. exec [(1, 0), (1, 0), (0, 0), (0, 0), (2, 0), (2, 0), (3, 0), (3, 0), (3, 0), (4, 0),
      (0, 0), (0, 0)] (start_system 1 ?ps) = Some s \<and>
     stuck s \<and> \<not> rq_closed (sys_queue s) \<and> rq_items (sys_queue s) = [] \<and>
     sys_procs s = [PopSelect, PushReturned j0 None, PushReturned j1 None, PushSelect j2 None, Finished]"
    by (simp add: start_system_def new_ready_queue_def push_attempt_def pop_attempt_def rq_signal_def
        stuck_def numeral_2_eq_2 numeral_3_eq_3 eval_nat_numeral)
  ultimately show ?thesis using exec_reach by blast
qed

text \<open>
  A push on a closed queue that has room succeeds. If the workers have left by then, the caller
  is told that the job was queued, and no one will ever run it or drop it.
\<close>
theorem push_after_close_strands_job:
  "\<exists>s. sys_reach 1 [Popping, Closing, Pushing j False None] s \<and> stuck s \<and>
     rq_closed (sys_queue s) \<and> rq_items (sys_queue s) = [j] \<and>
     sys_procs s = [WorkerExited, Finished, PushReturned j None]"
proof -
  let ?ps = "[Popping, Closing, Pushing j False None]"
  have "sys_reach 1 ?ps (start_system 1 ?ps)" by (rule sys_reach.start) simp
  moreover have "\<exists>s. exec [(1, 0), (1, 0), (0, 0), (2, 0), (2, 0)] (start_system 1 ?ps) = Some s \<and>
     stuck s \<and> rq_closed (sys_queue s) \<and> rq_items (sys_queue s) = [j] \<and>
     sys_procs s = [WorkerExited, Finished, PushReturned j None]"
    by (simp add: start_system_def new_ready_queue_def push_attempt_def pop_attempt_def rq_signal_def
        stuck_def numeral_2_eq_2)
  ultimately show ?thesis using exec_reach by blast
qed

text \<open>Witnesses: two submissions under the drop policy, the second refused, with an idle worker.\<close>

definition sample_procs :: "proc list" where
  "sample_procs = [Popping, Pushing (sample_job ''a'' 1) True None, Popping]"

definition sample_system :: system where
  "sample_system = \<lparr>sys_queue = \<lparr>rq_items = [sample_job ''a'' 1], rq_cap = 1, rq_closed = False, rq_token = False\<rparr>,
     sys_procs = [PopSelect, PushSignal (sample_job ''a'' 1), Popping],
     sys_trace = [Silent, Pushed (sample_job ''a'' 1)]\<rparr>"

lemma sample_reach: "sys_reach 1 sample_procs sample_system"
proof -
  have "sys_reach 1 sample_procs (start_system 1 sample_procs)"
    by (rule sys_reach.start) (simp add: sample_procs_def)
  moreover have "exec [(0, 0), (1, 0)] (start_system 1 sample_procs) = Some sample_system"
    by (simp add: sample_system_def sample_procs_def start_system_def new_ready_queue_def push_attempt_def
        pop_attempt_def)
  ultimately show ?thesis using exec_reach by blast
qed

theorem ready_queue_conserves_witness:
  "mset (pushed_of (sys_trace sample_system)) = mset (popped_of (sys_trace sample_system)) +
     mset (removed_of (sys_trace sample_system)) + mset (rq_items (sys_queue sample_system))"
  using ready_queue_conserves [OF sample_reach] by simp

theorem drop_policy_no_lost_wakeup_witness:
  "\<exists>p\<in>set (sys_procs sample_system). will_wake p"
proof -
  have "list_all no_block sample_procs" "PopSelect \<in> set (sys_procs sample_system)"
    "rq_items (sys_queue sample_system) \<noteq> []" "\<not> rq_token (sys_queue sample_system)"
    by (simp_all add: sample_procs_def sample_system_def)
  with drop_policy_no_lost_wakeup [OF sample_reach] show ?thesis by blast
qed


end
