(* ===== verification/Config.thy ===== *)
theory Config
  imports Job "HOL-Library.Word" "HOL-Library.AList"
begin

text \<open>
  \<open>internal/core/options.go\<close> and the interfaces a dispatcher is configured with: the store of
  \<open>store.go\<close>, the hooks of \<open>trace.go\<close> and \<open>event.go\<close>. An option is a function on the configuration
  that may fail, as in the code. The contract of a store is a locale; the in-memory store of
  \<open>examples/advanced/main.go\<close> interprets it.
\<close>

section \<open>The store interface\<close>

text \<open>
  A store is code of the user: three operations on its own state \<open>'s\<close>, each of which may fail.
\<close>

record 's store_ops =
  st_save :: "'s \<Rightarrow> job \<Rightarrow> 's \<times> go_err option"
  st_delete :: "'s \<Rightarrow> string \<Rightarrow> 's \<times> go_err option"
  st_list :: "'s \<Rightarrow> 's \<times> (go_err + job list)"

text \<open>What \<open>store.go\<close> documents of the three operations, over the jobs a state holds.\<close>

locale job_store =
  fixes ops :: "'s store_ops"
    and view :: "'s \<Rightarrow> string \<Rightarrow> job option"
    and good :: "'s \<Rightarrow> bool"
  assumes save_law: "good s \<Longrightarrow> good (fst (st_save ops s j)) \<and>
      view (fst (st_save ops s j)) =
        (if snd (st_save ops s j) = None then (view s)(job_id j \<mapsto> j) else view s)"
    and delete_law: "good s \<Longrightarrow> good (fst (st_delete ops s jid)) \<and>
      view (fst (st_delete ops s jid)) =
        (if snd (st_delete ops s jid) = None then (view s)(jid := None) else view s)"
    and list_law: "good s \<Longrightarrow> good (fst (st_list ops s)) \<and> view (fst (st_list ops s)) = view s \<and>
      (\<forall>js. snd (st_list ops s) = Inr js \<longrightarrow> distinct (map job_id js) \<and> set js = ran (view s))"
begin

lemma saved_is_listed:
  assumes "good s" "snd (st_save ops s j) = None" "snd (st_list ops (fst (st_save ops s j))) = Inr js"
  shows "j \<in> set js"
proof -
  have "good (fst (st_save ops s j))" "view (fst (st_save ops s j)) (job_id j) = Some j"
    using save_law [OF assms(1), of j] assms(2) by simp_all
  then show ?thesis using list_law assms(3) by (metis ranI)
qed

lemma deleted_is_not_listed:
  assumes "good s" "snd (st_delete ops s jid) = None" "snd (st_list ops (fst (st_delete ops s jid))) = Inr js"
    and keys: "\<And>k j. view s k = Some j \<Longrightarrow> job_id j = k"
  shows "jid \<notin> job_id ` set js"
proof -
  have "good (fst (st_delete ops s jid))" "view (fst (st_delete ops s jid)) = (view s)(jid := None)"
    using delete_law [OF assms(1), of jid] assms(2) by simp_all
  then have "set js = ran ((view s)(jid := None))" using list_law assms(3) by metis
  then show ?thesis using keys by (auto simp: ran_def split: if_splits)
qed

end

section \<open>The in-memory store of the example\<close>

text \<open>The iteration order of a Go map is not specified; the order of the list stands for it.\<close>

type_synonym memory_store = "(string \<times> job) list"

definition new_memory_store :: memory_store where
  "new_memory_store = []"

definition memory_save :: "memory_store \<Rightarrow> job \<Rightarrow> memory_store \<times> go_err option" where
  "memory_save s j = (AList.update (job_id j) j s, None)"

definition memory_delete :: "memory_store \<Rightarrow> string \<Rightarrow> memory_store \<times> go_err option" where
  "memory_delete s jid = (AList.delete jid s, None)"

definition memory_list :: "memory_store \<Rightarrow> memory_store \<times> (go_err + job list)" where
  "memory_list s = (s, Inr (map snd s))"

definition memory_ops :: "memory_store store_ops" where
  "memory_ops = \<lparr>st_save = memory_save, st_delete = memory_delete, st_list = memory_list\<rparr>"

definition memory_good :: "memory_store \<Rightarrow> bool" where
  "memory_good s \<longleftrightarrow> distinct (map fst s) \<and> list_all (\<lambda>(k, j). job_id j = k) s"

lemma set_update_id: "list_all (\<lambda>(k, j). job_id j = k) s \<Longrightarrow>
    list_all (\<lambda>(k, j). job_id j = k) (AList.update (job_id i) i s)"
  by (induction s) auto

lemma set_delete_subset: "set (AList.delete jid s) \<subseteq> set s"
  by (induction s) auto

lemma ran_map_of_distinct: "distinct (map fst s) \<Longrightarrow> ran (map_of s) = snd ` set s"
  by (force simp: ran_def map_of_eq_Some_iff)

interpretation mem: job_store memory_ops map_of memory_good
proof
  fix s :: memory_store and j :: job and jid :: string
  assume g: "memory_good s"
  show "memory_good (fst (st_save memory_ops s j)) \<and>
      map_of (fst (st_save memory_ops s j)) =
        (if snd (st_save memory_ops s j) = None then (map_of s)(job_id j \<mapsto> j) else map_of s)"
    using g set_update_id by (auto simp: memory_good_def memory_ops_def memory_save_def update_conv' distinct_update)
  show "memory_good (fst (st_delete memory_ops s jid)) \<and>
      map_of (fst (st_delete memory_ops s jid)) =
        (if snd (st_delete memory_ops s jid) = None then (map_of s)(jid := None) else map_of s)"
    using g set_delete_subset [of jid s]
    by (auto simp: memory_good_def memory_ops_def memory_delete_def delete_conv' distinct_delete list_all_iff)
  have "distinct (map (job_id \<circ> snd) s)"
  proof -
    have "map (job_id \<circ> snd) s = map fst s" using g by (auto simp: memory_good_def list_all_iff)
    then show ?thesis using g unfolding memory_good_def by presburger
  qed
  then show "memory_good (fst (st_list memory_ops s)) \<and> map_of (fst (st_list memory_ops s)) = map_of s \<and>
      (\<forall>js. snd (st_list memory_ops s) = Inr js \<longrightarrow> distinct (map job_id js) \<and> set js = ran (map_of s))"
    using g ran_map_of_distinct [of s] by (simp add: memory_ops_def memory_list_def memory_good_def)
qed

section \<open>The configuration\<close>

text \<open>The policies are Go integers of 8 bits, so a caller can pass values that name no policy.\<close>

type_synonym queue_full_policy = "8 word"
type_synonym conflict_policy = "8 word"

definition QueueFullBlock :: queue_full_policy where "QueueFullBlock = 0"
definition QueueFullDrop :: queue_full_policy where "QueueFullDrop = 1"

definition ConflictSkip :: conflict_policy where "ConflictSkip = 0"
definition ConflictReplace :: conflict_policy where "ConflictReplace = 1"
definition ConflictAllow :: conflict_policy where "ConflictAllow = 2"

text \<open>Which of the callbacks of \<open>Metrics\<close> are set.\<close>

record metrics =
  on_queued :: bool
  on_running :: bool
  on_completed :: bool
  on_failed :: bool
  on_retried :: bool
  on_dropped :: bool
  on_skipped :: bool
  on_replaced :: bool

definition no_metrics :: metrics where
  "no_metrics = \<lparr>on_queued = False, on_running = False, on_completed = False, on_failed = False,
     on_retried = False, on_dropped = False, on_skipped = False, on_replaced = False\<rparr>"

text \<open>A \<open>logx.Logger\<close> may be nil, an interface that holds a nil pointer, or a logger.\<close>

datatype logger = NilLogger | NilPointer | NopLogger | UserLogger nat

text \<open>\<open>cfg_now k\<close> is what the \<open>k\<close>-th call of the time source returns.\<close>

type_synonym clock = "nat \<Rightarrow> time"

record 's config =
  cfg_workers :: int
  cfg_queue_size :: int
  cfg_queue_policy :: queue_full_policy
  cfg_conflict :: conflict_policy
  cfg_max_payload :: int
  cfg_logger :: logger
  cfg_now :: clock
  cfg_metrics :: metrics
  cfg_store :: "'s store_ops option"
  cfg_trace_hook :: bool
  cfg_event_hook :: bool

definition default_config :: "clock \<Rightarrow> 's config" where
  "default_config time_now =
     \<lparr>cfg_workers = 4, cfg_queue_size = 1024, cfg_queue_policy = QueueFullBlock, cfg_conflict = ConflictSkip,
      cfg_max_payload = 1048576, cfg_logger = NilLogger, cfg_now = time_now, cfg_metrics = no_metrics,
      cfg_store = None, cfg_trace_hook = False, cfg_event_hook = False\<rparr>"

fun normalize_logger :: "logger \<Rightarrow> logger" where
  "normalize_logger NilLogger = NopLogger"
| "normalize_logger NilPointer = NopLogger"
| "normalize_logger l = l"

type_synonym 's dispatcher_option = "'s config \<Rightarrow> go_err + 's config"

definition with_workers :: "int \<Rightarrow> 's dispatcher_option" where
  "with_workers n c = (if n \<le> 0 then Inl ErrInvalidConfig else Inr (c\<lparr>cfg_workers := n\<rparr>))"

definition with_queue_size :: "int \<Rightarrow> 's dispatcher_option" where
  "with_queue_size n c = (if n \<le> 0 then Inl ErrInvalidConfig else Inr (c\<lparr>cfg_queue_size := n\<rparr>))"

definition with_queue_full_policy :: "queue_full_policy \<Rightarrow> 's dispatcher_option" where
  "with_queue_full_policy p c =
     (if p \<noteq> QueueFullBlock \<and> p \<noteq> QueueFullDrop then Inl ErrInvalidConfig
      else Inr (c\<lparr>cfg_queue_policy := p\<rparr>))"

definition with_conflict_policy :: "conflict_policy \<Rightarrow> 's dispatcher_option" where
  "with_conflict_policy p c =
     (if p \<noteq> ConflictSkip \<and> p \<noteq> ConflictReplace \<and> p \<noteq> ConflictAllow then Inl ErrInvalidConfig
      else Inr (c\<lparr>cfg_conflict := p\<rparr>))"

definition with_max_payload_bytes :: "int \<Rightarrow> 's dispatcher_option" where
  "with_max_payload_bytes n c = (if n \<le> 0 then Inl ErrInvalidConfig else Inr (c\<lparr>cfg_max_payload := n\<rparr>))"

definition with_logger :: "logger \<Rightarrow> 's dispatcher_option" where
  "with_logger l c = Inr (c\<lparr>cfg_logger := l\<rparr>)"

definition with_metrics :: "metrics \<Rightarrow> 's dispatcher_option" where
  "with_metrics m c = Inr (c\<lparr>cfg_metrics := m\<rparr>)"

definition with_store :: "'s store_ops option \<Rightarrow> 's dispatcher_option" where
  "with_store st c = (if st = None then Inl ErrInvalidConfig else Inr (c\<lparr>cfg_store := st\<rparr>))"

definition with_clock :: "clock option \<Rightarrow> 's dispatcher_option" where
  "with_clock now c =
     (case now of None \<Rightarrow> Inl ErrInvalidConfig | Some f \<Rightarrow> Inr (c\<lparr>cfg_now := f\<rparr>))"

definition with_trace_hook :: "bool \<Rightarrow> 's dispatcher_option" where
  "with_trace_hook h c = Inr (c\<lparr>cfg_trace_hook := h\<rparr>)"

definition with_event_hook :: "bool \<Rightarrow> 's dispatcher_option" where
  "with_event_hook h c = Inr (c\<lparr>cfg_event_hook := h\<rparr>)"

text \<open>The options the package offers; \<open>Option\<close> is a function type, but its argument is not exported.\<close>

inductive_set known_options :: "'s dispatcher_option set" where
  "with_workers n \<in> known_options"
| "with_queue_size n \<in> known_options"
| "with_queue_full_policy p \<in> known_options"
| "with_conflict_policy p \<in> known_options"
| "with_max_payload_bytes n \<in> known_options"
| "with_logger l \<in> known_options"
| "with_metrics m \<in> known_options"
| "with_store st \<in> known_options"
| "with_clock now \<in> known_options"
| "with_trace_hook b \<in> known_options"
| "with_event_hook b \<in> known_options"

definition valid_config :: "'s config \<Rightarrow> bool" where
  "valid_config c \<longleftrightarrow>
     0 < cfg_workers c \<and> 0 < cfg_queue_size c \<and>
     (cfg_queue_policy c = QueueFullBlock \<or> cfg_queue_policy c = QueueFullDrop) \<and>
     (cfg_conflict c = ConflictSkip \<or> cfg_conflict c = ConflictReplace \<or> cfg_conflict c = ConflictAllow) \<and>
     0 < cfg_max_payload c"

lemma default_config_valid: "valid_config (default_config t)"
  by (simp add: valid_config_def default_config_def)

lemma valid_config_updates:
  "valid_config c \<Longrightarrow> valid_config (c\<lparr>cfg_logger := l\<rparr>)" "valid_config c \<Longrightarrow> valid_config (c\<lparr>cfg_metrics := m\<rparr>)"
  "valid_config c \<Longrightarrow> valid_config (c\<lparr>cfg_store := st\<rparr>)" "valid_config c \<Longrightarrow> valid_config (c\<lparr>cfg_now := f\<rparr>)"
  "valid_config c \<Longrightarrow> valid_config (c\<lparr>cfg_trace_hook := h\<rparr>)" "valid_config c \<Longrightarrow> valid_config (c\<lparr>cfg_event_hook := h\<rparr>)"
  "valid_config c \<Longrightarrow> 0 < n \<Longrightarrow> valid_config (c\<lparr>cfg_workers := n\<rparr>)"
  "valid_config c \<Longrightarrow> 0 < n \<Longrightarrow> valid_config (c\<lparr>cfg_queue_size := n\<rparr>)"
  "valid_config c \<Longrightarrow> 0 < n \<Longrightarrow> valid_config (c\<lparr>cfg_max_payload := n\<rparr>)"
  "valid_config c \<Longrightarrow> p = QueueFullBlock \<or> p = QueueFullDrop \<Longrightarrow> valid_config (c\<lparr>cfg_queue_policy := p\<rparr>)"
  "valid_config c \<Longrightarrow> q = ConflictSkip \<or> q = ConflictReplace \<or> q = ConflictAllow \<Longrightarrow>
    valid_config (c\<lparr>cfg_conflict := q\<rparr>)"
  by (simp_all add: valid_config_def)

lemmas option_defs = with_workers_def with_queue_size_def with_queue_full_policy_def with_conflict_policy_def
  with_max_payload_bytes_def with_logger_def with_metrics_def with_store_def with_clock_def
  with_trace_hook_def with_event_hook_def

lemma known_option_valid:
  assumes "f \<in> known_options" "f c = Inr c'" "valid_config c"
  shows "valid_config c'"
  using assms
  by (cases rule: known_options.cases)
    (auto simp only: option_defs sum.inject if_split sum.distinct option.case not_le split: if_splits option.splits
      intro: valid_config_updates)

lemma known_option_error: "f \<in> known_options \<Longrightarrow> f c = Inl e \<Longrightarrow> e = ErrInvalidConfig"
  by (cases rule: known_options.cases)
    (auto simp: with_workers_def with_queue_size_def with_queue_full_policy_def with_conflict_policy_def
      with_max_payload_bytes_def with_logger_def with_metrics_def with_store_def with_clock_def
      with_trace_hook_def with_event_hook_def split: if_splits option.splits)

lemma apply_invariant:
  assumes "\<And>f s s'. f \<in> set fs \<Longrightarrow> f s = Inr s' \<Longrightarrow> P s \<Longrightarrow> P s'" "P s" "apply_opts fs s = Inr s'"
  shows "P s'"
  using assms
proof (induction fs arbitrary: s)
  case (Cons f fs)
  then obtain s1 where "f s = Inr s1" "apply_opts fs s1 = Inr s'" by (auto split: sum.splits)
  with Cons show ?case by (metis list.set_intros)
qed simp

lemma apply_error:
  assumes "\<And>f s e. f \<in> set fs \<Longrightarrow> f s = Inl e \<Longrightarrow> Q e" "apply_opts fs s = Inl e"
  shows "Q e"
  using assms by (induction fs arbitrary: s) (auto split: sum.splits)

end
