(* ===== verification/Delay_Heap.thy ===== *)
theory Delay_Heap
  imports Job
begin

text \<open>
  \<open>delayHeap\<close> of \<open>internal/core/dispatcher.go\<close>: the binary heap of delayed entries ordered by
  \<open>RunAt\<close>, with the sifting of the standard library's \<open>container/heap\<close> on the methods the code
  gives it. The priority-queue interface is a locale; the heap interprets it, and the loop that
  drains it (\<open>popDue\<close>, \<open>drainDelayed\<close>) is proved on the interface.
\<close>

section \<open>The methods and container/heap\<close>

definition delay_less :: "job list \<Rightarrow> nat \<Rightarrow> nat \<Rightarrow> bool" where
  "delay_less h i j \<longleftrightarrow> job_run_at (h ! i) < job_run_at (h ! j)"

definition delay_swap :: "job list \<Rightarrow> nat \<Rightarrow> nat \<Rightarrow> job list" where
  "delay_swap h i j = h[i := h ! j, j := h ! i]"

definition delay_append :: "job list \<Rightarrow> job \<Rightarrow> job list" where
  "delay_append h x = h @ [x]"

definition delay_take_last :: "job list \<Rightarrow> job list \<times> job" where
  "delay_take_last h = (butlast h, last h)"

definition parent :: "nat \<Rightarrow> nat" where
  "parent j = (j - 1) div 2"

function heap_up :: "job list \<Rightarrow> nat \<Rightarrow> job list" where
  "heap_up h j =
     (let i = parent j
      in if i = j \<or> \<not> delay_less h j i then h else heap_up (delay_swap h i j) i)"
  by pat_completeness auto
termination
  by (relation "measure snd") (auto simp: parent_def)

text \<open>\<open>heap_down\<close> returns the heap and where the element came to rest; the code's result is \<open>i > i0\<close>.\<close>

function heap_down :: "job list \<Rightarrow> nat \<Rightarrow> nat \<Rightarrow> job list \<times> nat" where
  "heap_down h i n =
     (let j1 = 2 * i + 1
      in if n \<le> j1 then (h, i)
         else
           (let j = (if j1 + 1 < n \<and> delay_less h (j1 + 1) j1 then j1 + 1 else j1)
            in if \<not> delay_less h j i then (h, i) else heap_down (delay_swap h i j) j n))"
  by pat_completeness auto
termination
  by (relation "measure (\<lambda>(h, i, n). n - i)") (auto simp: Let_def)

declare heap_up.simps [simp del] heap_down.simps [simp del]

definition heap_push :: "job list \<Rightarrow> job \<Rightarrow> job list" where
  "heap_push h x = (let h' = delay_append h x in heap_up h' (length h' - 1))"

definition heap_pop :: "job list \<Rightarrow> job list \<times> job" where
  "heap_pop h =
     (let n = length h - 1 in delay_take_last (fst (heap_down (delay_swap h 0 n) 0 n)))"

definition heap_remove :: "job list \<Rightarrow> nat \<Rightarrow> job list \<times> job" where
  "heap_remove h i =
     (let n = length h - 1
      in if n \<noteq> i then
           (let (h', rest) = heap_down (delay_swap h i n) i n
            in delay_take_last (if i < rest then h' else heap_up h' i))
         else delay_take_last h)"

section \<open>The heap property\<close>

definition key :: "job list \<Rightarrow> nat \<Rightarrow> time" where
  "key h i = job_run_at (h ! i)"

definition heap_on :: "nat \<Rightarrow> job list \<Rightarrow> bool" where
  "heap_on n h \<longleftrightarrow> (\<forall>k<n. 0 < k \<longrightarrow> key h (parent k) \<le> key h k)"

definition is_heap :: "job list \<Rightarrow> bool" where
  "is_heap h \<longleftrightarrow> heap_on (length h) h"

text \<open>The heap property but for the edges at \<open>i\<close>, whose children may be compared with its parent.\<close>

definition heap_except :: "nat \<Rightarrow> job list \<Rightarrow> nat \<Rightarrow> bool" where
  "heap_except n h i \<longleftrightarrow>
     (\<forall>k<n. 0 < k \<and> k \<noteq> i \<and> parent k \<noteq> i \<longrightarrow> key h (parent k) \<le> key h k) \<and>
     (\<forall>k<n. 0 < k \<and> parent k = i \<and> 0 < i \<longrightarrow> key h (parent i) \<le> key h k)"

definition above_ok :: "job list \<Rightarrow> nat \<Rightarrow> bool" where
  "above_ok h i \<longleftrightarrow> (0 < i \<longrightarrow> key h (parent i) \<le> key h i)"

definition below_ok :: "nat \<Rightarrow> job list \<Rightarrow> nat \<Rightarrow> bool" where
  "below_ok n h i \<longleftrightarrow> (\<forall>k<n. 0 < k \<and> parent k = i \<longrightarrow> key h i \<le> key h k)"

lemma heap_on_iff: "heap_on n h \<Longrightarrow> i < n \<Longrightarrow> above_ok h i \<and> below_ok n h i"
  by (auto simp: heap_on_def above_ok_def below_ok_def)

lemma heap_on_intro:
  assumes "heap_except n h i" "above_ok h i" "below_ok n h i"
  shows "heap_on n h"
  unfolding heap_on_def
proof (intro allI impI)
  fix k
  assume "k < n" "0 < k"
  then show "key h (parent k) \<le> key h k"
    using assms unfolding heap_except_def above_ok_def below_ok_def
    by (cases "parent k = i"; cases "k = i") auto
qed

lemma parent_less: "0 < k \<Longrightarrow> parent k < k"
  by (simp add: parent_def)

lemma parent_eq_iff: "0 < k \<Longrightarrow> parent k = i \<longleftrightarrow> k = 2 * i + 1 \<or> k = 2 * i + 2"
  by (auto simp: parent_def)

lemma length_swap [simp]: "length (delay_swap h i j) = length h"
  by (simp add: delay_swap_def)

lemma mset_delay_swap: "i < length h \<Longrightarrow> j < length h \<Longrightarrow> mset (delay_swap h i j) = mset h"
  unfolding delay_swap_def by (metis mset_swap)

lemma key_swap:
  "i < length h \<Longrightarrow> j < length h \<Longrightarrow>
   key (delay_swap h i j) k = (if k = j then key h i else if k = i then key h j else key h k)"
  by (auto simp: key_def delay_swap_def nth_list_update)

lemma heap_exceptD:
  assumes "heap_except n h i" "k < n" "0 < k"
  shows "k \<noteq> i \<Longrightarrow> parent k \<noteq> i \<Longrightarrow> key h (parent k) \<le> key h k"
    "parent k = i \<Longrightarrow> 0 < i \<Longrightarrow> key h (parent i) \<le> key h k"
  using assms by (auto simp: heap_except_def)

section \<open>Sifting\<close>

lemma heap_up_basic:
  "j < length h \<Longrightarrow> length (heap_up h j) = length h \<and> mset (heap_up h j) = mset h \<and>
     (\<forall>k>j. heap_up h j ! k = h ! k)"
proof (induction h j rule: heap_up.induct)
  case (1 h j)
  let ?i = "parent j"
  show ?case
  proof (cases "?i = j \<or> \<not> delay_less h j ?i")
    case True
    then show ?thesis by (subst (1 2 3) heap_up.simps) (simp add: Let_def)
  next
    case False
    then have i: "?i < j" using parent_less [of j] by (cases "j = 0") (auto simp: parent_def)
    have eq: "heap_up h j = heap_up (delay_swap h ?i j) ?i"
      using False by (subst heap_up.simps) (simp add: Let_def)
    have IH: "length (heap_up (delay_swap h ?i j) ?i) = length h \<and>
        mset (heap_up (delay_swap h ?i j) ?i) = mset (delay_swap h ?i j) \<and>
        (\<forall>k>?i. heap_up (delay_swap h ?i j) ?i ! k = delay_swap h ?i j ! k)"
      using 1(1) [OF refl False] 1(2) i by simp
    have "delay_swap h ?i j ! k = h ! k" if "j < k" for k using that i by (simp add: delay_swap_def)
    with IH i 1(2) show ?thesis unfolding eq by (auto simp: mset_delay_swap)
  qed
qed

lemma heap_up_heap:
  "heap_except n h j \<Longrightarrow> below_ok n h j \<Longrightarrow> j < n \<Longrightarrow> n \<le> length h \<Longrightarrow> heap_on n (heap_up h j)"
proof (induction h j rule: heap_up.induct)
  case (1 h j)
  let ?i = "parent j"
  show ?case
  proof (cases "?i = j \<or> \<not> delay_less h j ?i")
    case True
    then have "above_ok h j"
      using parent_less [of j] by (auto simp: above_ok_def delay_less_def key_def)
    with 1(2-) True show ?thesis by (subst heap_up.simps) (simp add: Let_def heap_on_intro)
  next
    case False
    let ?h = "delay_swap h ?i j"
    have j0: "0 < j" using False by (cases "j = 0") (auto simp: parent_def)
    then have i: "?i < j" by (rule parent_less)
    have less: "key h j < key h ?i" using False by (simp add: delay_less_def key_def)
    have len: "?i < length h" "j < length h" using i 1(4,5) by simp_all
    note keys = key_swap [OF len]
    have other: "key h (parent k) \<le> key h k" if "k < n" "0 < k" "k \<noteq> j" "parent k \<noteq> j" for k
      using heap_exceptD(1) [OF 1(2)] that by blast
    have sib: "key h ?i \<le> key h k" if "k < n" "0 < k" "parent k = ?i" "k \<noteq> j" for k
      using other [of k] that i by simp
    have up: "key h (parent ?i) \<le> key h ?i" if "0 < ?i"
      using other [of ?i] parent_less [OF that] i 1(4) that by simp
    have ex: "heap_except n ?h ?i"
      unfolding heap_except_def
    proof (intro conjI allI impI; elim conjE)
      fix k
      assume k: "k < n" "0 < k" "k \<noteq> ?i" "parent k \<noteq> ?i"
      then have "k \<noteq> j" by auto
      then show "key ?h (parent k) \<le> key ?h k"
        using k other [of k] heap_exceptD(2) [OF 1(2), of k] j0 by (cases "parent k = j") (auto simp: keys)
    next
      fix k
      assume k: "k < n" "0 < k" "parent k = ?i" "0 < ?i"
      have "parent ?i \<noteq> ?i" "parent ?i \<noteq> j" using parent_less [OF k(4)] i by auto
      then show "key ?h (parent ?i) \<le> key ?h k"
        using k parent_less [of k] up sib [of k] by (cases "k = j") (auto simp: keys)
    qed
    have below: "below_ok n ?h ?i"
      unfolding below_ok_def
    proof (intro allI impI; elim conjE)
      fix k
      assume k: "k < n" "0 < k" "parent k = ?i"
      then show "key ?h ?i \<le> key ?h k"
        using sib [of k] less parent_less [of k] i by (cases "k = j") (auto simp: keys)
    qed
    have "heap_on n (heap_up ?h ?i)"
      using 1(1) [OF refl False ex below] i 1(4,5) by simp
    then show ?thesis using False by (subst heap_up.simps) (simp add: Let_def)
  qed
qed

text \<open>The child that \<open>heap_down\<close> compares with.\<close>

definition min_child :: "job list \<Rightarrow> nat \<Rightarrow> nat \<Rightarrow> nat" where
  "min_child h i n = (if 2 * i + 1 + 1 < n \<and> delay_less h (2 * i + 1 + 1) (2 * i + 1) then 2 * i + 1 + 1 else 2 * i + 1)"

lemma heap_down_unfold:
  "heap_down h i n =
     (if n \<le> 2 * i + 1 \<or> \<not> delay_less h (min_child h i n) i then (h, i)
      else heap_down (delay_swap h i (min_child h i n)) (min_child h i n) n)"
  by (subst heap_down.simps) (simp only: Let_def min_child_def split: if_splits, simp)

lemma min_child:
  assumes "\<not> n \<le> 2 * i + 1"
  shows "i < min_child h i n" "min_child h i n < n" "parent (min_child h i n) = i"
    "\<And>k. k < n \<Longrightarrow> 0 < k \<Longrightarrow> parent k = i \<Longrightarrow> key h (min_child h i n) \<le> key h k"
  using assms by (auto simp: min_child_def parent_eq_iff delay_less_def key_def)

lemma heap_down_induct [case_names rest move]:
  assumes "\<And>h i. n \<le> 2 * i + 1 \<or> \<not> delay_less h (min_child h i n) i \<Longrightarrow> P h i"
    and "\<And>h i. \<not> (n \<le> 2 * i + 1 \<or> \<not> delay_less h (min_child h i n) i) \<Longrightarrow>
      P (delay_swap h i (min_child h i n)) (min_child h i n) \<Longrightarrow> P h i"
  shows "P h i"
proof (induction "n - i" arbitrary: h i rule: less_induct)
  case less
  show ?case
  proof (cases "n \<le> 2 * i + 1 \<or> \<not> delay_less h (min_child h i n) i")
    case True
    then show ?thesis by (rule assms(1))
  next
    case False
    then have "i < min_child h i n" "min_child h i n < n" using min_child(1,2) [of n i h] by auto
    then show ?thesis using assms(2) [OF False] less by simp
  qed
qed

lemma heap_down_basic:
  "n \<le> length h \<Longrightarrow> length (fst (heap_down h i n)) = length h \<and> mset (fst (heap_down h i n)) = mset h \<and>
     (\<forall>k\<ge>n. fst (heap_down h i n) ! k = h ! k) \<and> i \<le> snd (heap_down h i n)"
proof (induction h i rule: heap_down_induct [where n = n])
  case (rest h i)
  then show ?case by (subst (1 2 3 4) heap_down_unfold) simp
next
  case (move h i)
  let ?c = "min_child h i n"
  have c: "i < ?c" "?c < n" using move(1) min_child(1,2) [of n i h] by auto
  have eq: "heap_down h i n = heap_down (delay_swap h i ?c) ?c n"
    using move(1) by (subst heap_down_unfold) simp
  have "delay_swap h i ?c ! k = h ! k" if "n \<le> k" for k using that c by (simp add: delay_swap_def)
  with move(2,3) c show ?case unfolding eq by (auto simp: mset_delay_swap)
qed

lemma heap_down_heap:
  "heap_except n h i \<Longrightarrow> i < n \<Longrightarrow> n \<le> length h \<Longrightarrow>
   (if snd (heap_down h i n) = i then fst (heap_down h i n) = h \<and> below_ok n h i
    else heap_on n (fst (heap_down h i n))) \<and>
   (above_ok h i \<longrightarrow> heap_on n (fst (heap_down h i n)))"
proof (induction h i rule: heap_down_induct [where n = n])
  case (rest h i)
  have b: "below_ok n h i"
    unfolding below_ok_def
  proof (intro allI impI; elim conjE)
    fix k
    assume k: "k < n" "0 < k" "parent k = i"
    then have "\<not> n \<le> 2 * i + 1" by (auto simp: parent_eq_iff)
    with rest(1) min_child(4) [where n = n and i = i and k = k and h = h] k show "key h i \<le> key h k"
      by (auto simp: delay_less_def key_def)
  qed
  with rest show ?case using heap_on_intro by (subst (1 2 3 4) heap_down_unfold) auto
next
  case (move h i)
  let ?c = "min_child h i n" and ?h = "delay_swap h i (min_child h i n)"
  have not_end: "\<not> n \<le> 2 * i + 1" and less: "key h ?c < key h i"
    using move(1) by (auto simp: delay_less_def key_def)
  note c = min_child [OF not_end, where h = h]
  have len: "i < length h" "?c < length h" using c move(4,5) by simp_all
  note keys = key_swap [OF len]
  have eq: "heap_down h i n = heap_down ?h ?c n" using move(1) by (subst heap_down_unfold) simp
  have ex: "heap_except n ?h ?c"
    unfolding heap_except_def
  proof (intro conjI allI impI; elim conjE)
    fix k
    assume k: "k < n" "0 < k" "k \<noteq> ?c" "parent k \<noteq> ?c"
    show "key ?h (parent k) \<le> key ?h k"
    proof (cases "k = i")
      case True
      then have "parent k \<noteq> i" using parent_less [OF k(2)] by simp
      with True k c(1) heap_exceptD(2) [OF move(3) c(2) _ c(3)] show ?thesis by (simp add: keys)
    next
      case False
      with k c(4) [of k] heap_exceptD(1) [OF move(3) k(1,2)] show ?thesis
        by (cases "parent k = i") (auto simp: keys)
    qed
  next
    fix k
    assume k: "k < n" "0 < k" "parent k = ?c"
    then have "?c < k" using parent_less by metis
    then show "key ?h (parent ?c) \<le> key ?h k"
      using k c(1,3) heap_exceptD(1) [OF move(3) k(1,2)] by (simp add: keys)
  qed
  have above: "above_ok ?h ?c" using c(1,3) less by (simp add: above_ok_def keys)
  have "heap_on n (fst (heap_down ?h ?c n))"
    using move(2) [OF ex c(2)] move(5) above by simp
  moreover have "?c \<le> snd (heap_down ?h ?c n)" using heap_down_basic [of n ?h ?c] move(5) by simp
  ultimately show ?case unfolding eq using c(1) by auto
qed

section \<open>The operations\<close>

lemma heap_min: "heap_on n h \<Longrightarrow> k < n \<Longrightarrow> key h 0 \<le> key h k"
proof (induction k rule: less_induct)
  case (less k)
  show ?case
  proof (cases "k = 0")
    case False
    then have "parent k < k" by (simp add: parent_less)
    with less False show ?thesis by (fastforce simp: heap_on_def)
  qed simp
qed

lemma heap_on_cong: "heap_on n h \<Longrightarrow> (\<And>k. k < n \<Longrightarrow> h' ! k = h ! k) \<Longrightarrow> heap_on n h'"
  unfolding heap_on_def key_def using parent_less by (metis less_trans)

lemma heap_push_spec:
  assumes "is_heap h"
  shows "is_heap (heap_push h x) \<and> mset (heap_push h x) = add_mset x (mset h)"
proof -
  let ?h = "h @ [x]" and ?n = "length h"
  have old: "heap_on ?n ?h"
    using assms heap_on_cong [of ?n h ?h] by (simp add: is_heap_def nth_append)
  have no_child: "parent k \<noteq> ?n" if "k < Suc ?n" "0 < k" for k using parent_less [OF that(2)] that(1) by simp
  have "heap_except (Suc ?n) ?h ?n"
    using old no_child by (auto simp: heap_except_def heap_on_def less_Suc_eq)
  moreover have "below_ok (Suc ?n) ?h ?n" using no_child by (auto simp: below_ok_def)
  ultimately have "heap_on (Suc ?n) (heap_up ?h ?n)" by (intro heap_up_heap) simp_all
  then show ?thesis
    using heap_up_basic [of ?n ?h] by (simp add: heap_push_def delay_append_def is_heap_def)
qed

lemma is_heap_butlast: "heap_on (length h - 1) h \<Longrightarrow> is_heap (butlast h)"
  unfolding is_heap_def using heap_on_cong [of "length h - 1" h "butlast h"] by (simp add: nth_butlast)

lemma swap_last_keys:
  assumes "i < length h" "k < length h - 1" "k \<noteq> i"
  shows "key (delay_swap h i (length h - 1)) k = key h k"
  using assms key_swap [of i h "length h - 1" k] by simp

lemma swap_last_except:
  assumes h: "is_heap h" and i: "i < length h - 1"
  shows "heap_except (length h - 1) (delay_swap h i (length h - 1)) i"
  unfolding heap_except_def
proof (intro conjI allI impI; elim conjE)
  let ?s = "delay_swap h i (length h - 1)"
  have le: "key h (parent k) \<le> key h k" if "k < length h" "0 < k" for k
    using h that by (simp add: is_heap_def heap_on_def)
  have same: "key ?s k = key h k" if "k < length h - 1" "k \<noteq> i" for k
    using swap_last_keys [of i h k] i that by simp
  fix k
  assume k: "k < length h - 1" "0 < k"
  then have p: "parent k < k" by (simp add: parent_less)
  show "key ?s (parent k) \<le> key ?s k" if "k \<noteq> i" "parent k \<noteq> i"
    using that k p same [of k] same [of "parent k"] le [of k] by simp
  show "key ?s (parent i) \<le> key ?s k" if "parent k = i" "0 < i"
  proof -
    have "parent i < i" using that(2) by (rule parent_less)
    moreover have "key h (parent i) \<le> key h i" "key h i \<le> key h k"
      using that k p i le [of k] le [of i] by simp_all
    ultimately show ?thesis using that k p i same [of k] same [of "parent i"] by simp
  qed
qed

lemma last_after_swap: "i < length h \<Longrightarrow> delay_swap h i (length h - 1) ! (length h - 1) = h ! i"
  by (simp add: delay_swap_def)

lemma take_last_spec:
  assumes "length h' = length h" "mset h' = mset h" "h' ! (length h - 1) = x" "h \<noteq> []"
    "heap_on (length h - 1) h'"
  shows "is_heap (fst (delay_take_last h')) \<and> snd (delay_take_last h') = x \<and>
    mset h = add_mset x (mset (fst (delay_take_last h')))"
proof -
  have ne: "h' \<noteq> []" using assms(1,4) by auto
  then have "last h' = x" using assms(1,3) by (simp add: last_conv_nth)
  moreover from this ne have "mset h' = add_mset x (mset (butlast h'))"
    by (metis append_butlast_last_id mset_append mset_single_iff_right union_mset_add_mset_right add_mset_add_single mset.simps)
  ultimately show ?thesis using is_heap_butlast [of h'] assms by (simp add: delay_take_last_def)
qed

lemma heap_remove_spec:
  assumes h: "is_heap h" and i: "i < length h"
  shows "is_heap (fst (heap_remove h i)) \<and> snd (heap_remove h i) = h ! i \<and>
    mset h = add_mset (h ! i) (mset (fst (heap_remove h i)))"
proof -
  let ?n = "length h - 1"
  have ne: "h \<noteq> []" using i by auto
  show ?thesis
  proof (cases "i = ?n")
    case True
    have "heap_on ?n h" using h by (auto simp: is_heap_def heap_on_def)
    with True take_last_spec [of h h "h ! i"] ne show ?thesis by (simp add: heap_remove_def)
  next
    case False
    then have lt: "i < ?n" using i by simp
    let ?s = "delay_swap h i ?n"
    obtain h1 r where d: "heap_down ?s i ?n = (h1, r)" by fastforce
    have basic: "length h1 = length h" "mset h1 = mset h" "h1 ! ?n = h ! i" "i \<le> r"
      using heap_down_basic [of ?n ?s i] d i last_after_swap [OF i] by (simp_all add: mset_delay_swap)
    have down: "if r = i then h1 = ?s \<and> below_ok ?n ?s i else heap_on ?n h1"
    proof -
      have "?n \<le> length ?s" by simp
      from heap_down_heap [OF swap_last_except [OF h lt] lt this, unfolded d fst_conv snd_conv]
      show ?thesis by (rule conjunct1)
    qed
    define h2 where "h2 = (if i < r then h1 else heap_up h1 i)"
    have up: "length (heap_up h1 i) = length h1 \<and> mset (heap_up h1 i) = mset h1 \<and> heap_up h1 i ! ?n = h1 ! ?n"
      using heap_up_basic [of i h1] basic(1) i lt by simp
    have "heap_on ?n h2"
    proof (cases "r = i")
      case True
      then show ?thesis
        using down swap_last_except [OF h lt] heap_up_heap [of ?n ?s i] lt by (simp add: h2_def)
    next
      case False
      then show ?thesis using down basic(4) by (simp add: h2_def)
    qed
    moreover have "length h2 = length h" "mset h2 = mset h" "h2 ! ?n = h ! i"
      using up basic by (auto simp: h2_def)
    moreover have "heap_remove h i = delay_take_last h2" using False d by (simp add: heap_remove_def h2_def)
    ultimately show ?thesis using take_last_spec [of h2 h "h ! i"] ne by simp
  qed
qed

lemma heap_pop_spec:
  assumes h: "is_heap h" and ne: "h \<noteq> []"
  shows "is_heap (fst (heap_pop h)) \<and> snd (heap_pop h) = h ! 0 \<and>
    mset h = add_mset (h ! 0) (mset (fst (heap_pop h)))"
proof -
  let ?n = "length h - 1"
  let ?s = "delay_swap h 0 ?n"
  have len: "0 < length h" using ne by simp
  obtain h1 r where d: "heap_down ?s 0 ?n = (h1, r)" by fastforce
  have basic: "length h1 = length h" "mset h1 = mset h" "h1 ! ?n = h ! 0"
    using heap_down_basic [of ?n ?s 0] d len last_after_swap [OF len] by (simp_all add: mset_delay_swap)
  have "heap_on ?n h1"
  proof (cases "0 < ?n")
    case True
    then show ?thesis
      using heap_down_heap [OF swap_last_except [OF h True] True] d by (simp add: above_ok_def)
  next
    case False
    then show ?thesis by (simp add: heap_on_def)
  qed
  with basic take_last_spec [of h1 h "h ! 0"] ne show ?thesis unfolding heap_pop_def Let_def d by simp
qed

text \<open>The search of \<open>cancelByIDLocked\<close>: the first entry with the identifier is removed from the heap.\<close>

fun index_of :: "string \<Rightarrow> job list \<Rightarrow> nat option" where
  "index_of jid [] = None"
| "index_of jid (j # js) = (if job_id j = jid then Some 0 else map_option Suc (index_of jid js))"

definition heap_remove_id :: "job list \<Rightarrow> string \<Rightarrow> job list" where
  "heap_remove_id h jid =
     (case index_of jid h of None \<Rightarrow> h | Some i \<Rightarrow> fst (heap_remove h i))"

lemma index_of_Some: "index_of jid js = Some i \<Longrightarrow> i < length js \<and> job_id (js ! i) = jid"
  by (induction js arbitrary: i) (auto split: if_splits)

lemma index_of_None: "index_of jid js = None \<longleftrightarrow> jid \<notin> job_id ` set js"
  by (induction js) auto

lemma heap_remove_id_spec:
  assumes "is_heap h"
  shows "is_heap (heap_remove_id h jid) \<and>
    (if jid \<in> job_id ` set h
     then \<exists>j. job_id j = jid \<and> mset h = add_mset j (mset (heap_remove_id h jid))
     else heap_remove_id h jid = h)"
proof (cases "index_of jid h")
  case None
  then show ?thesis using assms index_of_None [of jid h] by (simp add: heap_remove_id_def)
next
  case (Some i)
  then have "i < length h" "job_id (h ! i) = jid" by (simp_all add: index_of_Some)
  moreover from this have "jid \<in> job_id ` set h" by auto
  ultimately show ?thesis using heap_remove_spec [OF assms, of i] Some by (auto simp: heap_remove_id_def)
qed

section \<open>The interface of the delay queue\<close>

text \<open>
  What the delay loop relies on: \<open>put\<close> adds an entry, \<open>first\<close> is an entry with the least
  \<open>RunAt\<close>, \<open>take\<close> removes and returns it, \<open>drop_id\<close> removes one entry with the identifier.
\<close>

locale delay_queue =
  fixes inv :: "'h \<Rightarrow> bool"
    and entries :: "'h \<Rightarrow> job multiset"
    and first :: "'h \<Rightarrow> job"
    and put :: "'h \<Rightarrow> job \<Rightarrow> 'h"
    and take_first :: "'h \<Rightarrow> 'h \<times> job"
    and drop_id :: "'h \<Rightarrow> string \<Rightarrow> 'h"
  assumes put_law: "inv h \<Longrightarrow> inv (put h j) \<and> entries (put h j) = add_mset j (entries h)"
    and first_law: "inv h \<Longrightarrow> entries h \<noteq> {#} \<Longrightarrow>
      first h \<in># entries h \<and> (\<forall>j\<in>#entries h. job_run_at (first h) \<le> job_run_at j)"
    and take_law: "inv h \<Longrightarrow> entries h \<noteq> {#} \<Longrightarrow>
      inv (fst (take_first h)) \<and> snd (take_first h) = first h \<and>
      entries h = add_mset (first h) (entries (fst (take_first h)))"
    and drop_law: "inv h \<Longrightarrow> inv (drop_id h jid) \<and>
      (if jid \<in> job_id ` set_mset (entries h)
       then \<exists>j. job_id j = jid \<and> entries h = add_mset j (entries (drop_id h jid))
       else drop_id h jid = h)"
begin

text \<open>A run of the loop that takes entries while the first satisfies \<open>due\<close>, in the order taken.\<close>

inductive drained :: "(time \<Rightarrow> bool) \<Rightarrow> 'h \<Rightarrow> job list \<Rightarrow> 'h \<Rightarrow> bool" for due where
  stop: "entries h = {#} \<or> \<not> due (job_run_at (first h)) \<Longrightarrow> drained due h [] h"
| step: "entries h \<noteq> {#} \<Longrightarrow> due (job_run_at (first h)) \<Longrightarrow>
    drained due (fst (take_first h)) js h' \<Longrightarrow> drained due h (snd (take_first h) # js) h'"

lemma drained_entries: "drained due h js h' \<Longrightarrow> inv h \<Longrightarrow> inv h' \<and> entries h = mset js + entries h'"
proof (induction rule: drained.induct)
  case (stop h)
  then show ?case by simp
next
  case (step h js h')
  note t = take_law [OF step(5,1)]
  have "entries (fst (take_first h)) = mset js + entries h'" "inv h'" using step(4) t by simp_all
  then show ?case using t by (simp add: union_assoc)
qed

lemma drained_sorted: "drained due h js h' \<Longrightarrow> inv h \<Longrightarrow> sorted (map job_run_at js)"
proof (induction rule: drained.induct)
  case (stop h)
  then show ?case by simp
next
  case (step h js h')
  note t = take_law [OF step(5,1)]
  have "job_run_at (first h) \<le> job_run_at j" if "j \<in> set js" for j
  proof -
    have "j \<in># entries (fst (take_first h))" using drained_entries [OF step(3)] t that by simp
    then show ?thesis using first_law [OF step(5,1)] t by (metis add_mset_remove_trivial in_diffD)
  qed
  with step(4) t show ?case by auto
qed

lemma drained_due: "drained due h js h' \<Longrightarrow> inv h \<Longrightarrow> \<forall>j\<in>set js. due (job_run_at j)"
  by (induction rule: drained.induct) (use take_law in auto)

lemma drained_rest:
  assumes "drained due h js h'" "inv h"
    and down: "\<And>s t. s \<le> t \<Longrightarrow> due t \<Longrightarrow> due s"
  shows "\<forall>j\<in>#entries h'. \<not> due (job_run_at j)"
  using assms(1,2)
proof (induction rule: drained.induct)
  case (stop h)
  show ?case
  proof (intro ballI notI)
    fix j
    assume j: "j \<in># entries h" and "due (job_run_at j)"
    moreover from j have ne: "entries h \<noteq> {#}" by auto
    ultimately have "due (job_run_at (first h))" using first_law [OF stop(2) ne] down by blast
    with stop(1) ne show False by simp
  qed
next
  case (step h js h')
  then show ?case using take_law by blast
qed

lemma drained_total: "inv h \<Longrightarrow> \<exists>js h'. drained due h js h'"
proof (induction "size (entries h)" arbitrary: h rule: less_induct)
  case less
  show ?case
  proof (cases "entries h = {#} \<or> \<not> due (job_run_at (first h))")
    case True
    then show ?thesis by (blast intro: drained.stop)
  next
    case False
    then have ne: "entries h \<noteq> {#}" by simp
    note t = take_law [OF less(2) ne]
    have "size (entries (fst (take_first h))) < size (entries h)" using t by (metis lessI size_add_mset)
    then obtain js h' where "drained due (fst (take_first h)) js h'" using less(1) t by blast
    with False show ?thesis by (blast intro: drained.step)
  qed
qed

end

interpretation heap_queue: delay_queue is_heap mset "\<lambda>h. h ! 0" heap_push heap_pop heap_remove_id
proof
  fix h :: "job list" and j :: job and jid :: string
  assume h: "is_heap h"
  show "is_heap (heap_push h j) \<and> mset (heap_push h j) = add_mset j (mset h)"
    by (rule heap_push_spec [OF h])
  show "is_heap (heap_remove_id h jid) \<and>
      (if jid \<in> job_id ` set_mset (mset h)
       then \<exists>j. job_id j = jid \<and> mset h = add_mset j (mset (heap_remove_id h jid))
       else heap_remove_id h jid = h)"
    using heap_remove_id_spec [OF h, of jid] by simp
  assume "mset h \<noteq> {#}"
  then have ne: "h \<noteq> []" by simp
  show "is_heap (fst (heap_pop h)) \<and> snd (heap_pop h) = h ! 0 \<and>
      mset h = add_mset (h ! 0) (mset (fst (heap_pop h)))"
    by (rule heap_pop_spec [OF h ne])
  show "h ! 0 \<in># mset h \<and> (\<forall>j\<in>#mset h. job_run_at (h ! 0) \<le> job_run_at j)"
    using heap_min [of "length h" h] h ne by (auto simp: is_heap_def key_def in_set_conv_nth)
qed

section \<open>Properties\<close>

text \<open>
  \<open>heap.Pop\<close> on a non-empty \<open>delayHeap\<close> keeps the heap and removes exactly the entry it returns,
  whose \<open>RunAt\<close> is the earliest of all.
\<close>
theorem delay_pop_least:
  assumes "is_heap h" "h \<noteq> []"
  shows "is_heap (fst (heap_pop h)) \<and> mset h = add_mset (snd (heap_pop h)) (mset (fst (heap_pop h))) \<and>
    (\<forall>j\<in>set h. job_run_at (snd (heap_pop h)) \<le> job_run_at j)"
proof -
  have ne: "mset h \<noteq> {#}" using assms(2) by simp
  show ?thesis
    using heap_queue.take_law [OF assms(1) ne] heap_queue.first_law [OF assms(1) ne]
    by (metis set_mset_mset)
qed

text \<open>
  \<open>heap.Push\<close> and \<open>heap.Remove\<close> on \<open>delayHeap\<close> keep the heap ordered by \<open>RunAt\<close>. Push
  adds exactly the pushed entry; Remove, at the index a cancellation found, removes exactly the entry at
  that index, wherever in the heap it is.
\<close>
theorem delay_push_remove_correct:
  assumes "is_heap h"
  shows "is_heap (heap_push h j) \<and> mset (heap_push h j) = add_mset j (mset h) \<and>
    (i < length h \<longrightarrow> is_heap (fst (heap_remove h i)) \<and> snd (heap_remove h i) = h ! i \<and>
      mset h = add_mset (h ! i) (mset (fst (heap_remove h i))))"
  using heap_queue.put_law [OF assms] heap_remove_spec [OF assms] by blast

text \<open>Witnesses on heaps of three entries.\<close>

definition sample_heap :: "job list" where
  "sample_heap = [sample_job ''a'' 1, sample_job ''b'' 5, sample_job ''c'' 3]"

lemma sample_heap_ok: "is_heap sample_heap"
proof -
  have "k = 1 \<or> k = 2" if "k < 3" "0 < k" for k :: nat using that by linarith
  moreover have "length sample_heap = 3" by (simp add: sample_heap_def)
  moreover have "key sample_heap 0 \<le> key sample_heap 1" "key sample_heap 0 \<le> key sample_heap 2"
    by (simp_all add: sample_heap_def sample_job_def key_def)
  moreover have "parent 1 = 0" "parent 2 = 0" by (simp_all add: parent_def)
  ultimately show ?thesis unfolding is_heap_def heap_on_def by metis
qed

theorem delay_pop_least_witness:
  "list_all (\<lambda>j. job_run_at (snd (heap_pop sample_heap)) \<le> job_run_at j) sample_heap"
  using delay_pop_least [OF sample_heap_ok] by (simp add: sample_heap_def)

theorem delay_push_remove_correct_witness:
  "mset (heap_push sample_heap (sample_job ''d'' 2)) = add_mset (sample_job ''d'' 2) (mset sample_heap) \<and>
   is_heap (fst (heap_remove sample_heap 1)) \<and> snd (heap_remove sample_heap 1) = sample_job ''b'' 5"
  using delay_push_remove_correct [OF sample_heap_ok, of "sample_job ''d'' 2" 1] by (simp add: sample_heap_def)

end
