(* ===== verification/Status_Table.thy ===== *)
theory Status_Table
  imports Job
begin

text \<open>
  The status table of \<open>internal/core/dispatcher.go\<close>: \<open>statuses\<close> and \<open>statusOrder\<close>, the two fields
  \<open>markStatus\<close> keeps, and \<open>JobStatus\<close>. The contract of the table, a map that may forget its oldest
  key, is a locale; its client lemma says what a sequence of marks leaves.
\<close>

datatype status = StatusQueued | StatusDelayed | StatusRunning | StatusSucceeded | StatusFailed | StatusCancelled

definition max_status_count :: nat where
  "max_status_count = 10000"

record status_table =
  statuses :: "string \<Rightarrow> status option"
  status_order :: "string list"

definition empty_status_table :: status_table where
  "empty_status_table = \<lparr>statuses = Map.empty, status_order = []\<rparr>"

definition mark_status :: "status_table \<Rightarrow> string \<Rightarrow> status \<Rightarrow> status_table" where
  "mark_status t jid st =
     (let t' =
        (if statuses t jid = None then
           (let t1 = t\<lparr>status_order := status_order t @ [jid]\<rparr>
            in if max_status_count < length (status_order t1) then
                 t1\<lparr>status_order := tl (status_order t1),
                    statuses := (statuses t1)(hd (status_order t1) := None)\<rparr>
               else t1)
         else t)
      in t'\<lparr>statuses := (statuses t')(jid \<mapsto> st)\<rparr>)"

definition table_status :: "status_table \<Rightarrow> string \<Rightarrow> go_err + status" where
  "table_status t jid =
     (case statuses t jid of None \<Rightarrow> Inl ErrJobNotFound | Some st \<Rightarrow> Inr st)"

text \<open>The order lists each key once, and there are at most \<open>maxStatusCount\<close>.\<close>

definition table_ok :: "status_table \<Rightarrow> bool" where
  "table_ok t \<longleftrightarrow> distinct (status_order t) \<and> set (status_order t) = dom (statuses t) \<and>
     length (status_order t) \<le> max_status_count"

lemma empty_table_ok: "table_ok empty_status_table"
  by (simp add: table_ok_def empty_status_table_def)

lemma max_status_count_pos: "0 < max_status_count"
  by (simp add: max_status_count_def)

text \<open>The key \<open>markStatus\<close> gives up, if any.\<close>

definition evicted :: "status_table \<Rightarrow> string \<Rightarrow> string option" where
  "evicted t jid =
     (if statuses t jid = None \<and> length (status_order t) = max_status_count then Some (hd (status_order t)) else None)"

lemma mark_status_cases:
  assumes "table_ok t"
  shows "statuses t jid \<noteq> None \<Longrightarrow> mark_status t jid st = t\<lparr>statuses := (statuses t)(jid \<mapsto> st)\<rparr>"
    and "statuses t jid = None \<Longrightarrow> length (status_order t) < max_status_count \<Longrightarrow>
      mark_status t jid st =
        t\<lparr>status_order := status_order t @ [jid], statuses := (statuses t)(jid \<mapsto> st)\<rparr>"
    and "statuses t jid = None \<Longrightarrow> length (status_order t) = max_status_count \<Longrightarrow>
      mark_status t jid st =
        t\<lparr>status_order := tl (status_order t) @ [jid],
          statuses := ((statuses t)(hd (status_order t) := None))(jid \<mapsto> st)\<rparr>"
proof -
  assume "statuses t jid = None" "length (status_order t) = max_status_count"
  moreover from this max_status_count_pos have "status_order t \<noteq> []" by auto
  ultimately show "mark_status t jid st =
      t\<lparr>status_order := tl (status_order t) @ [jid],
        statuses := ((statuses t)(hd (status_order t) := None))(jid \<mapsto> st)\<rparr>"
    by (simp add: mark_status_def)
qed (auto simp: mark_status_def)

lemma mark_status_ok:
  assumes t: "table_ok t"
  shows "table_ok (mark_status t jid st)"
proof -
  have len: "length (status_order t) \<le> max_status_count" using t by (simp add: table_ok_def)
  consider (old) "statuses t jid \<noteq> None"
    | (room) "statuses t jid = None" "length (status_order t) < max_status_count"
    | (full) "statuses t jid = None" "length (status_order t) = max_status_count"
    using len by fastforce
  then show ?thesis
  proof cases
    case old
    then show ?thesis using t by (auto simp: mark_status_cases(1) [OF t] table_ok_def)
  next
    case room
    then show ?thesis using t by (auto simp: mark_status_cases(2) [OF t] table_ok_def)
  next
    case full
    then obtain x xs where o: "status_order t = x # xs" using max_status_count_pos by (cases "status_order t") auto
    have "jid \<notin> set (status_order t)" using t full(1) by (auto simp: table_ok_def)
    moreover have "set xs = dom (statuses t) - {x}" "x \<notin> set xs" "distinct xs"
      using t o unfolding table_ok_def by auto
    ultimately show ?thesis
      using full o by (auto simp: mark_status_cases(3) [OF t] table_ok_def)
  qed
qed

lemma mark_status_lookup:
  assumes t: "table_ok t"
  shows "statuses (mark_status t jid st) k =
    (if k = jid then Some st else if evicted t jid = Some k then None else statuses t k)"
proof -
  have len: "length (status_order t) \<le> max_status_count" using t by (simp add: table_ok_def)
  consider (old) "statuses t jid \<noteq> None"
    | (room) "statuses t jid = None" "length (status_order t) < max_status_count"
    | (full) "statuses t jid = None" "length (status_order t) = max_status_count"
    using len by fastforce
  then show ?thesis
    by cases (use mark_status_cases [OF t] in \<open>auto simp: evicted_def\<close>)
qed

section \<open>The contract of the table\<close>

locale forgetful_map =
  fixes inv :: "'t \<Rightarrow> bool"
    and look :: "'t \<Rightarrow> 'k \<Rightarrow> 'v option"
    and mark :: "'t \<Rightarrow> 'k \<Rightarrow> 'v \<Rightarrow> 't"
  assumes mark_inv: "inv t \<Longrightarrow> inv (mark t k v)"
    and look_marked: "inv t \<Longrightarrow> look (mark t k v) k = Some v"
    and look_other: "inv t \<Longrightarrow> k' \<noteq> k \<Longrightarrow> look (mark t k v) k' = look t k' \<or> look (mark t k v) k' = None"
    and look_known: "inv t \<Longrightarrow> look t k \<noteq> None \<Longrightarrow> k' \<noteq> k \<Longrightarrow> look (mark t k v) k' = look t k'"
begin

definition marks :: "'t \<Rightarrow> ('k \<times> 'v) list \<Rightarrow> 't" where
  "marks t kvs = foldl (\<lambda>t (k, v). mark t k v) t kvs"

lemma marks_simps [simp]: "marks t [] = t" "marks t ((k, v) # kvs) = marks (mark t k v) kvs"
  by (simp_all add: marks_def)

lemma marks_inv: "inv t \<Longrightarrow> inv (marks t kvs)"
  by (induction kvs arbitrary: t) (auto simp: mark_inv)

text \<open>Marks on other keys change the value of a key only by forgetting it.\<close>

lemma marks_other: "inv t \<Longrightarrow> k \<notin> fst ` set kvs \<Longrightarrow> look (marks t kvs) k = look t k \<or> look (marks t kvs) k = None"
proof (induction kvs arbitrary: t)
  case (Cons kv kvs)
  obtain k' v where kv: "kv = (k', v)" by (cases kv)
  with Cons(3) have ne: "k \<noteq> k'" "k \<notin> fst ` set kvs" by auto
  show ?case
    using Cons(1) [OF mark_inv [OF Cons(2)] ne(2), of k' v] look_other [OF Cons(2) ne(1), of v] kv by auto
qed simp

lemma marks_const:
  assumes "inv t" "\<forall>(k', v')\<in>set kvs. k' = k \<longrightarrow> v' = v" "k \<in> fst ` set kvs \<or> look t k \<in> {Some v, None}"
  shows "look (marks t kvs) k \<in> {Some v, None}"
  using assms
proof (induction kvs arbitrary: t)
  case (Cons kv kvs)
  obtain k' v' where kv: "kv = (k', v')" by (cases kv)
  have "k \<in> fst ` set kvs \<or> look (mark t k' v') k \<in> {Some v, None}"
  proof (cases "k' = k")
    case True
    then show ?thesis using Cons(3) kv look_marked [OF Cons(2)] by auto
  next
    case False
    then show ?thesis using Cons(4) kv look_other [OF Cons(2), of k k' v'] by auto
  qed
  then show ?case using Cons(1) [OF mark_inv [OF Cons(2)]] Cons(3) kv by auto
qed auto

lemma last_mark_wins:
  assumes "inv t" "k \<notin> fst ` set later"
  shows "look (marks t (earlier @ (k, v) # later)) k \<in> {Some v, None}"
proof -
  have inv: "inv (mark (marks t earlier) k v)" using assms(1) by (simp add: marks_inv mark_inv)
  have "look (mark (marks t earlier) k v) k = Some v" using assms(1) by (simp add: look_marked marks_inv)
  then have "look (marks (mark (marks t earlier) k v) later) k \<in> {Some v, None}"
    using marks_other [OF inv assms(2)] by auto
  moreover have "marks t (earlier @ (k, v) # later) = marks (mark (marks t earlier) k v) later"
    by (simp add: marks_def)
  ultimately show ?thesis by simp
qed

end

interpretation table: forgetful_map table_ok statuses mark_status
  by unfold_locales (auto simp: mark_status_ok mark_status_lookup evicted_def split: if_splits)

section \<open>Properties\<close>

definition run_marks :: "(string \<times> status) list \<Rightarrow> status_table" where
  "run_marks ms = foldl (\<lambda>t (k, v). mark_status t k v) empty_status_table ms"



text \<open>
  The table forgets the job recorded first, whatever its state: with \<open>maxStatusCount\<close> jobs
  recorded, one more submission makes a job that is still delayed, queued or running unknown, so it
  can no longer be cancelled by its identifier.
\<close>
theorem eviction_hits_live_jobs:
  assumes "table_ok t" "length (status_order t) = 10000" "status_order t = old # rest"
    "statuses t old = Some live" "statuses t new_id = None"
  shows "table_status (mark_status t new_id StatusQueued) old = Inl ErrJobNotFound"
proof -
  have "old \<noteq> new_id" using assms(4,5) by auto
  moreover have "evicted t new_id = Some old" using assms by (simp add: evicted_def max_status_count_def)
  ultimately show ?thesis using mark_status_lookup [OF assms(1)] by (simp add: table_status_def)
qed

definition full_ids :: "string list" where
  "full_ids = map (\<lambda>n. replicate n CHR ''x'') [0..<10000]"

definition full_table :: status_table where
  "full_table = \<lparr>statuses = (\<lambda>k. if k \<in> set full_ids then Some StatusDelayed else None), status_order = full_ids\<rparr>"

theorem eviction_hits_live_jobs_witness:
  "statuses full_table [] = Some StatusDelayed \<and>
   table_status (mark_status full_table ''y'' StatusQueued) [] = Inl ErrJobNotFound"
proof -
  have d: "distinct full_ids" unfolding full_ids_def
    by (simp add: distinct_map del: upt_rec_numeral) (metis (mono_tags, lifting) inj_onI length_replicate)
  have ne: "[0..<(10000::nat)] = 0 # [1..<10000]" using upt_conv_Cons [of 0 "10000::nat"] by (simp del: upt_rec_numeral)
  then have o: "full_ids = [] # map (\<lambda>n. replicate n CHR ''x'') [1..<10000]"
    unfolding full_ids_def ne by (simp del: upt_rec_numeral)
  have y: "''y'' \<notin> set full_ids"
  proof
    assume "''y'' \<in> set full_ids"
    then obtain n where "''y'' = replicate n CHR ''x''" by (auto simp: full_ids_def simp del: upt_rec_numeral)
    then show False by (cases n) auto
  qed
  have len: "length full_ids = 10000" by (simp add: full_ids_def del: upt_rec_numeral)
  have ok: "table_ok full_table"
    using d len by (auto simp: table_ok_def full_table_def max_status_count_def split: if_splits)
  have "[] \<in> set full_ids" using o by (metis list.set_intros(1))
  then have s: "statuses full_table [] = Some StatusDelayed" by (simp add: full_table_def)
  have "statuses full_table ''y'' = None" using y by (simp add: full_table_def)
  then have "table_status (mark_status full_table ''y'' StatusQueued) [] = Inl ErrJobNotFound"
    using eviction_hits_live_jobs [of full_table "[]" _ StatusDelayed "''y''"] ok s o len by (simp add: full_table_def)
  with s show ?thesis by simp
qed

end
