(* ===== verification/In_Flight.thy ===== *)
theory In_Flight
  imports Job
begin

text \<open>
  The in-flight sets of \<open>internal/core/dispatcher.go\<close> (\<open>inFlight\<close>, \<open>addInFlightLocked\<close>, the body
  of \<open>releaseInFlight\<close>): for each job name the identifiers of its jobs that have not ended. A set
  is a list without repetitions; its order stands for the unspecified iteration order of a Go map.
\<close>

type_synonym in_flight = "string \<Rightarrow> string list option"

definition flying :: "in_flight \<Rightarrow> string \<Rightarrow> string list" where
  "flying f name = (case f name of None \<Rightarrow> [] | Some s \<Rightarrow> s)"

definition add_in_flight :: "in_flight \<Rightarrow> string \<Rightarrow> string \<Rightarrow> in_flight" where
  "add_in_flight f name jid = f(name \<mapsto> List.insert jid (flying f name))"

definition drop_in_flight :: "in_flight \<Rightarrow> string \<Rightarrow> string \<Rightarrow> in_flight" where
  "drop_in_flight f name jid =
     (case f name of
        None \<Rightarrow> f
      | Some s \<Rightarrow>
          (let s' = removeAll jid s in if s' = [] then f(name := None) else f(name \<mapsto> s')))"

text \<open>No name is kept with an empty set.\<close>

definition in_flight_ok :: "in_flight \<Rightarrow> bool" where
  "in_flight_ok f \<longleftrightarrow> (\<forall>name s. f name = Some s \<longrightarrow> s \<noteq> [] \<and> distinct s)"

lemma empty_in_flight_ok [simp]: "in_flight_ok Map.empty"
  by (simp add: in_flight_ok_def)

lemma flying_distinct: "in_flight_ok f \<Longrightarrow> distinct (flying f name)"
  by (simp add: flying_def in_flight_ok_def split: option.splits)

lemma flying_add: "set (flying (add_in_flight f name jid) n) =
    (if n = name then insert jid (set (flying f name)) else set (flying f n))"
  by (auto simp: flying_def add_in_flight_def split: option.splits)

lemma flying_drop: "set (flying (drop_in_flight f name jid) n) =
    (if n = name then set (flying f name) - {jid} else set (flying f n))"
proof -
  have e: "removeAll jid s = [] \<longleftrightarrow> set s - {jid} = {}" for s :: "string list"
    by (metis set_empty set_removeAll)
  show ?thesis by (auto simp: flying_def drop_in_flight_def Let_def e split: option.splits)
qed

lemma add_in_flight_ok: "in_flight_ok f \<Longrightarrow> in_flight_ok (add_in_flight f name jid)"
  by (auto simp: in_flight_ok_def add_in_flight_def flying_def List.insert_def split: option.splits)

lemma clear_in_flight_ok: "in_flight_ok f \<Longrightarrow> in_flight_ok (f(name := None))"
  by (simp add: in_flight_ok_def)

lemma drop_in_flight_ok: "in_flight_ok f \<Longrightarrow> in_flight_ok (drop_in_flight f name jid)"
  by (auto simp: in_flight_ok_def drop_in_flight_def Let_def distinct_removeAll split: option.splits)

text \<open>Adding an identifier that was not in flight and removing it gives the table back.\<close>

lemma drop_add_id:
  assumes "in_flight_ok f" "jid \<notin> set (flying f name)"
  shows "drop_in_flight (add_in_flight f name jid) name jid = f"
proof (cases "f name")
  case None
  then show ?thesis by (auto simp: drop_in_flight_def add_in_flight_def flying_def)
next
  case (Some s)
  then have "s \<noteq> []" "jid \<notin> set s" using assms by (auto simp: in_flight_ok_def flying_def)
  then show ?thesis using Some by (auto simp: drop_in_flight_def add_in_flight_def flying_def removeAll_id)
qed

end
