(* ===== verification/Dispatcher.thy ===== *)
theory Dispatcher
  imports Config Delay_Heap Ready_Queue Status_Table In_Flight
begin

text \<open>
  \<open>internal/core/dispatcher.go\<close>: the state of a dispatcher and its operations other than those of
  the workers. An operation maps the state to the state after it and its result; each call of the
  clock, of the random source, of the store and of a callback of the configuration is part of it, in
  the order the code makes them. \<open>NoReturn\<close> is a call that waits for room in the ready queue.
\<close>

section \<open>State\<close>

text \<open>The calls that leave the dispatcher: metrics, events, log records and trace spans.\<close>

datatype obs =
    MetricQueued string int
  | MetricRunning string int
  | MetricCompleted string duration
  | MetricFailed string go_err
  | MetricRetried string int
  | MetricDropped string
  | MetricSkipped string
  | MetricReplaced string
  | TaskEvent string string int "go_err option"
  | LogSubmit string string time
  | LogStart string string int
  | LogCompleted string string duration
  | LogRetry string string int time go_err
  | LogSkipped string string
  | LogReplaced string string
  | LogShutdown nat
  | LogError string string int go_err
  | LogPanic string string nat
  | LogRestoreSkipped string string
  | SpanStart string string int
  | SpanEnd "go_err option"

text \<open>
  A handler is known by a number. \<open>d_executing\<close> maps a running job to whether its cancel function
  was called. \<open>d_ticks\<close> and \<open>d_draws\<close> count the calls of the clock and of the random source.
  \<open>d_shutdown\<close> is the result kept by \<open>shutdownOnce\<close>.
\<close>

record 's disp =
  d_cfg :: "'s config"
  d_handlers :: "string \<Rightarrow> nat option"
  d_ready :: ready_queue
  d_stopped :: bool
  d_signal :: bool
  d_shutdown :: "go_err option option"
  d_running :: bool
  d_executing :: "(string \<times> bool) list"
  d_cancelled :: "string set"
  d_table :: status_table
  d_in_flight :: in_flight
  d_job_names :: "string \<Rightarrow> string option"
  d_delay :: "job list"
  d_ticks :: nat
  d_draws :: nat
  d_store :: 's
  d_obs :: "obs list"

definition new_dispatcher :: "clock \<Rightarrow> 's \<Rightarrow> 's dispatcher_option list \<Rightarrow> go_err + 's disp" where
  "new_dispatcher time_now st opts =
     (case apply_opts opts (default_config time_now) of
        Inl e \<Rightarrow> Inl e
      | Inr c \<Rightarrow>
          (let cfg = c\<lparr>cfg_logger := normalize_logger (cfg_logger c)\<rparr>
           in Inr \<lparr>d_cfg = cfg, d_handlers = Map.empty,
                d_ready = new_ready_queue (nat (cfg_queue_size cfg)),
                d_stopped = False, d_signal = False, d_shutdown = None, d_running = True,
                d_executing = [], d_cancelled = {}, d_table = empty_status_table,
                d_in_flight = Map.empty, d_job_names = Map.empty, d_delay = [],
                d_ticks = 0, d_draws = 0, d_store = st, d_obs = []\<rparr>))"

section \<open>Metrics, events and logs\<close>

definition emit :: "obs \<Rightarrow> 's disp \<Rightarrow> 's disp" where
  "emit ob d = d\<lparr>d_obs := d_obs d @ [ob]\<rparr>"

definition emit_task_event :: "string \<Rightarrow> string \<Rightarrow> int \<Rightarrow> go_err option \<Rightarrow> 's disp \<Rightarrow> 's disp" where
  "emit_task_event action name attempt err d =
     (if cfg_event_hook (d_cfg d) then emit (TaskEvent action name attempt err) d else d)"

definition metric_queued :: "string \<Rightarrow> int \<Rightarrow> 's disp \<Rightarrow> 's disp" where
  "metric_queued name delta d =
     emit_task_event ''queued'' name 0 None
       (if on_queued (cfg_metrics (d_cfg d)) then emit (MetricQueued name delta) d else d)"

definition metric_running :: "string \<Rightarrow> int \<Rightarrow> 's disp \<Rightarrow> 's disp" where
  "metric_running name delta d =
     emit_task_event ''running'' name 0 None
       (if on_running (cfg_metrics (d_cfg d)) then emit (MetricRunning name delta) d else d)"

definition metric_completed :: "string \<Rightarrow> duration \<Rightarrow> 's disp \<Rightarrow> 's disp" where
  "metric_completed name dur d =
     emit_task_event ''completed'' name 0 None
       (if on_completed (cfg_metrics (d_cfg d)) then emit (MetricCompleted name dur) d else d)"

definition metric_failed :: "string \<Rightarrow> go_err \<Rightarrow> 's disp \<Rightarrow> 's disp" where
  "metric_failed name err d =
     emit_task_event ''failed'' name 0 (Some err)
       (if on_failed (cfg_metrics (d_cfg d)) then emit (MetricFailed name err) d else d)"

definition metric_retried :: "string \<Rightarrow> int \<Rightarrow> 's disp \<Rightarrow> 's disp" where
  "metric_retried name attempt d =
     emit_task_event ''retried'' name attempt None
       (if on_retried (cfg_metrics (d_cfg d)) then emit (MetricRetried name attempt) d else d)"

definition metric_dropped :: "string \<Rightarrow> 's disp \<Rightarrow> 's disp" where
  "metric_dropped name d =
     emit_task_event ''dropped'' name 0 None
       (if on_dropped (cfg_metrics (d_cfg d)) then emit (MetricDropped name) d else d)"

definition metric_skipped :: "string \<Rightarrow> 's disp \<Rightarrow> 's disp" where
  "metric_skipped name d =
     emit_task_event ''skipped'' name 0 None
       (if on_skipped (cfg_metrics (d_cfg d)) then emit (MetricSkipped name) d else d)"

definition metric_replaced :: "string \<Rightarrow> 's disp \<Rightarrow> 's disp" where
  "metric_replaced name d =
     emit_task_event ''replaced'' name 0 None
       (if on_replaced (cfg_metrics (d_cfg d)) then emit (MetricReplaced name) d else d)"

definition log_submit :: "job \<Rightarrow> 's disp \<Rightarrow> 's disp" where
  "log_submit j = emit (LogSubmit (job_id j) (job_name j) (job_run_at j))"

definition log_start :: "job \<Rightarrow> 's disp \<Rightarrow> 's disp" where
  "log_start j = emit (LogStart (job_id j) (job_name j) (job_attempt j))"

definition log_store :: "job \<Rightarrow> 's disp \<Rightarrow> 's disp" where
  "log_store j = emit (LogRestoreSkipped (job_id j) (job_name j))"

declare log_store_def [simp]

definition log_completed :: "job \<Rightarrow> duration \<Rightarrow> 's disp \<Rightarrow> 's disp" where
  "log_completed j dur = emit (LogCompleted (job_id j) (job_name j) dur)"

definition log_retry :: "job \<Rightarrow> time \<Rightarrow> go_err \<Rightarrow> 's disp \<Rightarrow> 's disp" where
  "log_retry j at cause = emit (LogRetry (job_id j) (job_name j) (wrap64 (job_attempt j + 1)) at cause)"

definition log_skipped :: "job \<Rightarrow> 's disp \<Rightarrow> 's disp" where
  "log_skipped j = emit (LogSkipped (job_id j) (job_name j))"

definition log_replaced :: "job \<Rightarrow> 's disp \<Rightarrow> 's disp" where
  "log_replaced j = emit (LogReplaced (job_id j) (job_name j))"

definition log_shutdown :: "'s disp \<Rightarrow> 's disp" where
  "log_shutdown d = emit (LogShutdown (length (d_executing d))) d"

definition log_error :: "job \<Rightarrow> go_err \<Rightarrow> 's disp \<Rightarrow> 's disp" where
  "log_error j err = emit (LogError (job_id j) (job_name j) (job_attempt j) err)"

section \<open>Parts of the operations\<close>

definition clock_read :: "'s disp \<Rightarrow> time \<times> 's disp" where
  "clock_read d = (cfg_now (d_cfg d) (d_ticks d), d\<lparr>d_ticks := Suc (d_ticks d)\<rparr>)"

text \<open>The random source \<open>rand\<close> is outside the repository: its \<open>k\<close>-th call gives an identifier or an error.\<close>

definition new_job_id :: "(nat \<Rightarrow> go_err + string) \<Rightarrow> 's disp \<Rightarrow> 's disp \<times> (go_err + string)" where
  "new_job_id rand d = (d\<lparr>d_draws := Suc (d_draws d)\<rparr>, rand (d_draws d))"

definition set_status :: "string \<Rightarrow> status \<Rightarrow> 's disp \<Rightarrow> 's disp" where
  "set_status jid st d = d\<lparr>d_table := mark_status (d_table d) jid st\<rparr>"

definition release_in_flight :: "string \<Rightarrow> string \<Rightarrow> 's disp \<Rightarrow> 's disp" where
  "release_in_flight name jid d =
     (if cfg_conflict (d_cfg d) = ConflictAllow then d
      else d\<lparr>d_in_flight := drop_in_flight (d_in_flight d) name jid\<rparr>)"

definition release_job :: "string \<Rightarrow> string \<Rightarrow> 's disp \<Rightarrow> 's disp" where
  "release_job name jid d =
     (let d' = release_in_flight name jid d in d'\<lparr>d_job_names := (d_job_names d')(jid := None)\<rparr>)"

definition store_delete :: "string \<Rightarrow> 's disp \<Rightarrow> 's disp" where
  "store_delete jid d =
     (case cfg_store (d_cfg d) of
        None \<Rightarrow> d
      | Some ops \<Rightarrow> d\<lparr>d_store := fst (st_delete ops (d_store d) jid)\<rparr>)"

definition persist :: "job \<Rightarrow> 's disp \<Rightarrow> 's disp \<times> go_err option" where
  "persist j d =
     (case cfg_store (d_cfg d) of
        None \<Rightarrow> (d, None)
      | Some ops \<Rightarrow>
          (case st_save ops (d_store d) j of
             (s', None) \<Rightarrow> (d\<lparr>d_store := s'\<rparr>, None)
           | (s', Some e) \<Rightarrow> (d\<lparr>d_store := s'\<rparr>, Some (Wrapped CodeStoreInvalid e))))"

definition add_in_flight_for_restore :: "string \<Rightarrow> string \<Rightarrow> 's disp \<Rightarrow> 's disp" where
  "add_in_flight_for_restore name jid d =
     (if cfg_conflict (d_cfg d) = ConflictAllow then d
      else d\<lparr>d_in_flight := add_in_flight (d_in_flight d) name jid\<rparr>)"

definition enqueue_ready :: "ctx_error option \<Rightarrow> job \<Rightarrow> 's disp \<Rightarrow> 's disp \<times> (go_err, unit) outcome" where
  "enqueue_ready ctx j d =
     (case rq_push ctx (d_ready d) j (cfg_queue_policy (d_cfg d) = QueueFullDrop) of
        (q', Err e) \<Rightarrow>
          (if cfg_queue_policy (d_cfg d) = QueueFullDrop then metric_dropped (job_name j) (d\<lparr>d_ready := q'\<rparr>)
           else d\<lparr>d_ready := q'\<rparr>, Err e)
      | (q', r) \<Rightarrow> (d\<lparr>d_ready := q'\<rparr>, r))"

definition push_delayed :: "job \<Rightarrow> 's disp \<Rightarrow> 's disp" where
  "push_delayed j d = d\<lparr>d_delay := heap_push (d_delay d) j, d_signal := True\<rparr>"

definition is_cancelled :: "string \<Rightarrow> 's disp \<Rightarrow> bool" where
  "is_cancelled jid d \<longleftrightarrow> jid \<in> d_cancelled d"

definition call_cancel :: "string \<Rightarrow> 's disp \<Rightarrow> 's disp" where
  "call_cancel jid d =
     (if map_of (d_executing d) jid = None then d
      else d\<lparr>d_executing := AList.update jid True (d_executing d)\<rparr>)"

definition cancel_by_id :: "string \<Rightarrow> 's disp \<Rightarrow> 's disp" where
  "cancel_by_id jid d =
     (let d1 = d\<lparr>d_delay := heap_remove_id (d_delay d) jid\<rparr>;
          d2 = d1\<lparr>d_ready := fst (rq_remove (d_ready d1) jid)\<rparr>;
          d3 = d2\<lparr>d_cancelled := insert jid (d_cancelled d2)\<rparr>;
          d4 = (case d_job_names d3 jid of None \<Rightarrow> d3 | Some name \<Rightarrow> release_job name jid d3);
          d5 = store_delete jid d4;
          d6 = call_cancel jid d5
      in set_status jid StatusCancelled d6)"

definition apply_conflict :: "job \<Rightarrow> 's disp \<Rightarrow> 's disp \<times> go_err option" where
  "apply_conflict j d =
     (let name = job_name j; set_ids = flying (d_in_flight d) name
      in if cfg_conflict (d_cfg d) = ConflictAllow then (d, None)
         else if cfg_conflict (d_cfg d) = ConflictReplace then
           (let f = (if set_ids \<noteq> [] then (d_in_flight d)(name := None) else d_in_flight d);
                d1 = d\<lparr>d_in_flight := add_in_flight f name (job_id j)\<rparr>;
                d2 = fold cancel_by_id set_ids d1
            in (if set_ids \<noteq> [] then log_replaced j (metric_replaced name d2) else d2, None))
         else if cfg_conflict (d_cfg d) = ConflictSkip then
           (if set_ids \<noteq> [] then (log_skipped j (metric_skipped name d), Some ErrSkipped)
            else (d\<lparr>d_in_flight := add_in_flight (d_in_flight d) name (job_id j)\<rparr>, None))
         else (d, None))"

definition build_entry ::
  "(nat \<Rightarrow> go_err + string) \<Rightarrow> string \<Rightarrow> string \<Rightarrow> job_spec \<Rightarrow> 's disp \<Rightarrow> 's disp \<times> (go_err + job)" where
  "build_entry rand name payload spec d =
     (case validate_name name of
        Some e \<Rightarrow> (d, Inl e)
      | None \<Rightarrow>
          if cfg_max_payload (d_cfg d) < int (length payload) then (d, Inl ErrJobInvalid)
          else if d_handlers d name = None then (d, Inl ErrHandlerNotFound)
          else
            (case new_job_id rand d of
               (d1, Inl e) \<Rightarrow> (d1, Inl (Wrapped CodeIDGenerateFailed e))
             | (d1, Inr jid) \<Rightarrow>
                 (case clock_read d1 of
                    (now, d2) \<Rightarrow>
                      (d2, Inr \<lparr>job_id = jid, job_name = name, job_payload = payload, job_created_at = now,
                         job_run_at = spec_run_at spec, job_max_retries = spec_max_retries spec,
                         job_retry_delay = spec_retry_delay spec, job_timeout = spec_timeout spec,
                         job_attempt = 0\<rparr>))))"

section \<open>Submitting\<close>

text \<open>
  The part of \<open>SubmitWithOptions\<close> for a job due now, after the conflict policy was applied, and its
  end from the push on, which a submission that has to wait comes back to.
\<close>

definition submit_accepted :: "job \<Rightarrow> 's disp \<Rightarrow> 's disp" where
  "submit_accepted j d =
     log_submit j (metric_queued (job_name j) 1 (set_status (job_id j) StatusQueued d))"

definition submit_push :: "ctx_error option \<Rightarrow> job \<Rightarrow> 's disp \<Rightarrow> 's disp \<times> (go_err, string) outcome" where
  "submit_push ctx j d =
     (case enqueue_ready ctx j d of
        (d1, Err e) \<Rightarrow> (release_job (job_name j) (job_id j) (store_delete (job_id j) d1), Err e)
      | (d1, Panic) \<Rightarrow> (d1, Panic)
      | (d1, NoReturn) \<Rightarrow> (d1, NoReturn)
      | (d1, Ok u) \<Rightarrow> (submit_accepted j d1, Ok (job_id j)))"

definition submit_now :: "ctx_error option \<Rightarrow> job \<Rightarrow> 's disp \<Rightarrow> 's disp \<times> (go_err, string) outcome" where
  "submit_now ctx j d =
     (case persist j d of
        (d1, Some e) \<Rightarrow> (release_job (job_name j) (job_id j) d1, Err e)
      | (d1, None) \<Rightarrow> submit_push ctx j d1)"

definition submit_later :: "job \<Rightarrow> 's disp \<Rightarrow> 's disp \<times> (go_err, string) outcome" where
  "submit_later j d =
     (case persist j d of
        (d1, Some e) \<Rightarrow> (release_job (job_name j) (job_id j) d1, Err e)
      | (d1, None) \<Rightarrow>
          (log_submit j (set_status (job_id j) StatusDelayed (push_delayed j d1)), Ok (job_id j)))"

definition submit_entry :: "ctx_error option \<Rightarrow> job \<Rightarrow> 's disp \<Rightarrow> 's disp \<times> (go_err, string) outcome" where
  "submit_entry ctx j d =
     (case apply_conflict j d of
        (d1, Some e) \<Rightarrow> (d1, Err e)
      | (d1, None) \<Rightarrow>
          (let d2 = d1\<lparr>d_job_names := (d_job_names d1)(job_id j \<mapsto> job_name j)\<rparr>
           in if \<not> d_running d2 then (release_job (job_name j) (job_id j) d2, Err ErrShuttingDown)
              else if job_run_at j = zero_time then submit_now ctx j d2
              else
                (case clock_read d2 of
                   (now, d3) \<Rightarrow> if \<not> now < job_run_at j then submit_now ctx j d3 else submit_later j d3)))"

definition submit_with_options ::
  "(nat \<Rightarrow> go_err + string) \<Rightarrow> ctx_error option \<Rightarrow> string \<Rightarrow> string \<Rightarrow> submit_option list \<Rightarrow>
   's disp \<Rightarrow> 's disp \<times> (go_err, string) outcome" where
  "submit_with_options rand ctx name payload opts d =
     (case apply_opts opts empty_spec of
        Inl e \<Rightarrow> (d, Err e)
      | Inr spec \<Rightarrow>
          (case build_entry rand name payload spec d of
             (d1, Inl e) \<Rightarrow> (d1, Err e)
           | (d1, Inr j) \<Rightarrow> submit_entry ctx j d1))"

definition submit where
  "submit rand ctx name payload opts d = submit_with_options rand ctx name payload opts d"

definition submit_at where
  "submit_at rand ctx name payload at opts d =
     submit_with_options rand ctx name payload (opts @ [with_run_at at]) d"

definition submit_after where
  "submit_after rand ctx name payload delay opts d =
     (if delay < 0 then (d, Err ErrJobInvalid)
      else
        (case clock_read d of
           (now, d1) \<Rightarrow>
             submit_with_options rand ctx name payload (opts @ [with_run_at (now + delay)]) d1))"

section \<open>Registration, queries, cancellation\<close>

definition register_handler :: "string \<Rightarrow> nat option \<Rightarrow> 's disp \<Rightarrow> 's disp \<times> go_err option" where
  "register_handler name h d =
     (case validate_name name of
        Some e \<Rightarrow> (d, Some e)
      | None \<Rightarrow>
          (case h of
             None \<Rightarrow> (d, Some ErrJobInvalid)
           | Some f \<Rightarrow>
               if d_handlers d name \<noteq> None then (d, Some ErrHandlerConflict)
               else (d\<lparr>d_handlers := (d_handlers d)(name \<mapsto> f)\<rparr>, None)))"

definition job_status :: "string \<Rightarrow> 's disp \<Rightarrow> go_err + status" where
  "job_status jid d = table_status (d_table d) jid"

definition cancel :: "string \<Rightarrow> 's disp \<Rightarrow> 's disp \<times> go_err option" where
  "cancel jid d =
     (case job_status jid d of
        Inl e \<Rightarrow> (d, Some e)
      | Inr st \<Rightarrow> (cancel_by_id jid d, None))"

section \<open>Restoring\<close>

text \<open>
  One turn of the loop of \<open>Restore\<close>: whether the job was restored (or skipped), or the error of its
  push. \<open>restore_push\<close> is the turn from the push on, which a restore that has to wait for room comes
  back to.
\<close>

definition restore_push :: "ctx_error option \<Rightarrow> job \<Rightarrow> 's disp \<Rightarrow> 's disp \<times> (go_err, bool) outcome" where
  "restore_push ctx j d =
     (case rq_push ctx (d_ready d) j False of
        (q', Ok u) \<Rightarrow>
          (metric_queued (job_name j) 1 (set_status (job_id j) StatusQueued (d\<lparr>d_ready := q'\<rparr>)), Ok True)
      | (q', Err e) \<Rightarrow> (d\<lparr>d_ready := q'\<rparr>, Err e)
      | (q', Panic) \<Rightarrow> (d\<lparr>d_ready := q'\<rparr>, Panic)
      | (q', NoReturn) \<Rightarrow> (d\<lparr>d_ready := q'\<rparr>, NoReturn))"

definition restore_one :: "ctx_error option \<Rightarrow> job \<Rightarrow> 's disp \<Rightarrow> 's disp \<times> (go_err, bool) outcome" where
  "restore_one ctx j d =
     (if d_handlers d (job_name j) = None then
        (log_store j (store_delete (job_id j) d), Ok False)
      else
        (let d1 = d\<lparr>d_job_names := (d_job_names d)(job_id j \<mapsto> job_name j)\<rparr>;
             d2 = add_in_flight_for_restore (job_name j) (job_id j) d1
         in case clock_read d2 of
              (now, d3) \<Rightarrow>
                if now < job_run_at j then (set_status (job_id j) StatusDelayed (push_delayed j d3), Ok True)
                else restore_push ctx j d3))"

text \<open>The result of \<open>Restore\<close> is a count and an error, so an error carries the count.\<close>

fun restore_jobs ::
  "ctx_error option \<Rightarrow> job list \<Rightarrow> nat \<Rightarrow> 's disp \<Rightarrow> 's disp \<times> (nat \<times> go_err, nat) outcome" where
  "restore_jobs ctx [] n d = (d, Ok n)"
| "restore_jobs ctx (j # js) n d =
     (case restore_one ctx j d of
        (d', Ok counted) \<Rightarrow> restore_jobs ctx js (if counted then Suc n else n) d'
      | (d', Err e) \<Rightarrow> (d', Err (n, e))
      | (d', Panic) \<Rightarrow> (d', Panic)
      | (d', NoReturn) \<Rightarrow> (d', NoReturn))"

definition restore :: "ctx_error option \<Rightarrow> 's disp \<Rightarrow> 's disp \<times> (nat \<times> go_err, nat) outcome" where
  "restore ctx d =
     (case cfg_store (d_cfg d) of
        None \<Rightarrow> (d, Ok 0)
      | Some ops \<Rightarrow>
          (case st_list ops (d_store d) of
             (s', Inl e) \<Rightarrow> (d\<lparr>d_store := s'\<rparr>, Err (0, Wrapped CodeStoreInvalid e))
           | (s', Inr js) \<Rightarrow> restore_jobs ctx js 0 (d\<lparr>d_store := s'\<rparr>)))"

end
