(* ===== verification/Delay_Loop.thy ===== *)
theory Delay_Loop
  imports Dispatcher
begin

text \<open>
  The delay scheduler and the shutdown of \<open>internal/core/dispatcher.go\<close>: \<open>popDue\<close>, \<open>drainDelayed\<close>,
  one turn of \<open>delayLoop\<close>, \<open>Shutdown\<close> and \<open>waitWorkers\<close> of \<open>worker.go\<close>. The loops take entries as
  the interface of the delay queue says, which gives their order and what they leave.
\<close>

section \<open>What the parts leave alone\<close>

lemma emit_frame [disp_simps]:
  "d_cfg (emit ob d) = d_cfg d" "d_handlers (emit ob d) = d_handlers d" "d_ready (emit ob d) = d_ready d"
  "d_stopped (emit ob d) = d_stopped d" "d_signal (emit ob d) = d_signal d" "d_shutdown (emit ob d) = d_shutdown d"
  "d_running (emit ob d) = d_running d" "d_executing (emit ob d) = d_executing d"
  "d_cancelled (emit ob d) = d_cancelled d" "d_table (emit ob d) = d_table d"
  "d_in_flight (emit ob d) = d_in_flight d" "d_job_names (emit ob d) = d_job_names d"
  "d_delay (emit ob d) = d_delay d" "d_ticks (emit ob d) = d_ticks d" "d_draws (emit ob d) = d_draws d"
  "d_store (emit ob d) = d_store d"
  by (simp_all add: emit_def)

text \<open>Every metric, event and log record changes only the list of outside calls.\<close>

definition quiet :: "('s disp \<Rightarrow> 's disp) \<Rightarrow> bool" where
  "quiet f \<longleftrightarrow> (\<forall>d. \<exists>obs. f d = d\<lparr>d_obs := obs\<rparr>)"

lemma quiet_emit: "\<exists>obs. emit ob d = d\<lparr>d_obs := obs\<rparr>"
  by (auto simp: emit_def)

lemma quiet_event: "\<exists>obs. emit_task_event a n k e d = d\<lparr>d_obs := obs\<rparr>"
  by (cases "cfg_event_hook (d_cfg d)")
    (auto simp: emit_task_event_def emit_def intro: exI [of _ "d_obs d"])

lemma quiet_metric: "\<exists>obs. emit_task_event a n k e (if b then emit ob d else d) = d\<lparr>d_obs := obs\<rparr>"
  by (cases b; cases "cfg_event_hook (d_cfg d)")
    (auto simp: emit_task_event_def emit_def intro: exI [of _ "d_obs d"])

lemma quiet_all:
  "quiet (metric_queued n k)" "quiet (metric_running n k)" "quiet (metric_completed n t)"
  "quiet (metric_failed n e)" "quiet (metric_retried n k)" "quiet (metric_dropped n)"
  "quiet (metric_skipped n)" "quiet (metric_replaced n)" "quiet (log_submit j)" "quiet (log_start j)"
  "quiet (log_completed j t)" "quiet (log_retry j t e)" "quiet (log_skipped j)" "quiet (log_replaced j)"
  "quiet log_shutdown" "quiet (log_error j e)" "quiet (emit ob)"
  unfolding quiet_def metric_queued_def metric_running_def metric_completed_def metric_failed_def
    metric_retried_def metric_dropped_def metric_skipped_def metric_replaced_def log_submit_def
    log_start_def log_completed_def log_retry_def log_skipped_def log_replaced_def log_shutdown_def
    log_error_def
  using quiet_metric quiet_emit by blast+

lemma quiet_frame:
  assumes "quiet f"
  shows "d_cfg (f d) = d_cfg d" "d_handlers (f d) = d_handlers d" "d_ready (f d) = d_ready d"
    "d_stopped (f d) = d_stopped d" "d_signal (f d) = d_signal d" "d_shutdown (f d) = d_shutdown d"
    "d_running (f d) = d_running d" "d_executing (f d) = d_executing d" "d_cancelled (f d) = d_cancelled d"
    "d_table (f d) = d_table d" "d_in_flight (f d) = d_in_flight d" "d_job_names (f d) = d_job_names d"
    "d_delay (f d) = d_delay d" "d_ticks (f d) = d_ticks d" "d_draws (f d) = d_draws d" "d_store (f d) = d_store d"
proof -
  obtain obs where "f d = d\<lparr>d_obs := obs\<rparr>" using assms unfolding quiet_def by blast
  then show "d_cfg (f d) = d_cfg d" "d_handlers (f d) = d_handlers d" "d_ready (f d) = d_ready d"
    "d_stopped (f d) = d_stopped d" "d_signal (f d) = d_signal d" "d_shutdown (f d) = d_shutdown d"
    "d_running (f d) = d_running d" "d_executing (f d) = d_executing d" "d_cancelled (f d) = d_cancelled d"
    "d_table (f d) = d_table d" "d_in_flight (f d) = d_in_flight d" "d_job_names (f d) = d_job_names d"
    "d_delay (f d) = d_delay d" "d_ticks (f d) = d_ticks d" "d_draws (f d) = d_draws d" "d_store (f d) = d_store d"
    by simp_all
qed

lemmas metric_frames [disp_simps] = quiet_all [THEN quiet_frame(1)] quiet_all [THEN quiet_frame(2)]
  quiet_all [THEN quiet_frame(3)] quiet_all [THEN quiet_frame(4)] quiet_all [THEN quiet_frame(5)]
  quiet_all [THEN quiet_frame(6)] quiet_all [THEN quiet_frame(7)] quiet_all [THEN quiet_frame(8)]
  quiet_all [THEN quiet_frame(9)] quiet_all [THEN quiet_frame(10)] quiet_all [THEN quiet_frame(11)]
  quiet_all [THEN quiet_frame(12)] quiet_all [THEN quiet_frame(13)] quiet_all [THEN quiet_frame(14)]
  quiet_all [THEN quiet_frame(15)] quiet_all [THEN quiet_frame(16)]

lemma set_status_frame [disp_simps]:
  "d_cfg (set_status i st d) = d_cfg d" "d_handlers (set_status i st d) = d_handlers d"
  "d_ready (set_status i st d) = d_ready d" "d_stopped (set_status i st d) = d_stopped d"
  "d_signal (set_status i st d) = d_signal d" "d_shutdown (set_status i st d) = d_shutdown d"
  "d_running (set_status i st d) = d_running d" "d_executing (set_status i st d) = d_executing d"
  "d_cancelled (set_status i st d) = d_cancelled d" "d_in_flight (set_status i st d) = d_in_flight d"
  "d_job_names (set_status i st d) = d_job_names d" "d_delay (set_status i st d) = d_delay d"
  "d_store (set_status i st d) = d_store d" "d_table (set_status i st d) = mark_status (d_table d) i st"
  "d_ticks (set_status i st d) = d_ticks d" "d_draws (set_status i st d) = d_draws d"
  by (simp_all add: set_status_def)

lemma release_job_frame [disp_simps]:
  "d_cfg (release_job n i d) = d_cfg d" "d_handlers (release_job n i d) = d_handlers d"
  "d_ready (release_job n i d) = d_ready d" "d_stopped (release_job n i d) = d_stopped d"
  "d_signal (release_job n i d) = d_signal d" "d_shutdown (release_job n i d) = d_shutdown d"
  "d_running (release_job n i d) = d_running d" "d_executing (release_job n i d) = d_executing d"
  "d_cancelled (release_job n i d) = d_cancelled d" "d_delay (release_job n i d) = d_delay d"
  "d_store (release_job n i d) = d_store d" "d_table (release_job n i d) = d_table d"
  "d_ticks (release_job n i d) = d_ticks d" "d_draws (release_job n i d) = d_draws d"
  "d_job_names (release_job n i d) = (d_job_names d)(i := None)"
  "d_in_flight (release_job n i d) = (if cfg_conflict (d_cfg d) = ConflictAllow then d_in_flight d
     else drop_in_flight (d_in_flight d) n i)"
  by (simp_all add: release_job_def release_in_flight_def)

lemma store_delete_frame [disp_simps]:
  "d_cfg (store_delete i d) = d_cfg d" "d_handlers (store_delete i d) = d_handlers d"
  "d_ready (store_delete i d) = d_ready d" "d_stopped (store_delete i d) = d_stopped d"
  "d_signal (store_delete i d) = d_signal d" "d_shutdown (store_delete i d) = d_shutdown d"
  "d_running (store_delete i d) = d_running d" "d_executing (store_delete i d) = d_executing d"
  "d_cancelled (store_delete i d) = d_cancelled d" "d_delay (store_delete i d) = d_delay d"
  "d_table (store_delete i d) = d_table d" "d_in_flight (store_delete i d) = d_in_flight d"
  "d_job_names (store_delete i d) = d_job_names d" "d_ticks (store_delete i d) = d_ticks d"
  "d_draws (store_delete i d) = d_draws d"
  "d_store (store_delete i d) = (case cfg_store (d_cfg d) of None \<Rightarrow> d_store d
     | Some ops \<Rightarrow> fst (st_delete ops (d_store d) i))"
  by (simp_all add: store_delete_def split: option.splits)

section \<open>The loops of the delay scheduler\<close>

lemma length_heap_pop: "h \<noteq> [] \<Longrightarrow> length (fst (heap_pop h)) < length h"
  using heap_down_basic [of "length h - 1" "delay_swap h 0 (length h - 1)" 0]
  by (simp add: heap_pop_def Let_def delay_take_last_def)

text \<open>
  \<open>now\<close> is the one reading of the wall clock \<open>popDue\<close> makes; it does not use the configured clock. The
  result is the entry the loop holds while it waits for room in the ready queue, or none when
  \<open>popDue\<close> has returned. An error of the push is dropped, as in the code.
\<close>

function pop_due :: "time \<Rightarrow> 's disp \<Rightarrow> 's disp \<times> job option" where
  "pop_due now d =
     (if d_delay d = [] then (d, None)
      else if now < job_run_at (d_delay d ! 0) then (d, None)
      else
        (let j = snd (heap_pop (d_delay d));
             d1 = d\<lparr>d_delay := fst (heap_pop (d_delay d))\<rparr>
         in if is_cancelled (job_id j) d1 then
              pop_due now (release_job (job_name j) (job_id j) (set_status (job_id j) StatusCancelled d1))
            else
              (let d2 = d1\<lparr>d_ready := fst (rq_push None (d_ready d1) j False)\<rparr>
               in if snd (rq_push None (d_ready d1) j False) = NoReturn then (d2, Some j)
                  else pop_due now (metric_queued (job_name j) 1 (set_status (job_id j) StatusQueued d2)))))"
  by pat_completeness auto
termination
  by (relation "measure (\<lambda>(now, d). length (d_delay d))") (simp_all add: length_heap_pop disp_simps)

function drain_delayed :: "'s disp \<Rightarrow> 's disp" where
  "drain_delayed d =
     (if d_delay d = [] then d
      else
        (let j = snd (heap_pop (d_delay d));
             d1 = d\<lparr>d_delay := fst (heap_pop (d_delay d))\<rparr>;
             d2 = store_delete (job_id j) d1;
             d3 = metric_dropped (job_name j) d2;
             d4 = set_status (job_id j) StatusCancelled d3
         in drain_delayed (release_job (job_name j) (job_id j) d4)))"
  by pat_completeness auto
termination
  by (relation "measure (\<lambda>d. length (d_delay d))") (simp_all add: length_heap_pop disp_simps Let_def)

declare pop_due.simps [simp del] drain_delayed.simps [simp del]

text \<open>
  What holds after the loops: \<open>P\<close> is kept by each pass of the loop, \<open>Q\<close> holds where it ends, at its
  end or in its wait for room.
\<close>

lemma pop_due_rule [consumes 1, case_names over cancelled pushed held]:
  assumes "P d"
    and over: "\<And>d. P d \<Longrightarrow> Q (d, None)"
    and cancelled: "\<And>d h j. P d \<Longrightarrow> d_delay d \<noteq> [] \<Longrightarrow> heap_pop (d_delay d) = (h, j) \<Longrightarrow>
      P (release_job (job_name j) (job_id j) (set_status (job_id j) StatusCancelled (d\<lparr>d_delay := h\<rparr>)))"
    and pushed: "\<And>d h j q r. P d \<Longrightarrow> d_delay d \<noteq> [] \<Longrightarrow> heap_pop (d_delay d) = (h, j) \<Longrightarrow>
      rq_push None (d_ready d) j False = (q, r) \<Longrightarrow> r \<noteq> NoReturn \<Longrightarrow>
      P (metric_queued (job_name j) 1 (set_status (job_id j) StatusQueued (d\<lparr>d_delay := h, d_ready := q\<rparr>)))"
    and held: "\<And>d h j q. P d \<Longrightarrow> d_delay d \<noteq> [] \<Longrightarrow> heap_pop (d_delay d) = (h, j) \<Longrightarrow>
      rq_push None (d_ready d) j False = (q, NoReturn) \<Longrightarrow> Q (d\<lparr>d_delay := h, d_ready := q\<rparr>, Some j)"
  shows "Q (pop_due now d)"
  using assms(1)
proof (induction now d rule: pop_due.induct)
  case (1 now d)
  show ?case
  proof (cases "d_delay d = [] \<or> now < job_run_at (d_delay d ! 0)")
    case True
    with over [OF 1(3)] show ?thesis by (subst pop_due.simps) auto
  next
    case False
    then have F: "\<not> d_delay d = []" "\<not> now < job_run_at (d_delay d ! 0)" by simp_all
    obtain h j where h: "heap_pop (d_delay d) = (h, j)" by fastforce
    obtain q r where q: "rq_push None (d_ready d) j False = (q, r)" by fastforce
    show ?thesis
    proof (cases "is_cancelled (job_id j) (d\<lparr>d_delay := h\<rparr>)")
      case True
      with 1(1) [OF F refl refl] cancelled [OF 1(3) F(1) h] F h show ?thesis
        by (subst pop_due.simps) (simp add: Let_def)
    next
      case False
      with 1(2) [OF F refl refl] pushed [OF 1(3) F(1) h q] held [OF 1(3) F(1) h] F h q show ?thesis
        by (subst pop_due.simps) (simp add: Let_def)
    qed
  qed
qed

lemma drain_rule [consumes 1, case_names entry]:
  assumes "P d"
    and entry: "\<And>d h j. P d \<Longrightarrow> d_delay d \<noteq> [] \<Longrightarrow> heap_pop (d_delay d) = (h, j) \<Longrightarrow>
      P (release_job (job_name j) (job_id j) (set_status (job_id j) StatusCancelled
        (metric_dropped (job_name j) (store_delete (job_id j) (d\<lparr>d_delay := h\<rparr>)))))"
  shows "P (drain_delayed d)"
  using assms(1)
proof (induction d rule: drain_delayed.induct)
  case (1 d)
  obtain h j where h: "heap_pop (d_delay d) = (h, j)" by fastforce
  show ?case
  proof (cases "d_delay d = []")
    case False
    with 1(1) [OF False refl refl refl refl refl] entry [OF 1(2) False h] h show ?thesis
      by (subst drain_delayed.simps) (simp add: Let_def)
  qed (use 1(2) in \<open>subst drain_delayed.simps, simp\<close>)
qed

text \<open>\<open>popDue\<close> from its wait on: the push is tried again, and the loop goes on when it has returned.\<close>

definition pop_due_resume :: "time \<Rightarrow> job \<Rightarrow> 's disp \<Rightarrow> 's disp \<times> job option" where
  "pop_due_resume now j d =
     (let d1 = d\<lparr>d_ready := fst (rq_push None (d_ready d) j False)\<rparr>
      in if snd (rq_push None (d_ready d) j False) = NoReturn then (d1, Some j)
         else pop_due now (metric_queued (job_name j) 1 (set_status (job_id j) StatusQueued d1)))"

text \<open>
  One turn of \<open>delayLoop\<close>, given what its \<open>select\<close> receives. \<open>TimerFired now\<close> is possible when the
  heap is not empty; the timer was set for the earliest \<open>RunAt\<close>, and \<open>now\<close> is the time \<open>popDue\<close> reads.
\<close>

datatype wake = TimerFired time | Signalled | StopClosed

text \<open>\<open>LoopHolds j now\<close>: \<open>popDue\<close>, called at \<open>now\<close>, waits for room for the entry \<open>j\<close>.\<close>

datatype loop_result = LoopAgain | LoopExit | LoopHolds job time

definition popped :: "time \<Rightarrow> 's disp \<times> job option \<Rightarrow> 's disp \<times> loop_result" where
  "popped now r = (fst r, case snd r of None \<Rightarrow> LoopAgain | Some j \<Rightarrow> LoopHolds j now)"

definition delay_turn :: "wake \<Rightarrow> 's disp \<Rightarrow> ('s disp \<times> loop_result) option" where
  "delay_turn w d =
     (case w of
        Signalled \<Rightarrow> if d_signal d then Some (d\<lparr>d_signal := False\<rparr>, LoopAgain) else None
      | StopClosed \<Rightarrow> if d_stopped d then Some (drain_delayed d, LoopExit) else None
      | TimerFired now \<Rightarrow>
          if d_delay d = [] then None
          else Some (popped now (pop_due now d)))"

section \<open>Shutdown\<close>

definition shutdown_begin :: "'s disp \<Rightarrow> 's disp" where
  "shutdown_begin d =
     (let d1 = d\<lparr>d_running := False\<rparr>; d2 = d1\<lparr>d_stopped := True\<rparr>
      in d2\<lparr>d_ready := rq_close (d_ready d2)\<rparr>)"

text \<open>
  \<open>waitWorkers\<close>: either all goroutines have ended first (\<open>None\<close>), or the context ended with \<open>c\<close> and
  the cancel function of every running job is called.
\<close>

definition wait_workers :: "ctx_error option \<Rightarrow> 's disp \<Rightarrow> 's disp \<times> go_err option" where
  "wait_workers first d =
     (case first of
        None \<Rightarrow> (d, None)
      | Some c \<Rightarrow> (d\<lparr>d_executing := map (\<lambda>(i, c). (i, True)) (d_executing d)\<rparr>, Some (CtxFailed c)))"

text \<open>\<open>during\<close> is what the workers and the delay loop do while \<open>Shutdown\<close> waits.\<close>

definition shutdown ::
  "('s disp \<Rightarrow> 's disp) \<Rightarrow> ctx_error option \<Rightarrow> 's disp \<Rightarrow> 's disp \<times> go_err option" where
  "shutdown during first d =
     (case d_shutdown d of
        Some r \<Rightarrow> (d, r)
      | None \<Rightarrow>
          (case wait_workers first (during (shutdown_begin d)) of
             (d1, r) \<Rightarrow> ((log_shutdown d1)\<lparr>d_shutdown := Some r\<rparr>, r)))"

end
