(* ===== verification/Worker.thy ===== *)
theory Worker
  imports Delay_Loop
begin

text \<open>
  \<open>internal/core/worker.go\<close>: the execution of one entry. \<open>run_begin\<close> is \<open>runEntry\<close> up to the call
  of the handler, \<open>run_end\<close> what follows it, deferred calls included; between the two the other
  goroutines, and the handler itself, may act on the dispatcher. A handler is code of the user: it
  returns an error or nil, or panics.
\<close>

datatype handler_result = Returned "go_err option" | Panicked nat

definition run_cleanup :: "job \<Rightarrow> 's disp \<Rightarrow> 's disp" where
  "run_cleanup j d =
     (let d1 = d\<lparr>d_executing := AList.delete (job_id j) (d_executing d)\<rparr>;
          d2 = metric_running (job_name j) (- 1) d1;
          d3 = release_job (job_name j) (job_id j) d2
      in store_delete (job_id j) d3)"

text \<open>Without a hook \<open>traceStart\<close> gives a function that does nothing as the end of the span.\<close>

definition trace_start :: "job \<Rightarrow> 's disp \<Rightarrow> 's disp" where
  "trace_start j d =
     (if cfg_trace_hook (d_cfg d) then emit (SpanStart (job_name j) (job_id j) (job_attempt j)) d else d)"

declare trace_start_def [simp]

text \<open>
  The result of \<open>run_begin\<close> is the handler to call, the start time and the timeout of its context,
  or \<open>None\<close> when the entry ends without a call.
\<close>

definition run_begin :: "job \<Rightarrow> 's disp \<Rightarrow> 's disp \<times> (nat \<times> time \<times> duration option) option" where
  "run_begin j d =
     (let d1 = metric_queued (job_name j) (- 1) d
      in if is_cancelled (job_id j) d1 then
           (release_job (job_name j) (job_id j) (set_status (job_id j) StatusCancelled d1), None)
         else
           (let d2 = set_status (job_id j) StatusRunning d1;
                d3 = metric_running (job_name j) 1 d2;
                d4 = d3\<lparr>d_executing := AList.update (job_id j) False (d_executing d3)\<rparr>
            in case d_handlers d4 (job_name j) of
                 None \<Rightarrow>
                   (let d5 = set_status (job_id j) StatusFailed d4;
                        d6 = metric_failed (job_name j) (Wrapped CodeHandlerNotFound ErrHandlerNotFound) d5;
                        d7 = log_error j ErrHandlerNotFound d6
                    in (run_cleanup j d7, None))
               | Some h \<Rightarrow>
                   (case clock_read d4 of
                      (start, d5) \<Rightarrow>
                        (let d6 = log_start j d5;
                             d7 = trace_start j d6
                         in (d7, Some (h, start, if 0 < job_timeout j then Some (job_timeout j) else None))))))"

text \<open>The job the retry queues. A negative \<open>Attempt\<close> would make the shift panic.\<close>

definition backoff :: "job \<Rightarrow> duration" where
  "backoff j = shl64 (job_retry_delay j) (nat (job_attempt j))"

definition retry_job :: "job \<Rightarrow> time \<Rightarrow> job" where
  "retry_job j now = j\<lparr>job_attempt := wrap64 (job_attempt j + 1), job_run_at := now + backoff j\<rparr>"

definition schedule_retry :: "job \<Rightarrow> go_err \<Rightarrow> 's disp \<Rightarrow> 's disp \<times> (go_err, unit) outcome" where
  "schedule_retry j cause d =
     (if job_attempt j < 0 then (d, Panic)
      else
        (case clock_read d of
           (now, d1) \<Rightarrow>
             (let nxt = retry_job j now;
                  d2 = (case cfg_store (d_cfg d1) of
                          None \<Rightarrow> d1
                        | Some ops \<Rightarrow> d1\<lparr>d_store := fst (st_save ops (d_store d1) nxt)\<rparr>);
                  d3 = push_delayed nxt d2;
                  d4 = set_status (job_id nxt) StatusDelayed d3;
                  d5 = metric_retried (job_name j) (job_attempt nxt) d4
              in (log_retry j (job_run_at nxt) cause d5, Ok ()))))"

definition run_verdict :: "job \<Rightarrow> time \<Rightarrow> go_err option \<Rightarrow> 's disp \<Rightarrow> 's disp \<times> (go_err, unit) outcome" where
  "run_verdict j start err d =
     (if is_cancelled (job_id j) d then
        (log_error j (Coded CodeJobCancelled) (set_status (job_id j) StatusCancelled d), Ok ())
      else
        (case err of
           Some e \<Rightarrow>
             if 0 < job_max_retries j \<and> job_attempt j < job_max_retries j then schedule_retry j e d
             else (log_error j e (metric_failed (job_name j) e (set_status (job_id j) StatusFailed d)), Ok ())
         | None \<Rightarrow>
             (case clock_read (set_status (job_id j) StatusSucceeded d) of
                (t1, d1) \<Rightarrow>
                  (case clock_read (metric_completed (job_name j) (t1 - start) d1) of
                     (t2, d2) \<Rightarrow> (log_completed j (t2 - start) d2, Ok ())))))"

definition run_end :: "job \<Rightarrow> time \<Rightarrow> handler_result \<Rightarrow> 's disp \<Rightarrow> 's disp \<times> (go_err, unit) outcome" where
  "run_end j start res d =
     (let (d1, err) =
        (case res of
           Returned e \<Rightarrow> (if cfg_trace_hook (d_cfg d) then emit (SpanEnd e) d else d, e)
         | Panicked n \<Rightarrow>
             (emit (LogPanic (job_id j) (job_name j) n) d, Some (Wrapped CodeExecutionFailed (HandlerPanic n))))
      in case run_verdict j start err d1 of (d2, r) \<Rightarrow> (run_cleanup j d2, r))"

text \<open>\<open>hs h\<close> is what happens during a call of handler \<open>h\<close>, to the dispatcher and as its result.\<close>

definition run_entry ::
  "(nat \<Rightarrow> job \<Rightarrow> duration option \<Rightarrow> 's disp \<Rightarrow> 's disp \<times> handler_result) \<Rightarrow> job \<Rightarrow>
   's disp \<Rightarrow> 's disp \<times> (go_err, unit) outcome" where
  "run_entry hs j d =
     (case run_begin j d of
        (d1, None) \<Rightarrow> (d1, Ok ())
      | (d1, Some (h, start, timeout)) \<Rightarrow>
          (case hs h j timeout d1 of (d2, res) \<Rightarrow> run_end j start res d2))"

text \<open>One turn of the loop of \<open>worker\<close>: whether it goes on, and \<open>NoReturn\<close> while the queue is empty.\<close>

definition worker_turn ::
  "(nat \<Rightarrow> job \<Rightarrow> duration option \<Rightarrow> 's disp \<Rightarrow> 's disp \<times> handler_result) \<Rightarrow>
   's disp \<Rightarrow> 's disp \<times> (go_err, bool) outcome" where
  "worker_turn hs d =
     (case rq_pop (d_ready d) of
        (q', Ok (Some j)) \<Rightarrow>
          (case run_entry hs j (d\<lparr>d_ready := q'\<rparr>) of
             (d1, Ok u) \<Rightarrow> (d1, Ok True)
           | (d1, Err e) \<Rightarrow> (d1, Err e)
           | (d1, Panic) \<Rightarrow> (d1, Panic)
           | (d1, NoReturn) \<Rightarrow> (d1, NoReturn))
      | (q', Ok None) \<Rightarrow> (d\<lparr>d_ready := q'\<rparr>, Ok False)
      | (q', Err e) \<Rightarrow> (d\<lparr>d_ready := q'\<rparr>, Err e)
      | (q', Panic) \<Rightarrow> (d\<lparr>d_ready := q'\<rparr>, Panic)
      | (q', NoReturn) \<Rightarrow> (d\<lparr>d_ready := q'\<rparr>, NoReturn))"

end
