(* ===== verification/Dispatcher_Inv.thy ===== *)
theory Dispatcher_Inv
  imports Worker
begin

text \<open>
  The invariant of a dispatcher and the interleavings of its operations. A step of the system is
  one call of the API, one turn of the delay loop, a worker taking an entry up to the call of the
  handler, or a handler's return with what follows; so any number of handlers run between the
  steps, and operations come in any order.
\<close>

section \<open>The invariant\<close>

definition good_job :: "job \<Rightarrow> bool" where
  "good_job j \<longleftrightarrow> 0 \<le> job_attempt j \<and> job_attempt j \<le> job_max_retries j \<and> job_max_retries j \<le> 100 \<and>
     0 \<le> job_retry_delay j \<and> 0 \<le> job_timeout j"

definition queue_fits :: "'s config \<Rightarrow> ready_queue \<Rightarrow> bool" where
  "queue_fits c q \<longleftrightarrow> rq_cap q = nat (cfg_queue_size c) \<and> length (rq_items q) \<le> rq_cap q \<and>
     (\<forall>j\<in>set (rq_items q). good_job j)"

definition delay_fits :: "job list \<Rightarrow> bool" where
  "delay_fits h \<longleftrightarrow> is_heap h \<and> (\<forall>j\<in>set h. good_job j)"

definition flight_fits :: "'s config \<Rightarrow> in_flight \<Rightarrow> bool" where
  "flight_fits c f \<longleftrightarrow> in_flight_ok f \<and> (cfg_conflict c = ConflictAllow \<longrightarrow> f = Map.empty)"

text \<open>
  \<open>disp_ok b d\<close>: the dispatcher \<open>d\<close> is well formed, and may have developed from \<open>b\<close>: the same
  configuration, and no handler, no cancellation mark, no stop and no drawn identifier taken back.
\<close>

definition disp_ok :: "'s disp \<Rightarrow> 's disp \<Rightarrow> bool" where
  "disp_ok b d \<longleftrightarrow>
     d_cfg b = d_cfg d \<and> d_cancelled b \<subseteq> d_cancelled d \<and> (d_stopped b \<longrightarrow> d_stopped d) \<and>
     d_handlers b \<subseteq>\<^sub>m d_handlers d \<and> d_draws b \<le> d_draws d \<and>
     valid_config (d_cfg d) \<and> queue_fits (d_cfg d) (d_ready d) \<and> delay_fits (d_delay d) \<and>
     table_ok (d_table d) \<and> flight_fits (d_cfg d) (d_in_flight d) \<and>
     (d_running d \<longleftrightarrow> \<not> d_stopped d) \<and> (rq_closed (d_ready d) \<longleftrightarrow> d_stopped d) \<and>
     distinct (map fst (d_executing d))"

lemma disp_ok_refl: "disp_ok b d \<Longrightarrow> disp_ok d d"
  by (simp add: disp_ok_def)

lemma disp_ok_trans:
  assumes "disp_ok a b" "disp_ok b d"
  shows "disp_ok a d"
proof -
  have "d_handlers a \<subseteq>\<^sub>m d_handlers d" using assms map_le_trans unfolding disp_ok_def by blast
  then show ?thesis using assms by (simp add: disp_ok_def) blast
qed

lemmas disp_ok_simps = disp_ok_def disp_simps

section \<open>Queue, heap and in-flight table\<close>

lemma queue_fits_push:
  assumes "queue_fits c q" "good_job j" "rq_push ctx q j dr = (q', r)"
  shows "queue_fits c q' \<and> rq_closed q' = rq_closed q \<and> r \<noteq> Panic"
  using assms by (auto simp: rq_push_def push_attempt_def rq_signal_def queue_fits_def split: if_splits option.splits)

lemma rq_push_items:
  assumes "rq_push ctx q j dr = (q', r)"
  shows "rq_items q' = (if r = Ok () then rq_items q @ [j] else rq_items q)"
  using assms by (auto simp: rq_push_def push_attempt_def rq_signal_def split: if_splits option.splits)

lemma queue_fits_pop:
  assumes "queue_fits c q" "rq_pop q = (q', r)"
  shows "queue_fits c q' \<and> rq_closed q' = rq_closed q \<and> (\<forall>j. r = Ok (Some j) \<longrightarrow> good_job j)"
  using assms by (auto simp: rq_pop_def pop_attempt_def rq_signal_def queue_fits_def split: if_splits list.splits)

lemma remove_first_subset:
  "remove_first jid es = Some es' \<Longrightarrow> set es' \<subseteq> set es \<and> length es' \<le> length es"
  using remove_first_Some [of jid es es'] by auto

lemma queue_fits_remove: "queue_fits c q \<Longrightarrow> queue_fits c (fst (rq_remove q jid))"
  using remove_first_subset [of jid "rq_items q"]
  by (fastforce simp: rq_remove_def queue_fits_def split: option.splits)

lemma rq_remove_closed [simp]: "rq_closed (fst (rq_remove q jid)) = rq_closed q"
  by (simp add: rq_remove_def split: option.splits)

lemma delay_fits_push: "delay_fits h \<Longrightarrow> good_job j \<Longrightarrow> delay_fits (heap_push h j)"
  unfolding delay_fits_def using heap_push_spec [of h j] by (metis insert_iff set_mset_add_mset_insert set_mset_mset)

lemma delay_fits_pop:
  assumes "delay_fits h" "h \<noteq> []"
  shows "delay_fits (fst (heap_pop h)) \<and> good_job (snd (heap_pop h))"
proof -
  have s: "is_heap (fst (heap_pop h)) \<and> snd (heap_pop h) = h ! 0 \<and>
      mset h = add_mset (h ! 0) (mset (fst (heap_pop h)))"
    using assms heap_pop_spec [of h] by (simp add: delay_fits_def)
  then have "set h = insert (h ! 0) (set (fst (heap_pop h)))" by (metis set_mset_add_mset_insert set_mset_mset)
  with s assms show ?thesis by (auto simp: delay_fits_def)
qed

lemma heap_remove_id_subset:
  assumes "is_heap h"
  shows "set (heap_remove_id h jid) \<subseteq> set h"
proof (cases "jid \<in> job_id ` set h")
  case True
  then obtain j where "mset h = add_mset j (mset (heap_remove_id h jid))"
    using heap_remove_id_spec [OF assms, of jid] by auto
  then show ?thesis by (metis set_mset_add_mset_insert set_mset_mset subset_insertI)
next
  case False
  then show ?thesis using heap_remove_id_spec [OF assms, of jid] by simp
qed

lemma delay_fits_remove: "delay_fits h \<Longrightarrow> delay_fits (heap_remove_id h jid)"
  using heap_remove_id_spec [of h jid] heap_remove_id_subset [of h jid] by (auto simp: delay_fits_def)

lemma flight_fits_drop: "flight_fits c f \<Longrightarrow> cfg_conflict c \<noteq> ConflictAllow \<Longrightarrow> flight_fits c (drop_in_flight f n i)"
  by (simp add: flight_fits_def drop_in_flight_ok)

lemma flight_fits_add: "flight_fits c f \<Longrightarrow> cfg_conflict c \<noteq> ConflictAllow \<Longrightarrow> flight_fits c (add_in_flight f n i)"
  by (simp add: flight_fits_def add_in_flight_ok)

lemma flight_fits_clear: "flight_fits c f \<Longrightarrow> flight_fits c (f(n := None))"
  by (auto simp: flight_fits_def clear_in_flight_ok)

section \<open>Parts of the operations\<close>

lemma quiet_ok: "quiet f \<Longrightarrow> disp_ok b (f d) = disp_ok b d"
  by (simp add: disp_ok_def quiet_frame)

lemmas metrics_ok [disp_simps] = quiet_all [THEN quiet_ok]

lemma set_status_disp_ok: "disp_ok b d \<Longrightarrow> disp_ok b (set_status i st d)"
  by (simp add: disp_ok_simps mark_status_ok)

lemma release_job_ok: "disp_ok b d \<Longrightarrow> disp_ok b (release_job n i d)"
  by (simp add: disp_ok_simps flight_fits_drop)

lemma store_delete_ok: "disp_ok b d \<Longrightarrow> disp_ok b (store_delete i d)"
  by (simp add: disp_ok_simps)

lemma persist_ok: "disp_ok b d \<Longrightarrow> persist j d = (d', r) \<Longrightarrow> disp_ok b d'"
  by (auto simp: persist_def disp_ok_def split: option.splits prod.splits)

lemma clock_read_ok: "disp_ok b d \<Longrightarrow> clock_read d = (t, d') \<Longrightarrow> disp_ok b d'"
  by (auto simp: clock_read_def disp_ok_def)

lemma push_delayed_ok: "disp_ok b d \<Longrightarrow> good_job j \<Longrightarrow> disp_ok b (push_delayed j d)"
  by (simp add: disp_ok_def push_delayed_def delay_fits_push)

lemma set_ready_ok:
  "disp_ok b d \<Longrightarrow> good_job j \<Longrightarrow> rq_push ctx (d_ready d) j dr = (q', r) \<Longrightarrow> disp_ok b (d\<lparr>d_ready := q'\<rparr>)"
  using queue_fits_push [of "d_cfg d" "d_ready d" j ctx dr q' r] by (simp add: disp_ok_def)

lemma enqueue_ready_ok:
  assumes "disp_ok b d" "good_job j" "enqueue_ready ctx j d = (d', r)"
  shows "disp_ok b d'"
proof -
  obtain q' r' where p: "rq_push ctx (d_ready d) j (cfg_queue_policy (d_cfg d) = QueueFullDrop) = (q', r')"
    by fastforce
  have "disp_ok b (d\<lparr>d_ready := q'\<rparr>)" by (rule set_ready_ok [OF assms(1,2) p])
  with assms(3) p show ?thesis
    by (auto simp: enqueue_ready_def metrics_ok split: outcome.splits if_splits)
qed

lemma call_cancel_ok: "disp_ok b d \<Longrightarrow> disp_ok b (call_cancel i d)"
  by (auto simp: disp_ok_def call_cancel_def distinct_update)

lemma cancel_by_id_ok:
  assumes d: "disp_ok b d"
  shows "disp_ok b (cancel_by_id i d)"
proof -
  define d3 where "d3 = d\<lparr>d_delay := heap_remove_id (d_delay d) i,
    d_ready := fst (rq_remove (d_ready d) i), d_cancelled := insert i (d_cancelled d)\<rparr>"
  have d3: "disp_ok b d3" using d
    by (simp add: d3_def disp_ok_def delay_fits_remove queue_fits_remove subset_insertI2)
  have "cancel_by_id i d = set_status i StatusCancelled (call_cancel i (store_delete i
      (case d_job_names d3 i of None \<Rightarrow> d3 | Some name \<Rightarrow> release_job name i d3)))"
    by (cases "d_job_names d i") (simp_all add: cancel_by_id_def Let_def d3_def)
  then show ?thesis using d3
    by (auto intro!: set_status_disp_ok call_cancel_ok store_delete_ok release_job_ok split: option.split)
qed

lemma fold_cancel_ok: "disp_ok b d \<Longrightarrow> disp_ok b (fold cancel_by_id is d)"
  by (induction "is" arbitrary: d) (auto simp: cancel_by_id_ok)

lemma apply_conflict_ok:
  assumes "disp_ok b d" "apply_conflict j d = (d', r)"
  shows "disp_ok b d'"
proof -
  have c: "valid_config (d_cfg d)" and f: "flight_fits (d_cfg d) (d_in_flight d)" using assms(1) by (simp_all add: disp_ok_def)
  have add: "disp_ok b (d\<lparr>d_in_flight := add_in_flight g n i\<rparr>)"
    if "cfg_conflict (d_cfg d) \<noteq> ConflictAllow" "flight_fits (d_cfg d) g" for g n i
    using assms(1) that by (simp add: disp_ok_def flight_fits_add)
  show ?thesis
    using assms f
    by (auto simp: apply_conflict_def Let_def metrics_ok flight_fits_clear
        intro!: add fold_cancel_ok split: if_splits)
qed

lemma build_entry_ok:
  assumes "disp_ok b d" "build_entry rand name payload spec d = (d', r)"
  shows "disp_ok b d' \<and> (\<forall>j. r = Inr j \<longrightarrow> wf_spec spec \<longrightarrow> good_job j)"
  using assms
  by (auto simp: build_entry_def new_job_id_def clock_read_def disp_ok_def good_job_def wf_spec_def
      split: option.splits if_splits sum.splits prod.splits)

section \<open>The operations\<close>

lemma submit_push_ok:
  assumes "disp_ok b d" "good_job j" "submit_push ctx j d = (d', r)"
  shows "disp_ok b d'"
proof -
  obtain d1 r1 where e: "enqueue_ready ctx j d = (d1, r1)" by fastforce
  have "disp_ok b d1" by (rule enqueue_ready_ok [OF assms(1,2) e])
  with assms(3) e show ?thesis
    by (auto simp: submit_push_def submit_accepted_def metrics_ok release_job_ok store_delete_ok set_status_disp_ok
        split: outcome.splits)
qed

lemma submit_now_ok: "disp_ok b d \<Longrightarrow> good_job j \<Longrightarrow> submit_now ctx j d = (d', r) \<Longrightarrow> disp_ok b d'"
  by (auto simp: submit_now_def split: prod.splits option.splits
      intro: release_job_ok persist_ok submit_push_ok)

lemma submit_later_ok: "disp_ok b d \<Longrightarrow> good_job j \<Longrightarrow> submit_later j d = (d', r) \<Longrightarrow> disp_ok b d'"
  by (auto simp: submit_later_def metrics_ok split: prod.splits option.splits
      intro!: release_job_ok set_status_disp_ok push_delayed_ok dest: persist_ok)

lemma submit_entry_ok:
  assumes "disp_ok b d" "good_job j" "submit_entry ctx j d = (d', r)"
  shows "disp_ok b d'"
proof -
  obtain d1 e where a: "apply_conflict j d = (d1, e)" by fastforce
  have d1: "disp_ok b d1" by (rule apply_conflict_ok [OF assms(1) a])
  let ?d2 = "d1\<lparr>d_job_names := (d_job_names d1)(job_id j \<mapsto> job_name j)\<rparr>"
  have d2: "disp_ok b ?d2" using d1 by (simp add: disp_ok_def)
  obtain t d3 where c: "clock_read ?d2 = (t, d3)" by fastforce
  have d3: "disp_ok b d3" by (rule clock_read_ok [OF d2 c])
  show ?thesis
    using assms(3) a c d1 d2 d3 assms(2)
    by (auto simp: submit_entry_def Let_def split: option.splits if_splits
        intro: release_job_ok submit_now_ok submit_later_ok)
qed

text \<open>The options a caller can build: \<open>SubmitOption\<close> is a function on a type that is not exported.\<close>

inductive_set submit_options :: "submit_option set" where
  "with_timeout t \<in> submit_options"
| "with_run_at at \<in> submit_options"
| "with_retry n t \<in> submit_options"

lemma submit_options_spec:
  assumes "set opts \<subseteq> submit_options" "apply_opts opts empty_spec = Inr spec"
  shows "wf_spec spec"
proof (rule apply_opts_wf [OF assms(2) empty_spec_wf])
  fix f s s'
  assume "f \<in> set opts" "f s = Inr s'" "wf_spec s"
  then show "wf_spec s'" using assms(1) by (auto elim!: submit_options.cases dest: submit_options_wf)
qed

lemma submit_with_options_ok:
  assumes "disp_ok b d" "set opts \<subseteq> submit_options" "submit_with_options rand ctx name payload opts d = (d', r)"
  shows "disp_ok b d'"
  using assms submit_options_spec [OF assms(2)] build_entry_ok [OF assms(1)]
  by (fastforce simp: submit_with_options_def split: sum.splits prod.splits intro: submit_entry_ok)

lemma map_le_fresh: "m \<subseteq>\<^sub>m m' \<Longrightarrow> m' k = None \<Longrightarrow> m \<subseteq>\<^sub>m m'(k \<mapsto> v)"
  by (auto simp: map_le_def dom_def)

lemma register_handler_ok: "disp_ok b d \<Longrightarrow> register_handler name h d = (d', r) \<Longrightarrow> disp_ok b d'"
  by (auto simp: register_handler_def disp_ok_def map_le_fresh split: option.splits if_splits)

lemma cancel_ok: "disp_ok b d \<Longrightarrow> cancel i d = (d', r) \<Longrightarrow> disp_ok b d'"
  by (auto simp: cancel_def cancel_by_id_ok split: sum.splits)

lemma restore_push_ok:
  assumes "disp_ok b d" "good_job j" "restore_push ctx j d = (d', r)"
  shows "disp_ok b d' \<and> r \<noteq> Panic"
proof -
  obtain q' r' where p: "rq_push ctx (d_ready d) j False = (q', r')" by fastforce
  have "disp_ok b (d\<lparr>d_ready := q'\<rparr>)" by (rule set_ready_ok [OF assms(1,2) p])
  moreover have "r' \<noteq> Panic" using queue_fits_push [of "d_cfg d", OF _ assms(2) p] assms(1) by (simp add: disp_ok_def)
  ultimately show ?thesis using assms(3) p
    by (cases r') (auto simp: restore_push_def metrics_ok set_status_disp_ok)
qed

lemma restore_one_ok:
  assumes "disp_ok b d" "good_job j" "restore_one ctx j d = (d', r)"
  shows "disp_ok b d' \<and> r \<noteq> Panic"
proof (cases "d_handlers d (job_name j) = None")
  case True
  with assms show ?thesis by (auto simp: restore_one_def store_delete_ok metrics_ok)
next
  case False
  let ?d2 = "add_in_flight_for_restore (job_name j) (job_id j) (d\<lparr>d_job_names := (d_job_names d)(job_id j \<mapsto> job_name j)\<rparr>)"
  have "disp_ok b ?d2" using assms(1)
    by (auto simp: add_in_flight_for_restore_def disp_ok_def flight_fits_add)
  then obtain now d3 where c: "clock_read ?d2 = (now, d3)" and d3: "disp_ok b d3"
    using clock_read_ok by fastforce
  show ?thesis
    using assms(3) False c d3 restore_push_ok [OF d3 assms(2)] assms(2)
    by (auto simp: restore_one_def Let_def set_status_disp_ok push_delayed_ok split: if_splits)
qed

text \<open>An entry the delay loop holds.\<close>

definition good_held :: "job option \<Rightarrow> bool" where
  "good_held h \<longleftrightarrow> (case h of None \<Rightarrow> True | Some j \<Rightarrow> good_job j)"

lemma pop_entry_ok:
  assumes "disp_ok b d" "d_delay d \<noteq> []" "heap_pop (d_delay d) = (h, j)"
  shows "disp_ok b (d\<lparr>d_delay := h\<rparr>) \<and> good_job j"
  using assms delay_fits_pop [of "d_delay d"] by (simp add: disp_ok_def)

lemma due_cancelled_ok:
  assumes "disp_ok b d" "d_delay d \<noteq> []" "heap_pop (d_delay d) = (h, j)"
  shows "disp_ok b (release_job (job_name j) (job_id j) (set_status (job_id j) StatusCancelled (d\<lparr>d_delay := h\<rparr>)))"
  using pop_entry_ok [OF assms] by (simp add: release_job_ok set_status_disp_ok)

lemma due_queue_ok:
  assumes "disp_ok b d" "d_delay d \<noteq> []" "heap_pop (d_delay d) = (h, j)" "rq_push None (d_ready d) j False = (q, r)"
  shows "disp_ok b (d\<lparr>d_delay := h, d_ready := q\<rparr>)"
  using set_ready_ok [of b "d\<lparr>d_delay := h\<rparr>" j None False q r] pop_entry_ok [OF assms(1-3)] assms(4) by simp

lemma due_pushed_ok:
  assumes "disp_ok b d" "d_delay d \<noteq> []" "heap_pop (d_delay d) = (h, j)" "rq_push None (d_ready d) j False = (q, r)"
  shows "disp_ok b (metric_queued (job_name j) 1 (set_status (job_id j) StatusQueued (d\<lparr>d_delay := h, d_ready := q\<rparr>)))"
  using due_queue_ok [OF assms] by (simp add: metrics_ok set_status_disp_ok)

lemma drained_ok:
  assumes "disp_ok b d" "d_delay d \<noteq> []" "heap_pop (d_delay d) = (h, j)"
  shows "disp_ok b (release_job (job_name j) (job_id j) (set_status (job_id j) StatusCancelled
    (metric_dropped (job_name j) (store_delete (job_id j) (d\<lparr>d_delay := h\<rparr>)))))"
  using pop_entry_ok [OF assms] by (simp add: release_job_ok set_status_disp_ok metrics_ok store_delete_ok)

lemma pop_due_ok: "disp_ok b d \<Longrightarrow> disp_ok b (fst (pop_due now d)) \<and> good_held (snd (pop_due now d))"
proof (induction rule: pop_due_rule [where Q = "\<lambda>p. disp_ok b (fst p) \<and> good_held (snd p)"])
  case (held d h j q)
  then show ?case using due_queue_ok [OF held] pop_entry_ok [OF held(1-3)] by (simp add: good_held_def)
qed (simp_all add: good_held_def due_cancelled_ok due_pushed_ok)

lemma drain_delayed_ok: "disp_ok b d \<Longrightarrow> disp_ok b (drain_delayed d)"
  by (induction rule: drain_rule) (rule drained_ok)

lemma popped_ok:
  assumes "disp_ok b (fst p) \<and> good_held (snd p)" "popped now p = (d', r)"
  shows "disp_ok b d' \<and> (\<forall>j now. r = LoopHolds j now \<longrightarrow> good_job j)"
  using assms by (auto simp: popped_def good_held_def split: option.splits)

lemma pop_due_resume_ok:
  assumes "disp_ok b d" "good_job j"
  shows "disp_ok b (fst (pop_due_resume now j d)) \<and> good_held (snd (pop_due_resume now j d))"
proof -
  let ?d1 = "d\<lparr>d_ready := fst (rq_push None (d_ready d) j False)\<rparr>"
  have d1: "disp_ok b ?d1"
    by (rule set_ready_ok [OF assms, of None False _ "snd (rq_push None (d_ready d) j False)"]) simp
  then have "disp_ok b (metric_queued (job_name j) 1 (set_status (job_id j) StatusQueued ?d1))"
    by (simp add: metrics_ok set_status_disp_ok)
  from pop_due_ok [OF this, of now] d1 assms(2) show ?thesis
    by (auto simp: pop_due_resume_def Let_def good_held_def)
qed

lemma delay_turn_ok:
  assumes "disp_ok b d" "delay_turn w d = Some (d', r)"
  shows "disp_ok b d' \<and> (\<forall>j now. r = LoopHolds j now \<longrightarrow> good_job j)"
proof (cases w)
  case (TimerFired now)
  then have "popped now (pop_due now d) = (d', r)" using assms(2) by (auto simp: delay_turn_def split: if_splits)
  with pop_due_ok [OF assms(1), of now] show ?thesis by (rule popped_ok)
next
  case Signalled
  then have "d' = d\<lparr>d_signal := False\<rparr>" "r = LoopAgain" using assms(2) by (auto simp: delay_turn_def split: if_splits)
  with assms(1) show ?thesis by (simp add: disp_ok_def)
next
  case StopClosed
  with assms show ?thesis by (auto simp: delay_turn_def drain_delayed_ok split: if_splits)
qed

lemma shutdown_begin_ok: "disp_ok b d \<Longrightarrow> disp_ok b (shutdown_begin d)"
  by (simp add: shutdown_begin_def disp_ok_def queue_fits_def rq_close_def rq_signal_def Let_def)

lemma wait_workers_ok: "disp_ok b d \<Longrightarrow> wait_workers c d = (d', r) \<Longrightarrow> disp_ok b d'"
proof -
  have "map fst (map (\<lambda>(i, c). (i, True)) es) = map fst es" for es :: "(string \<times> bool) list" by auto
  then show "disp_ok b d \<Longrightarrow> wait_workers c d = (d', r) \<Longrightarrow> disp_ok b d'"
    by (auto simp: wait_workers_def disp_ok_def split: option.splits simp del: map_map)
qed

lemma run_cleanup_ok: "disp_ok b d \<Longrightarrow> disp_ok b (run_cleanup j d)"
  unfolding run_cleanup_def Let_def
  by (intro store_delete_ok release_job_ok) (simp add: metrics_ok, simp add: disp_ok_def distinct_delete)

lemma run_begin_ok:
  assumes "disp_ok b d" "run_begin j d = (d', r)"
  shows "disp_ok b d'"
proof -
  let ?d1 = "metric_queued (job_name j) (- 1) d"
  define d4 where "d4 = (metric_running (job_name j) 1 (set_status (job_id j) StatusRunning ?d1))
    \<lparr>d_executing := AList.update (job_id j) False (d_executing (metric_running (job_name j) 1 (set_status (job_id j) StatusRunning ?d1)))\<rparr>"
  have d1: "disp_ok b ?d1" using assms(1) by (simp add: metrics_ok)
  then have "disp_ok b (metric_running (job_name j) 1 (set_status (job_id j) StatusRunning ?d1))"
    by (simp add: metrics_ok set_status_disp_ok)
  then have d4: "disp_ok b d4" by (simp add: d4_def disp_ok_def distinct_update)
  obtain start d5 where c: "clock_read d4 = (start, d5)" by fastforce
  have d5: "disp_ok b d5" by (rule clock_read_ok [OF d4 c])
  show ?thesis
    using assms(2) d1 d4 d5 c
    by (auto simp: run_begin_def Let_def d4_def [symmetric] metrics_ok release_job_ok set_status_disp_ok run_cleanup_ok
        split: if_splits option.splits)
qed

lemma good_retry:
  assumes "good_job j" "job_attempt j < job_max_retries j"
  shows "good_job (retry_job j now)"
proof -
  have "in_int64 (job_attempt j + 1)" using assms by (simp add: good_job_def int64_defs)
  then have "wrap64 (job_attempt j + 1) = job_attempt j + 1" by (rule wrap64_id)
  with assms show ?thesis by (simp add: good_job_def retry_job_def)
qed

lemma schedule_retry_ok:
  assumes "disp_ok b d" "good_job j" "job_attempt j < job_max_retries j" "schedule_retry j e d = (d', r)"
  shows "disp_ok b d' \<and> r = Ok ()"
proof -
  obtain now d1 where c: "clock_read d = (now, d1)" by fastforce
  have "disp_ok b d1" by (rule clock_read_ok [OF assms(1) c])
  then have "disp_ok b (case cfg_store (d_cfg d1) of None \<Rightarrow> d1
      | Some ops \<Rightarrow> d1\<lparr>d_store := fst (st_save ops (d_store d1) (retry_job j now))\<rparr>)"
    by (auto simp: disp_ok_def split: option.splits)
  then show ?thesis
    using assms c good_retry [OF assms(2,3), of now]
    by (auto simp: schedule_retry_def good_job_def Let_def metrics_ok set_status_disp_ok push_delayed_ok)
qed

lemma run_verdict_ok:
  assumes "disp_ok b d" "good_job j" "run_verdict j start err d = (d', r)"
  shows "disp_ok b d' \<and> r = Ok ()"
proof -
  have ret: "disp_ok b d'' \<and> r' = Ok ()"
    if "schedule_retry j e d = (d'', r')" "job_attempt j < job_max_retries j" for e d'' r'
    using schedule_retry_ok [OF assms(1,2) that(2,1)] .
  have clk: "disp_ok b d''" if "clock_read x = (t, d'')" "disp_ok b x" for x :: "'a disp" and t d''
    using clock_read_ok that by blast
  show ?thesis
    using assms(1,3) ret
    by (auto simp: run_verdict_def metrics_ok set_status_disp_ok split: if_splits option.splits prod.splits
        dest!: clk)
qed

lemma run_end_ok:
  assumes "disp_ok b d" "good_job j" "run_end j start res d = (d', r)"
  shows "disp_ok b d' \<and> r = Ok ()"
proof -
  obtain d1 err where d1: "disp_ok b d1" and e: "run_end j start res d =
      (case run_verdict j start err d1 of (d2, r) \<Rightarrow> (run_cleanup j d2, r))"
  proof (cases res)
    case (Returned x)
    then show ?thesis
      using that [of "if cfg_trace_hook (d_cfg d) then emit (SpanEnd x) d else d" x] assms(1)
      by (simp add: run_end_def metrics_ok)
  next
    case (Panicked n)
    then show ?thesis
      using that [of "emit (LogPanic (job_id j) (job_name j) n) d"] assms(1) by (simp add: run_end_def metrics_ok)
  qed
  obtain d2 r2 where v: "run_verdict j start err d1 = (d2, r2)" by fastforce
  from run_verdict_ok [OF d1 assms(2) v] show ?thesis using e v assms(3) run_cleanup_ok by auto
qed

end
