(* ===== verification/Dispatcher_System.thy ===== *)
theory Dispatcher_System
  imports Dispatcher_Inv
begin

text \<open>
  A dispatcher with its callers, workers and delay loop as a step relation, and what holds in every
  state it reaches. A step is one call of the API, one turn of the delay loop, a worker taking an
  entry up to the call of its handler, or a handler's end with what follows it. Between the steps
  any number of handlers run, and submissions wait for room.
\<close>

section \<open>Steps\<close>

text \<open>
  \<open>w_active\<close> holds the jobs whose handlers run and their start times, \<open>w_waiting\<close> the submissions
  that wait for room in the ready queue, \<open>w_delay\<close> whether the delay loop is at its \<open>select\<close>, waits for
  room for an entry it has taken from the heap, or has returned, \<open>w_restores\<close> the calls of \<open>Restore\<close>
  that have not returned, with the jobs they have before them and whether they wait for room for the
  first, \<open>w_crashed\<close> whether a goroutine panicked outside a handler, which ends the process. A scheduler
  draws the identifiers of its entries from the same source, which is a step of its own (\<open>draw\<close>).
\<close>

datatype delay_state = DelayIdle | DelayHolds job time | DelayGone

fun delay_after :: "loop_result \<Rightarrow> delay_state" where
  "delay_after LoopAgain = DelayIdle"
| "delay_after LoopExit = DelayGone"
| "delay_after (LoopHolds j now) = DelayHolds j now"

record 's world =
  w_disp :: "'s disp"
  w_active :: "(job \<times> time) list"
  w_waiting :: "job list"
  w_delay :: delay_state
  w_restores :: "(bool \<times> job list) list"
  w_crashed :: bool

definition built_job ::
  "(nat \<Rightarrow> go_err + string) \<Rightarrow> string \<Rightarrow> string \<Rightarrow> submit_option list \<Rightarrow> 's disp \<Rightarrow> job option" where
  "built_job rand name payload opts d =
     (case apply_opts opts empty_spec of
        Inl e \<Rightarrow> None
      | Inr spec \<Rightarrow>
          (case build_entry rand name payload spec d of
             (d1, Inl e) \<Rightarrow> None
           | (d1, Inr j) \<Rightarrow> Some j))"

definition remove_nth :: "nat \<Rightarrow> 'a list \<Rightarrow> 'a list" where
  "remove_nth i xs = take i xs @ drop (Suc i) xs"

definition stored_good :: "'s disp \<Rightarrow> bool" where
  "stored_good d \<longleftrightarrow>
     (case cfg_store (d_cfg d) of
        None \<Rightarrow> True
      | Some ops \<Rightarrow>
          (case snd (st_list ops (d_store d)) of Inl e \<Rightarrow> True | Inr js \<Rightarrow> list_all good_job js))"

text \<open>
  \<open>Restore\<close> begins when the store lists jobs within the bounds submission gives them, and then takes
  one turn of its loop at a time. A turn that has waited for room starts at the push.
\<close>

definition restore_turn :: "bool \<Rightarrow> ctx_error option \<Rightarrow> job \<Rightarrow> 's disp \<Rightarrow> 's disp \<times> (go_err, bool) outcome" where
  "restore_turn waited ctx j d = (if waited then restore_push ctx j d else restore_one ctx j d)"

definition restores_after ::
  "nat \<Rightarrow> job list \<Rightarrow> (go_err, bool) outcome \<Rightarrow> (bool \<times> job list) list \<Rightarrow> (bool \<times> job list) list" where
  "restores_after i js r rs =
     (case r of
        Ok counted \<Rightarrow> rs[i := (False, tl js)]
      | NoReturn \<Rightarrow> rs[i := (True, js)]
      | _ \<Rightarrow> remove_nth i rs)"

inductive world_step :: "(nat \<Rightarrow> go_err + string) \<Rightarrow> 's world \<Rightarrow> 's world \<Rightarrow> bool" for rand where
  register: "register_handler name h (w_disp w) = (d', e) \<Longrightarrow> world_step rand w (w\<lparr>w_disp := d'\<rparr>)"
| submit: "set opts \<subseteq> submit_options \<Longrightarrow>
    submit_with_options rand ctx name payload opts (w_disp w) = (d', r) \<Longrightarrow>
    world_step rand w (w\<lparr>w_disp := d', w_waiting :=
      (case (r, built_job rand name payload opts (w_disp w)) of
         (NoReturn, Some j) \<Rightarrow> w_waiting w @ [j]
       | _ \<Rightarrow> w_waiting w)\<rparr>)"
| resume: "i < length (w_waiting w) \<Longrightarrow> submit_push ctx (w_waiting w ! i) (w_disp w) = (d', r) \<Longrightarrow>
    world_step rand w (w\<lparr>w_disp := d', w_waiting :=
      (if r = NoReturn then w_waiting w else remove_nth i (w_waiting w))\<rparr>)"
| cancel: "cancel jid (w_disp w) = (d', e) \<Longrightarrow> world_step rand w (w\<lparr>w_disp := d'\<rparr>)"
| restore: "cfg_store (d_cfg (w_disp w)) = Some ops \<Longrightarrow> stored_good (w_disp w) \<Longrightarrow>
    st_list ops (d_store (w_disp w)) = (s', l) \<Longrightarrow>
    world_step rand w (w\<lparr>w_disp := (w_disp w)\<lparr>d_store := s'\<rparr>, w_restores :=
      (case l of Inl e \<Rightarrow> w_restores w | Inr js \<Rightarrow> w_restores w @ [(False, js)])\<rparr>)"
| restore_next: "i < length (w_restores w) \<Longrightarrow> w_restores w ! i = (waited, j # js) \<Longrightarrow>
    restore_turn waited ctx j (w_disp w) = (d', r) \<Longrightarrow>
    world_step rand w (w\<lparr>w_disp := d', w_restores := restores_after i (j # js) r (w_restores w), w_crashed := (r = Panic)\<rparr>)"
| delay: "w_delay w = DelayIdle \<Longrightarrow> delay_turn wk (w_disp w) = Some (d', r) \<Longrightarrow>
    world_step rand w (w\<lparr>w_disp := d', w_delay := delay_after r\<rparr>)"
| delay_resume: "w_delay w = DelayHolds j now \<Longrightarrow>
    popped now (pop_due_resume now j (w_disp w)) = (d', r) \<Longrightarrow>
    world_step rand w (w\<lparr>w_disp := d', w_delay := delay_after r\<rparr>)"
| worker_take: "length (w_active w) < nat (cfg_workers (d_cfg (w_disp w))) \<Longrightarrow>
    rq_pop (d_ready (w_disp w)) = (q', Ok (Some j)) \<Longrightarrow>
    run_begin j ((w_disp w)\<lparr>d_ready := q'\<rparr>) = (d', r) \<Longrightarrow>
    world_step rand w (w\<lparr>w_disp := d', w_active :=
      (case r of None \<Rightarrow> w_active w | Some (h, start, timeout) \<Rightarrow> w_active w @ [(j, start)])\<rparr>)"
| handler_end: "i < length (w_active w) \<Longrightarrow> w_active w ! i = (j, start) \<Longrightarrow>
    run_end j start res (w_disp w) = (d', r) \<Longrightarrow>
    world_step rand w (w\<lparr>w_disp := d', w_active := remove_nth i (w_active w), w_crashed := (r = Panic)\<rparr>)"
| shut: "world_step rand w (w\<lparr>w_disp := shutdown_begin (w_disp w)\<rparr>)"
| shut_timeout: "wait_workers (Some c) (w_disp w) = (d', e) \<Longrightarrow> world_step rand w (w\<lparr>w_disp := d'\<rparr>)"
| draw: "new_job_id rand (w_disp w) = (d', r) \<Longrightarrow> world_step rand w (w\<lparr>w_disp := d'\<rparr>)"

inductive_cases world_stepE [consumes 1, case_names register submit resume cancel restore
  restore_next delay delay_resume
  worker_take handler_end shut shut_timeout draw]: "world_step rand w w'"

definition start_world :: "'s disp \<Rightarrow> 's world" where
  "start_world d = \<lparr>w_disp = d, w_active = [], w_waiting = [], w_delay = DelayIdle, w_restores = [], w_crashed = False\<rparr>"

inductive world_reach ::
  "(nat \<Rightarrow> go_err + string) \<Rightarrow> clock \<Rightarrow> 's \<Rightarrow> 's dispatcher_option list \<Rightarrow> 's world \<Rightarrow> bool"
  for rand time_now st opts where
  start: "set opts \<subseteq> known_options \<Longrightarrow> new_dispatcher time_now st opts = Inr d \<Longrightarrow>
    world_reach rand time_now st opts (start_world d)"
| step: "world_reach rand time_now st opts w \<Longrightarrow> world_step rand w w' \<Longrightarrow>
    world_reach rand time_now st opts w'"

text \<open>That the random identifiers all differ, for the properties that need it.\<close>

definition distinct_draws :: "(nat \<Rightarrow> go_err + string) \<Rightarrow> bool" where
  "distinct_draws rand \<longleftrightarrow> (\<forall>k l x. rand k = Inr x \<longrightarrow> rand l = Inr x \<longrightarrow> k = l)"

section \<open>The invariant\<close>

definition world_ok :: "'s disp \<Rightarrow> 's world \<Rightarrow> bool" where
  "world_ok b w \<longleftrightarrow> disp_ok b (w_disp w) \<and> list_all (good_job \<circ> fst) (w_active w) \<and>
     list_all good_job (w_waiting w) \<and> \<not> w_crashed w \<and> (\<forall>j now. w_delay w = DelayHolds j now \<longrightarrow> good_job j) \<and>
     length (w_active w) \<le> nat (cfg_workers (d_cfg b)) \<and> list_all (\<lambda>(waited, js). list_all good_job js) (w_restores w) \<and>
     (cfg_store (d_cfg b) = None \<longrightarrow> w_restores w = [])"

lemma remove_nth_subset: "set (remove_nth i xs) \<subseteq> set xs"
  using set_take_subset set_drop_subset by (fastforce simp: remove_nth_def)

lemma length_remove_nth: "length (remove_nth i xs) \<le> length xs"
  by (simp add: remove_nth_def)

lemma list_all_remove_nth: "list_all P xs \<Longrightarrow> list_all P (remove_nth i xs)"
  using remove_nth_subset [of i xs] by (auto simp: list_all_iff)

lemma new_dispatcher_ok:
  assumes "set opts \<subseteq> known_options" "new_dispatcher time_now st opts = Inr d"
  shows "disp_ok d d"
proof -
  obtain c where c: "apply_opts opts (default_config time_now) = Inr c"
    and d: "d_cfg d = c\<lparr>cfg_logger := normalize_logger (cfg_logger c)\<rparr>"
      "d_ready d = new_ready_queue (nat (cfg_queue_size c))" "d_delay d = []"
      "d_table d = empty_status_table" "d_in_flight d = Map.empty" "d_running d" "\<not> d_stopped d" "d_executing d = []"
    using assms(2) by (auto simp: new_dispatcher_def Let_def split: sum.splits)
  have "valid_config c"
  proof (rule apply_invariant [OF _ _ c])
    show "valid_config (default_config time_now :: 'a config)" by (rule default_config_valid)
    fix f and s s' :: "'a config"
    assume "f \<in> set opts" "f s = Inr s'" "valid_config s"
    then show "valid_config s'" using assms(1) known_option_valid by blast
  qed
  then have "valid_config (d_cfg d)" by (simp add: d valid_config_def)
  then show ?thesis using d
    by (simp add: disp_ok_def queue_fits_def new_ready_queue_def delay_fits_def is_heap_def heap_on_def
        empty_table_ok flight_fits_def)
qed

lemma built_job_good:
  "set opts \<subseteq> submit_options \<Longrightarrow> built_job rand name payload opts d = Some j \<Longrightarrow> disp_ok b d \<Longrightarrow> good_job j"
  using submit_options_spec [of opts] build_entry_ok [of b d rand name payload]
  by (fastforce simp: built_job_def split: sum.splits prod.splits)

lemma restore_turn_ok:
  "disp_ok b d \<Longrightarrow> good_job j \<Longrightarrow> restore_turn waited ctx j d = (d', r) \<Longrightarrow> disp_ok b d' \<and> r \<noteq> Panic"
  using restore_push_ok restore_one_ok by (simp add: restore_turn_def split: if_splits) blast+

lemma restores_after_good:
  assumes "list_all (\<lambda>(waited, js). list_all good_job js) rs" "list_all good_job js"
  shows "list_all (\<lambda>(waited, js). list_all good_job js) (restores_after i js r rs)"
proof -
  have up: "list_all P xs \<Longrightarrow> P x \<Longrightarrow> list_all P (xs[i := x])" for P and x :: "bool \<times> job list" and xs
    using set_update_subset_insert [of xs i x] by (auto simp: list_all_iff)
  have "list_all good_job (tl js)" using assms(2) by (cases js) simp_all
  then show ?thesis using assms by (auto simp: restores_after_def up list_all_remove_nth split: outcome.split)
qed

lemma restores_after_Nil: "rs = [] \<Longrightarrow> restores_after i js r rs = []"
  by (auto simp: restores_after_def remove_nth_def split: outcome.split)

lemma world_step_ok:
  assumes "world_step rand w w'" "world_ok b w"
  shows "world_ok b w'"
proof -
  have d: "disp_ok b (w_disp w)" and a: "list_all (good_job \<circ> fst) (w_active w)"
    and wt: "list_all good_job (w_waiting w)" and cr: "\<not> w_crashed w"
    and hd: "\<forall>j now. w_delay w = DelayHolds j now \<longrightarrow> good_job j"
    and len: "length (w_active w) \<le> nat (cfg_workers (d_cfg b))"
    and rs: "list_all (\<lambda>(waited, js). list_all good_job js) (w_restores w)"
    and no: "cfg_store (d_cfg b) = None \<longrightarrow> w_restores w = []"
    using assms(2) by (simp_all add: world_ok_def)
  show ?thesis using assms(1)
  proof (cases rule: world_stepE)
    case (register name h d' e)
    then show ?thesis using register_handler_ok [OF d] a wt cr hd len rs no by (simp add: world_ok_def)
  next
    case (submit opts ctx name payload d' r)
    have "list_all good_job (w_waiting w')"
      using submit(1) wt built_job_good [OF submit(2) _ d, of rand name payload]
      by (auto split: outcome.split option.split)
    then show ?thesis
      using submit(1) submit_with_options_ok [OF d submit(2,3)] a cr hd len rs no by (simp add: world_ok_def)
  next
    case (resume i ctx d' r)
    have "good_job (w_waiting w ! i)" using wt resume(2) by (simp add: list_all_length)
    then show ?thesis
      using resume submit_push_ok [OF d _ resume(3)] a wt cr hd len rs no by (simp add: world_ok_def list_all_remove_nth)
  next
    case (cancel jid d' e)
    then show ?thesis using cancel_ok [OF d] a wt cr hd len rs no by (simp add: world_ok_def)
  next
    case (restore ops s' l)
    have "disp_ok b ((w_disp w)\<lparr>d_store := s'\<rparr>)" using d by (simp add: disp_ok_def)
    moreover have "cfg_store (d_cfg b) \<noteq> None" using d restore(2) by (simp add: disp_ok_def)
    moreover have "list_all (\<lambda>(waited, js). list_all good_job js) (w_restores w')"
      using restore rs by (auto simp: stored_good_def split: sum.split)
    ultimately show ?thesis using restore(1) a wt cr hd len rs no by (auto simp: world_ok_def)
  next
    case (restore_next i waited j js ctx d' r)
    have "list_all good_job (j # js)" using rs restore_next(2,3) by (metis (no_types, lifting) list_all_length case_prodD)
    then have "good_job j" "list_all good_job (j # js)" by simp_all
    then show ?thesis
      using restore_next(1) restore_turn_ok [OF d _ restore_next(4)] a wt hd len rs no restores_after_good [OF rs]
        restores_after_Nil [of "w_restores w"] by (simp add: world_ok_def)
  next
    case (delay wk d' r)
    have "good_job j" if "delay_after r = DelayHolds j now" for j now
      using that delay_turn_ok [OF d delay(3)] by (cases r) auto
    then show ?thesis using delay(1) delay_turn_ok [OF d delay(3)] a wt cr hd len rs no by (simp add: world_ok_def)
  next
    case (delay_resume j now d' r)
    note ok = popped_ok [OF pop_due_resume_ok [OF d hd [rule_format, OF delay_resume(2)]] delay_resume(3)]
    then have "good_job j'" if "delay_after r = DelayHolds j' now'" for j' now' using that by (cases r) auto
    then show ?thesis using delay_resume(1) ok a wt cr hd len rs no by (simp add: world_ok_def)
  next
    case (worker_take q' j d' r)
    have q: "queue_fits (d_cfg (w_disp w)) q' \<and> rq_closed q' = rq_closed (d_ready (w_disp w)) \<and> good_job j"
      using queue_fits_pop [of "d_cfg (w_disp w)", OF _ worker_take(3)] d by (simp add: disp_ok_def)
    then have "disp_ok b ((w_disp w)\<lparr>d_ready := q'\<rparr>)" using d by (simp add: disp_ok_def)
    then have "disp_ok b d'" by (rule run_begin_ok [OF _ worker_take(4)])
    moreover have "d_cfg b = d_cfg (w_disp w)" using d by (simp add: disp_ok_def)
    ultimately show ?thesis using worker_take(1,2) q a wt cr hd len rs no
      by (auto simp: world_ok_def split: option.split)
  next
    case (handler_end i j start res d' r)
    have "good_job j" using a handler_end(2,3) by (metis comp_apply fst_conv list_all_length)
    then have "disp_ok b d' \<and> r = Ok ()" using run_end_ok [OF d _ handler_end(4)] by simp
    then show ?thesis using handler_end(1) a wt hd len rs no length_remove_nth [of i "w_active w"]
      by (simp add: world_ok_def list_all_remove_nth)
  next
    case shut
    then show ?thesis using shutdown_begin_ok [OF d] a wt cr hd len rs no by (simp add: world_ok_def)
  next
    case (shut_timeout c d' e)
    then show ?thesis using wait_workers_ok [OF d] a wt cr hd len rs no by (simp add: world_ok_def)
  next
    case (draw d' r)
    have "disp_ok b d'" using d draw(2) by (auto simp: new_job_id_def disp_ok_def)
    then show ?thesis using draw(1) a wt cr hd len rs no by (simp add: world_ok_def)
  qed
qed

lemma world_reach_ok:
  "world_reach rand time_now st opts w \<Longrightarrow> \<exists>b. new_dispatcher time_now st opts = Inr b \<and> world_ok b w"
proof (induction rule: world_reach.induct)
  case (start d)
  then show ?case using new_dispatcher_ok [of opts time_now st d] by (auto simp: world_ok_def start_world_def)
next
  case (step w w')
  then show ?case using world_step_ok by blast
qed

lemma world_reach_run:
  "world_reach rand time_now st opts w \<Longrightarrow> \<exists>d. set opts \<subseteq> known_options \<and> new_dispatcher time_now st opts = Inr d \<and>
    (world_step rand)\<^sup>*\<^sup>* (start_world d) w"
  by (induction rule: world_reach.induct) (auto intro: rtranclp.rtrancl_into_rtrancl)

text \<open>
  An invariant of the system: what holds of a new dispatcher and what each step keeps, given the
  invariant above, holds in every state that is reached.
\<close>

locale world_invariant =
  fixes P :: "'s world \<Rightarrow> bool"
  assumes fresh: "new_dispatcher time_now st opts = Inr d \<Longrightarrow> P (start_world d)"
    and kept: "world_step rand w w' \<Longrightarrow> world_ok b w \<Longrightarrow> P w \<Longrightarrow> P w'"
begin

lemma reach: "world_reach rand time_now st opts w \<Longrightarrow> P w"
proof (induction rule: world_reach.induct)
  case (start d)
  then show ?case using fresh by blast
next
  case (step w w')
  then show ?case using world_reach_ok [OF step(1)] kept by blast
qed

lemma steps:
  assumes "(world_step rand)\<^sup>*\<^sup>* w w'" "world_ok b w" "P w"
  shows "P w'"
  using assms(1)
proof (induction rule: rtranclp_induct)
  case base
  show ?case by (rule assms(3))
next
  case (step y z)
  have "world_ok b y" using step(1) assms(2)
    by (induction rule: rtranclp_induct) (auto intro: world_step_ok)
  then show ?case by (rule kept [OF step(2) _ step(3)])
qed

end

text \<open>A step develops the dispatcher: nothing cancelled, registered or stopped is taken back.\<close>

lemma world_ok_refl: "world_ok b w \<Longrightarrow> world_ok (w_disp w) w"
  using disp_ok_refl [of b "w_disp w"] by (auto simp: world_ok_def disp_ok_def)

lemma world_steps_ok: "(world_step rand)\<^sup>*\<^sup>* w w' \<Longrightarrow> world_ok b w \<Longrightarrow> world_ok b w'"
  by (induction rule: rtranclp_induct) (auto intro: world_step_ok)

lemma world_steps_develop:
  "(world_step rand)\<^sup>*\<^sup>* w w' \<Longrightarrow> world_ok b w \<Longrightarrow> disp_ok (w_disp w) (w_disp w')"
  using world_steps_ok [of rand w w' "w_disp w"] world_ok_refl [of b w] by (simp add: world_ok_def)

section \<open>Cancelled jobs and stopped dispatchers\<close>

text \<open>How many handlers run for a job.\<close>

definition runs_of :: "string \<Rightarrow> 's world \<Rightarrow> nat" where
  "runs_of jid w = length (filter (\<lambda>(j, start). job_id j = jid) (w_active w))"

lemma filter_remove_nth: "length (filter P (remove_nth i xs)) \<le> length (filter P xs)"
proof -
  have "xs = take i xs @ take 1 (drop i xs) @ drop (Suc i) xs"
    by (metis append_take_drop_id drop_drop plus_1_eq_Suc)
  then have "length (filter P xs) = length (filter P (take i xs @ take 1 (drop i xs) @ drop (Suc i) xs))" by metis
  then show ?thesis by (simp add: remove_nth_def)
qed

lemma run_begin_cancelled:
  "job_id j \<in> d_cancelled d \<Longrightarrow> snd (run_begin j d) = None"
  by (simp add: run_begin_def Let_def is_cancelled_def disp_simps)

lemma step_cancelled_runs:
  assumes "world_step rand w w'" "jid \<in> d_cancelled (w_disp w)"
  shows "runs_of jid w' \<le> runs_of jid w"
  using assms(1)
proof (cases rule: world_stepE)
  case (worker_take q' j d' r)
  show ?thesis
  proof (cases "job_id j = jid")
    case True
    then have "r = None" using run_begin_cancelled [of j "(w_disp w)\<lparr>d_ready := q'\<rparr>"] assms(2) worker_take(4) by simp
    then show ?thesis using worker_take(1) by (simp add: runs_of_def)
  next
    case False
    then show ?thesis using worker_take(1) by (auto simp: runs_of_def split: option.split)
  qed
next
  case (handler_end i j start res d' r)
  then show ?thesis by (simp add: runs_of_def filter_remove_nth)
qed (simp_all add: runs_of_def)

lemma stopped_submit_fails:
  assumes "\<not> d_running d"
  shows "\<exists>e. snd (submit_with_options rand ctx name payload opts d) = Err e"
proof -
  have cancel_run: "d_running (cancel_by_id i x) = d_running x" for i and x :: "'a disp"
    by (auto simp: cancel_by_id_def Let_def disp_simps call_cancel_def split: option.splits)
  have fold_run: "d_running (fold cancel_by_id is x) = d_running x" for "is" and x :: "'a disp"
    by (induction "is" arbitrary: x) (simp_all add: cancel_run)
  have conf: "d_running (fst (apply_conflict j x)) = d_running x" for j and x :: "'a disp"
    by (simp add: apply_conflict_def Let_def disp_simps fold_run)
  have entry: "\<exists>e. snd (submit_entry ctx j x) = Err e" if "\<not> d_running x" for j and x :: "'a disp"
    using that conf [of j x] by (auto simp: submit_entry_def Let_def split: prod.split option.split)
  have build: "d_running (fst (build_entry rand name payload spec d)) = d_running d" for spec
    by (auto simp: build_entry_def new_job_id_def clock_read_def split: option.split sum.split)
  show ?thesis
  proof (cases "apply_opts opts empty_spec")
    case (Inl e)
    then show ?thesis by (simp add: submit_with_options_def)
  next
    case (Inr spec)
    obtain d1 r where b: "build_entry rand name payload spec d = (d1, r)" by fastforce
    then have "\<not> d_running d1" using build [of spec] assms by simp
    with entry b Inr show ?thesis by (cases r) (simp_all add: submit_with_options_def)
  qed
qed

section \<open>Properties\<close>

text \<open>
  C1: In every state a dispatcher reaches, whatever the interleaving of submissions, cancellations,
  restores, delay turns, workers and handlers: no goroutine has panicked outside a handler, the
  ready queue is within its capacity, the delay heap is ordered, the status table and the in-flight
  sets are consistent, no more handlers run than there are workers, and each running job is at most
  at its last permitted attempt.
\<close>
theorem dispatcher_invariant:
  assumes "world_reach rand time_now st opts w"
  shows "\<not> w_crashed w \<and>
    length (rq_items (d_ready (w_disp w))) \<le> nat (cfg_queue_size (d_cfg (w_disp w))) \<and>
    is_heap (d_delay (w_disp w)) \<and> table_ok (d_table (w_disp w)) \<and> in_flight_ok (d_in_flight (w_disp w)) \<and>
    length (w_active w) \<le> nat (cfg_workers (d_cfg (w_disp w))) \<and>
    list_all (\<lambda>(j, start). 0 \<le> job_attempt j \<and> job_attempt j \<le> job_max_retries j \<and> job_max_retries j \<le> 100)
      (w_active w)"
proof -
  obtain b where "world_ok b w" using world_reach_ok [OF assms] by blast
  then have w: "world_ok (w_disp w) w" by (rule world_ok_refl)
  have "list_all (\<lambda>(j, start). 0 \<le> job_attempt j \<and> job_attempt j \<le> job_max_retries j \<and> job_max_retries j \<le> 100)
      (w_active w)"
    using w by (auto simp: world_ok_def list_all_iff good_job_def)
  with w show ?thesis by (simp add: world_ok_def disp_ok_def queue_fits_def delay_fits_def flight_fits_def)
qed


text \<open>
  C15: After \<open>Shutdown\<close> has begun, every submission, in any continuation, returns an error; none is
  accepted and none waits.
\<close>
theorem shutdown_rejects_submissions:
  assumes "world_reach rand time_now st opts w" "(world_step rand)\<^sup>*\<^sup>* (w\<lparr>w_disp := shutdown_begin (w_disp w)\<rparr>) w'"
  shows "\<exists>e. snd (submit_with_options rand' ctx name payload sopts (w_disp w')) = Err e"
proof -
  have "world_reach rand time_now st opts (w\<lparr>w_disp := shutdown_begin (w_disp w)\<rparr>)"
    by (rule world_reach.step [OF assms(1) world_step.shut])
  from world_reach_ok [OF this] obtain b where "world_ok b (w\<lparr>w_disp := shutdown_begin (w_disp w)\<rparr>)"
    by (elim exE conjE)
  from world_steps_develop [OF assms(2) this]
  have "\<not> d_running (w_disp w')" by (simp add: disp_ok_def shutdown_begin_def Let_def)
  then show ?thesis by (rule stopped_submit_fails)
qed

text \<open>A clock for the concrete runs.\<close>

definition sample_clock :: clock where
  "sample_clock k = 1000 + int k"

text \<open>
  \<open>NewDispatcher\<close>, for any list of the package's options, either fails with
  \<open>ErrInvalidConfig\<close> or gives a running dispatcher whose worker count, queue size and payload bound are
  positive, whose policies are among the declared ones and whose logger is not nil.
\<close>
theorem new_dispatcher_valid:
  assumes "set opts \<subseteq> known_options"
  shows "case new_dispatcher time_now st opts of
      Inl e \<Rightarrow> e = ErrInvalidConfig
    | Inr d \<Rightarrow> valid_config (d_cfg d) \<and> cfg_logger (d_cfg d) \<noteq> NilLogger \<and> cfg_logger (d_cfg d) \<noteq> NilPointer \<and>
        d_running d \<and> rq_cap (d_ready d) = nat (cfg_queue_size (d_cfg d))"
proof (cases "new_dispatcher time_now st opts")
  case (Inl e)
  then have "apply_opts opts (default_config time_now) = Inl e"
    by (simp add: new_dispatcher_def Let_def split: sum.splits)
  then have "e = ErrInvalidConfig" by (rule apply_error [rotated]) (use assms known_option_error in blast)
  with Inl show ?thesis by simp
next
  case (Inr d)
  have n: "normalize_logger l \<noteq> NilLogger \<and> normalize_logger l \<noteq> NilPointer" for l by (cases l) simp_all
  have "cfg_logger (d_cfg d) \<noteq> NilLogger \<and> cfg_logger (d_cfg d) \<noteq> NilPointer \<and> d_running d"
    using Inr n by (auto simp: new_dispatcher_def Let_def split: sum.splits)
  then show ?thesis using Inr new_dispatcher_ok [OF assms Inr] by (simp add: disp_ok_def queue_fits_def)
qed

theorem new_dispatcher_valid_witness:
  "case new_dispatcher sample_clock () [with_workers 0] of Inl e \<Rightarrow> e = ErrInvalidConfig | Inr d \<Rightarrow> valid_config (d_cfg d)"
  using new_dispatcher_valid [of "[with_workers 0]" sample_clock "()"] by (simp add: known_options.intros split: sum.splits)

text \<open>Witnesses: a dispatcher with the default options, one handler and one submitted job.\<close>

definition sample_rand :: "nat \<Rightarrow> go_err + string" where
  "sample_rand k = Inr (replicate (Suc k) CHR ''a'')"

definition sample_d0 :: "unit disp" where
  "sample_d0 = projr (new_dispatcher sample_clock () [])"

definition sample_d1 :: "unit disp" where
  "sample_d1 = fst (register_handler ''n'' (Some 7) sample_d0)"

definition sample_d2 :: "unit disp" where
  "sample_d2 = fst (submit_with_options sample_rand None ''n'' [] [] sample_d1)"

definition sample_w2 :: "unit world" where
  "sample_w2 = (start_world sample_d0)\<lparr>w_disp := sample_d2\<rparr>"

lemma sample_d0_new: "new_dispatcher sample_clock () [] = Inr sample_d0"
  by (simp add: sample_d0_def new_dispatcher_def Let_def)

lemma sample_distinct: "distinct_draws sample_rand"
proof -
  have "k = l" if "replicate (Suc k) (CHR ''a'') = x" "replicate (Suc l) (CHR ''a'') = x" for k l and x :: string
    using that by (metis length_replicate nat.inject)
  then show ?thesis unfolding distinct_draws_def sample_rand_def by (metis sum.inject(2))
qed

lemma sample_submit: "snd (submit_with_options sample_rand None ''n'' [] [] sample_d1) = Ok ''a''"
  by code_simp

lemma sample_w2_reach: "world_reach sample_rand sample_clock () [] sample_w2"
proof -
  have r0: "world_reach sample_rand sample_clock () [] (start_world sample_d0)"
    by (rule world_reach.start [OF _ sample_d0_new]) simp
  have "world_step sample_rand (start_world sample_d0) ((start_world sample_d0)\<lparr>w_disp := sample_d1\<rparr>)"
    by (rule world_step.register [where name = "''n''" and h = "Some 7" and e = "snd (register_handler ''n'' (Some 7) sample_d0)"])
      (simp add: sample_d1_def start_world_def)
  with r0 have r1: "world_reach sample_rand sample_clock () [] ((start_world sample_d0)\<lparr>w_disp := sample_d1\<rparr>)"
    by (rule world_reach.step)
  have "submit_with_options sample_rand None ''n'' [] [] sample_d1 = (sample_d2, Ok ''a'')"
    using sample_submit by (simp add: sample_d2_def prod_eq_iff)
  then have "world_step sample_rand ((start_world sample_d0)\<lparr>w_disp := sample_d1\<rparr>) sample_w2"
    using world_step.submit [of "[]" sample_rand None "''n''" "[]" "(start_world sample_d0)\<lparr>w_disp := sample_d1\<rparr>"]
    by (simp add: sample_w2_def start_world_def)
  with r1 show ?thesis by (rule world_reach.step)
qed

theorem dispatcher_invariant_witness:
  "length (rq_items (d_ready (w_disp sample_w2))) = 1 \<and>
   length (rq_items (d_ready (w_disp sample_w2))) \<le> nat (cfg_queue_size (d_cfg (w_disp sample_w2)))"
proof -
  have "length (rq_items (d_ready (w_disp sample_w2))) = 1" by code_simp
  with dispatcher_invariant [OF sample_w2_reach] show ?thesis by simp
qed


theorem shutdown_rejects_submissions_witness:
  "\<exists>e. snd (submit_with_options sample_rand None ''n'' [] [] (shutdown_begin sample_d2)) = Err e"
  using shutdown_rejects_submissions [OF sample_w2_reach rtranclp.rtrancl_refl, where rand' = sample_rand and ctx = None
      and name = "''n''" and payload = "[]" and sopts = "[]"]
  by (simp add: sample_w2_def)

end
