(* ===== verification/Submit_Props.thy ===== *)
theory Submit_Props
  imports Dispatcher_System
begin

text \<open>
  What a submission does to the dispatcher when it is accepted, when it is refused, and where the
  conflict policies do not do what they are for.
\<close>

section \<open>Effects of the parts\<close>

lemma rq_push_cases:
  assumes "rq_push ctx q j dr = (q', r)"
  shows "r = Ok () \<and> length (rq_items q) < rq_cap q \<and> q' = rq_signal (q\<lparr>rq_items := rq_items q @ [j]\<rparr>) \<or>
    r \<noteq> Ok () \<and> rq_cap q \<le> length (rq_items q) \<and> rq_items q' = rq_items q \<and> rq_cap q' = rq_cap q \<and>
      rq_closed q' = rq_closed q"
  using assms by (auto simp: rq_push_def push_attempt_def split: if_splits option.splits)

text \<open>What a refused submission must leave as it was.\<close>

definition same_jobs :: "'s disp \<Rightarrow> 's disp \<Rightarrow> bool" where
  "same_jobs d d' \<longleftrightarrow>
     rq_items (d_ready d') = rq_items (d_ready d) \<and> d_delay d' = d_delay d \<and> d_table d' = d_table d \<and>
     d_in_flight d' = d_in_flight d \<and> d_job_names d' = d_job_names d \<and> d_executing d' = d_executing d \<and>
     d_cancelled d' = d_cancelled d \<and> d_handlers d' = d_handlers d \<and> d_running d' = d_running d \<and>
     d_cfg d' = d_cfg d"

text \<open>The dispatcher between the conflict policy and the end of the submission.\<close>

definition admitted :: "job \<Rightarrow> 's disp \<Rightarrow> 's disp \<Rightarrow> bool" where
  "admitted j d d' \<longleftrightarrow>
     rq_items (d_ready d') = rq_items (d_ready d) \<and> d_delay d' = d_delay d \<and> d_table d' = d_table d \<and>
     d_in_flight d' = (if cfg_conflict (d_cfg d) = ConflictAllow then d_in_flight d
       else add_in_flight (d_in_flight d) (job_name j) (job_id j)) \<and>
     d_job_names d' = (d_job_names d)(job_id j \<mapsto> job_name j) \<and> d_executing d' = d_executing d \<and>
     d_cancelled d' = d_cancelled d \<and> d_handlers d' = d_handlers d \<and> d_running d' = d_running d \<and>
     d_cfg d' = d_cfg d"

lemma admitted_release:
  assumes "admitted j d d'" "in_flight_ok (d_in_flight d)" "d_job_names d (job_id j) = None"
    "job_id j \<notin> set (flying (d_in_flight d) (job_name j))"
  shows "same_jobs d (release_job (job_name j) (job_id j) d')"
proof -
  have n: "(d_job_names d)(job_id j := None) = d_job_names d" using assms(3) by auto
  have f: "drop_in_flight (add_in_flight (d_in_flight d) (job_name j) (job_id j)) (job_name j) (job_id j) = d_in_flight d"
    by (rule drop_add_id [OF assms(2,4)])
  show ?thesis using assms(1) n f by (simp add: same_jobs_def admitted_def disp_simps)
qed

lemma persist_frame:
  assumes "persist j d = (d', r)"
  shows "\<exists>s. d' = d\<lparr>d_store := s\<rparr>"
proof (cases "cfg_store (d_cfg d)")
  case None
  then have "d' = d\<lparr>d_store := d_store d\<rparr>" using assms by (simp add: persist_def)
  then show ?thesis by blast
next
  case (Some ops)
  then show ?thesis using assms by (auto simp: persist_def split: prod.splits option.splits)
qed

lemma admitted_store: "admitted j d d' \<Longrightarrow> admitted j d (d'\<lparr>d_store := s\<rparr>)"
  by (simp add: admitted_def)

lemma admitted_quiet: "quiet f \<Longrightarrow> admitted j d (f d') = admitted j d d'"
  by (simp add: admitted_def quiet_frame)

lemma admitted_delete: "admitted j d d' \<Longrightarrow> admitted j d (store_delete i d')"
  by (simp add: admitted_def disp_simps)

lemma admitted_clock: "admitted j d d' \<Longrightarrow> clock_read d' = (t, d'') \<Longrightarrow> admitted j d d''"
proof -
  assume a: "admitted j d d'" "clock_read d' = (t, d'')"
  from a(2) have "d'' = d'\<lparr>d_ticks := Suc (d_ticks d')\<rparr>" by (simp add: clock_read_def)
  then show "admitted j d d''" using a(1) by (simp add: admitted_def)
qed

lemma admitted_after_conflict:
  assumes "apply_conflict j d = (d1, None)" "cfg_conflict (d_cfg d) \<noteq> ConflictReplace" "valid_config (d_cfg d)"
  shows "admitted j d (d1\<lparr>d_job_names := (d_job_names d1)(job_id j \<mapsto> job_name j)\<rparr>)"
    and "cfg_conflict (d_cfg d) = ConflictSkip \<longrightarrow> flying (d_in_flight d) (job_name j) = []"
  using assms
  by (auto simp: apply_conflict_def admitted_def Let_def valid_config_def ConflictSkip_def ConflictAllow_def
      split: if_splits)

lemma conflict_refused:
  assumes "apply_conflict j d = (d1, Some e)"
  shows "same_jobs d d1 \<and> e = ErrSkipped \<and> cfg_conflict (d_cfg d) = ConflictSkip \<and>
    flying (d_in_flight d) (job_name j) \<noteq> []"
  using assms by (auto simp: apply_conflict_def same_jobs_def Let_def disp_simps split: if_splits)

section \<open>The end of a submission\<close>

definition accepted_now :: "job \<Rightarrow> 's disp \<Rightarrow> 's disp \<Rightarrow> bool" where
  "accepted_now j d d' \<longleftrightarrow> length (rq_items (d_ready d)) < rq_cap (d_ready d) \<and>
     rq_items (d_ready d') = rq_items (d_ready d) @ [j] \<and> d_delay d' = d_delay d \<and>
     d_table d' = mark_status (d_table d) (job_id j) StatusQueued"

definition accepted_later :: "job \<Rightarrow> 's disp \<Rightarrow> 's disp \<Rightarrow> bool" where
  "accepted_later j d d' \<longleftrightarrow>
     rq_items (d_ready d') = rq_items (d_ready d) \<and> d_delay d' = heap_push (d_delay d) j \<and>
     d_table d' = mark_status (d_table d) (job_id j) StatusDelayed"

lemma submit_push_cases:
  assumes "submit_push ctx j d = (d', r)"
  shows "(r = Ok (job_id j) \<and> accepted_now j d d' \<and> d_in_flight d' = d_in_flight d) \<or>
    (\<exists>e d1. r = Err e \<and> d' = release_job (job_name j) (job_id j) (store_delete (job_id j) d1) \<and>
       (\<exists>q. rq_items q = rq_items (d_ready d) \<and> (d1 = d\<lparr>d_ready := q\<rparr> \<or> d1 = metric_dropped (job_name j) (d\<lparr>d_ready := q\<rparr>)))) \<or>
    r = NoReturn"
proof -
  obtain q' r' where p: "rq_push ctx (d_ready d) j (cfg_queue_policy (d_cfg d) = QueueFullDrop) = (q', r')" by fastforce
  note c = rq_push_cases [OF p]
  have np: "r' \<noteq> Panic" using p by (auto simp: rq_push_def push_attempt_def split: if_splits option.splits)
  show ?thesis
  proof (cases r')
    case (Ok u)
    then have "accepted_now j d d' \<and> r = Ok (job_id j) \<and> d_in_flight d' = d_in_flight d"
      using assms p c
      by (auto simp: submit_push_def enqueue_ready_def submit_accepted_def accepted_now_def rq_signal_def disp_simps)
    then show ?thesis by blast
  next
    case (Err e)
    then have "r = Err e \<and> (d' = release_job (job_name j) (job_id j) (store_delete (job_id j) (d\<lparr>d_ready := q'\<rparr>)) \<or>
        d' = release_job (job_name j) (job_id j) (store_delete (job_id j) (metric_dropped (job_name j) (d\<lparr>d_ready := q'\<rparr>))))"
      using assms p by (auto simp: submit_push_def enqueue_ready_def split: if_splits)
    moreover have "rq_items q' = rq_items (d_ready d)" using c Err by auto
    ultimately show ?thesis by blast
  next
    case NoReturn
    then show ?thesis using assms p by (auto simp: submit_push_def enqueue_ready_def)
  qed (simp add: np)
qed

lemma refused_push_same:
  assumes "submit_push ctx j d1 = (d', Err e)" "admitted j d d1"
    "in_flight_ok (d_in_flight d)" "d_job_names d (job_id j) = None"
    "job_id j \<notin> set (flying (d_in_flight d) (job_name j))"
  shows "same_jobs d d'"
proof -
  from submit_push_cases [OF assms(1)] obtain d2 q where
    d': "d' = release_job (job_name j) (job_id j) (store_delete (job_id j) d2)"
    and q: "rq_items q = rq_items (d_ready d1)"
    and d2: "d2 = d1\<lparr>d_ready := q\<rparr> \<or> d2 = metric_dropped (job_name j) (d1\<lparr>d_ready := q\<rparr>)" by auto
  have "admitted j d (d1\<lparr>d_ready := q\<rparr>)" using assms(2) q by (simp add: admitted_def)
  then have "admitted j d (store_delete (job_id j) d2)"
    using d2 by (auto simp: admitted_quiet quiet_all intro: admitted_delete)
  then show ?thesis unfolding d' by (rule admitted_release [OF _ assms(3-5)])
qed

section \<open>Properties\<close>

text \<open>
  C8: A submission that is refused under the policies \<open>Skip\<close> and \<open>Allow\<close>, for whatever reason (a
  job of the name in flight, the dispatcher shutting down, the store failing, the queue full, the
  context ended), leaves the ready queue, the delayed jobs, the statuses, the in-flight sets, the
  recorded names, the running jobs and the cancellation marks as they were.
\<close>
theorem refused_submission_leaves_no_trace:
  assumes "submit_entry ctx j d = (d', Err e)" "disp_ok b d"
    and policy: "cfg_conflict (d_cfg d) \<noteq> ConflictReplace"
    and fresh: "d_job_names d (job_id j) = None" "job_id j \<notin> set (flying (d_in_flight d) (job_name j))"
  shows "same_jobs d d'"
proof -
  have fl: "in_flight_ok (d_in_flight d)" and vc: "valid_config (d_cfg d)"
    using assms(2) by (simp_all add: disp_ok_def flight_fits_def)
  obtain d1 c where ac: "apply_conflict j d = (d1, c)" by fastforce
  show ?thesis
  proof (cases c)
    case (Some e')
    then show ?thesis using conflict_refused [of j d d1 e'] ac assms(1) by (simp add: submit_entry_def)
  next
    case None
    let ?d2 = "d1\<lparr>d_job_names := (d_job_names d1)(job_id j \<mapsto> job_name j)\<rparr>"
    have a2: "admitted j d ?d2" using admitted_after_conflict(1) ac None policy vc by blast
    obtain t d3 where cl: "clock_read ?d2 = (t, d3)" by fastforce
    have a3: "admitted j d d3" by (rule admitted_clock [OF a2 cl])
    note rel = admitted_release [OF _ fl fresh]
    have now: "same_jobs d d'" if "submit_now ctx j x = (d', Err e)" "admitted j d x" for x
    proof -
      obtain x1 pr where p: "persist j x = (x1, pr)" by fastforce
      from persist_frame [OF p] obtain s where s: "x1 = x\<lparr>d_store := s\<rparr>" ..
      have x1: "admitted j d x1" unfolding s by (rule admitted_store [OF that(2)])
      show ?thesis
        using that(1) p x1 rel [OF x1] refused_push_same [OF _ x1 fl fresh, of ctx d' e]
        by (cases pr) (auto simp: submit_now_def)
    qed
    have later: "same_jobs d d'" if "submit_later j x = (d', Err e)" "admitted j d x" for x
    proof -
      obtain x1 pr where p: "persist j x = (x1, pr)" by fastforce
      from persist_frame [OF p] obtain s where s: "x1 = x\<lparr>d_store := s\<rparr>" ..
      have x1: "admitted j d x1" unfolding s by (rule admitted_store [OF that(2)])
      show ?thesis using that(1) p rel [OF x1] by (cases pr) (auto simp: submit_later_def)
    qed
    show ?thesis
      using assms(1) ac None cl rel [OF a2] now [OF _ a2] now [OF _ a3] later [OF _ a3]
      by (auto simp: submit_entry_def Let_def split: if_splits)
  qed
qed


text \<open>
  Under \<open>Replace\<close> a submission that is itself refused has already cancelled the jobs it was to
  replace: when the dispatcher is shutting down, the jobs of the name are marked as cancelled
  although no new job takes their place.
\<close>
theorem refused_replacement_still_cancels:
  assumes "cfg_conflict (d_cfg d) = ConflictReplace" "\<not> d_running d" "old \<in> set (flying (d_in_flight d) (job_name j))"
  shows "snd (submit_entry ctx j d) = Err ErrShuttingDown \<and> old \<in> d_cancelled (fst (submit_entry ctx j d))"
proof -
  have cs: "d_cancelled (cancel_by_id i x) = insert i (d_cancelled x)" "d_running (cancel_by_id i x) = d_running x"
    for i and x :: "'a disp"
    by (auto simp: cancel_by_id_def Let_def disp_simps call_cancel_def split: option.splits)
  have fold: "d_cancelled (fold cancel_by_id is x) = set is \<union> d_cancelled x \<and> d_running (fold cancel_by_id is x) = d_running x"
    for "is" and x :: "'a disp"
    by (induction "is" arbitrary: x) (auto simp: cs)
  obtain d1 c where ac: "apply_conflict j d = (d1, c)" by fastforce
  have ne: "ConflictReplace \<noteq> ConflictAllow" by (simp add: ConflictReplace_def ConflictAllow_def)
  have "c = None" "old \<in> d_cancelled d1" "\<not> d_running d1"
    using ac assms fold ne by (auto simp: apply_conflict_def Let_def disp_simps split: if_splits)
  then show ?thesis using ac by (simp add: submit_entry_def Let_def disp_simps)
qed

text \<open>Witnesses on the dispatcher of \<open>Dispatcher_System\<close> and on one with the policy \<open>Replace\<close>.\<close>

lemma sample_d1_ok: "disp_ok sample_d1 sample_d1"
proof -
  have "disp_ok sample_d0 sample_d0" by (rule new_dispatcher_ok [OF _ sample_d0_new]) simp
  moreover have "register_handler ''n'' (Some 7) sample_d0 = (sample_d1, snd (register_handler ''n'' (Some 7) sample_d0))"
    by (simp add: sample_d1_def)
  ultimately have "disp_ok sample_d0 sample_d1" by (rule register_handler_ok)
  then show ?thesis by (rule disp_ok_refl)
qed

theorem refused_submission_leaves_no_trace_witness:
  "same_jobs (shutdown_begin sample_d1) (fst (submit_entry None (sample_job ''q'' 5) (shutdown_begin sample_d1)))"
proof (rule refused_submission_leaves_no_trace)
  have "snd (submit_entry None (sample_job ''q'' 5) (shutdown_begin sample_d1)) = Err ErrShuttingDown" by code_simp
  then show "submit_entry None (sample_job ''q'' 5) (shutdown_begin sample_d1) =
      (fst (submit_entry None (sample_job ''q'' 5) (shutdown_begin sample_d1)), Err ErrShuttingDown)"
    by (simp add: prod_eq_iff)
  show "disp_ok sample_d1 (shutdown_begin sample_d1)" by (rule shutdown_begin_ok [OF sample_d1_ok])
  show "cfg_conflict (d_cfg (shutdown_begin sample_d1)) \<noteq> ConflictReplace" by code_simp
  show "d_job_names (shutdown_begin sample_d1) (job_id (sample_job ''q'' 5)) = None" by code_simp
  show "job_id (sample_job ''q'' 5)
      \<notin> set (flying (d_in_flight (shutdown_begin sample_d1)) (job_name (sample_job ''q'' 5)))" by code_simp
qed


definition sample_r :: "unit disp" where
  "sample_r = shutdown_begin (fst (submit_with_options sample_rand None ''n'' [] []
     (fst (register_handler ''n'' (Some 7)
       (projr (new_dispatcher sample_clock () [with_conflict_policy ConflictReplace]))))))"

theorem refused_replacement_still_cancels_witness:
  "snd (submit_entry None (sample_job ''q'' 5) sample_r) = Err ErrShuttingDown \<and>
   ''a'' \<in> d_cancelled (fst (submit_entry None (sample_job ''q'' 5) sample_r))"
proof (rule refused_replacement_still_cancels)
  show "cfg_conflict (d_cfg sample_r) = ConflictReplace" by code_simp
  show "\<not> d_running sample_r" by code_simp
  show "''a'' \<in> set (flying (d_in_flight sample_r) (job_name (sample_job ''q'' 5)))" by code_simp
qed

end
