(* ===== verification/Run_Props.thy ===== *)
theory Run_Props
  imports Submit_Props
begin

text \<open>
  What the execution of a job leaves: its final status, its retry and the back-off, and what is lost
  when a retry is scheduled; and the status that a submission writes too late.
\<close>

section \<open>Effects of the parts\<close>

lemma run_cleanup_frame [disp_simps]:
  "d_table (run_cleanup j d) = d_table d" "d_delay (run_cleanup j d) = d_delay d"
  "d_ready (run_cleanup j d) = d_ready d" "d_cancelled (run_cleanup j d) = d_cancelled d"
  "d_cfg (run_cleanup j d) = d_cfg d"
  "d_job_names (run_cleanup j d) = (d_job_names d)(job_id j := None)"
  "d_executing (run_cleanup j d) = AList.delete (job_id j) (d_executing d)"
  "d_in_flight (run_cleanup j d) = (if cfg_conflict (d_cfg d) = ConflictAllow then d_in_flight d
     else drop_in_flight (d_in_flight d) (job_name j) (job_id j))"
  "d_store (run_cleanup j d) = (case cfg_store (d_cfg d) of None \<Rightarrow> d_store d
     | Some ops \<Rightarrow> fst (st_delete ops (d_store d) (job_id j)))"
  by (simp_all add: run_cleanup_def Let_def disp_simps split: option.split)

lemma clock_read_frame:
  assumes "clock_read d = (t, d')"
  shows "t = cfg_now (d_cfg d) (d_ticks d)" "d' = d\<lparr>d_ticks := Suc (d_ticks d)\<rparr>"
  using assms by (auto simp: clock_read_def)

lemma schedule_retry_effect:
  assumes "schedule_retry j e d = (d', r)" "0 \<le> job_attempt j"
  shows "r = Ok ()" "d_delay d' = heap_push (d_delay d) (retry_job j (cfg_now (d_cfg d) (d_ticks d)))"
    "d_table d' = mark_status (d_table d) (job_id j) StatusDelayed" "d_cfg d' = d_cfg d"
    "d_in_flight d' = d_in_flight d" "d_ready d' = d_ready d"
proof -
  obtain t d1 where c: "clock_read d = (t, d1)" by fastforce
  note f = clock_read_frame [OF c]
  define d2 where "d2 = (case cfg_store (d_cfg d1) of None \<Rightarrow> d1
    | Some ops \<Rightarrow> d1\<lparr>d_store := fst (st_save ops (d_store d1) (retry_job j t))\<rparr>)"
  have d2: "d_delay d2 = d_delay d" "d_table d2 = d_table d" "d_cfg d2 = d_cfg d" "d_in_flight d2 = d_in_flight d"
    "d_ready d2 = d_ready d"
    unfolding d2_def by (simp_all add: f(2) split: option.split)
  have "d' = log_retry j (job_run_at (retry_job j t)) e (metric_retried (job_name j) (job_attempt (retry_job j t))
      (set_status (job_id (retry_job j t)) StatusDelayed (push_delayed (retry_job j t) d2)))" and r: "r = Ok ()"
    using assms c unfolding schedule_retry_def d2_def by (simp_all add: Let_def)
  then show "d_delay d' = heap_push (d_delay d) (retry_job j (cfg_now (d_cfg d) (d_ticks d)))"
    "d_table d' = mark_status (d_table d) (job_id j) StatusDelayed" "d_cfg d' = d_cfg d"
    "d_in_flight d' = d_in_flight d" "d_ready d' = d_ready d"
    using d2 f(1) by (simp_all add: disp_simps push_delayed_def retry_job_def)
  show "r = Ok ()" by (rule r)
qed

text \<open>What a handler's result means to the code that follows it.\<close>

fun failure_of :: "handler_result \<Rightarrow> go_err option" where
  "failure_of (Returned e) = e"
| "failure_of (Panicked n) = Some (Wrapped CodeExecutionFailed (HandlerPanic n))"

definition will_retry :: "job \<Rightarrow> bool" where
  "will_retry j \<longleftrightarrow> 0 < job_max_retries j \<and> job_attempt j < job_max_retries j"

definition end_status :: "bool \<Rightarrow> job \<Rightarrow> handler_result \<Rightarrow> status" where
  "end_status cancelled j res =
     (if cancelled then StatusCancelled
      else if failure_of res = None then StatusSucceeded
      else if will_retry j then StatusDelayed
      else StatusFailed)"

lemma run_verdict_effect:
  assumes "run_verdict j start err d = (d', r)" "0 \<le> job_attempt j"
  shows "r = Ok () \<and> d_ready d' = d_ready d \<and> d_cfg d' = d_cfg d \<and> d_in_flight d' = d_in_flight d \<and>
    d_table d' = mark_status (d_table d) (job_id j)
      (if is_cancelled (job_id j) d then StatusCancelled else if err = None then StatusSucceeded
       else if will_retry j then StatusDelayed else StatusFailed) \<and>
    d_delay d' = (if \<not> is_cancelled (job_id j) d \<and> err \<noteq> None \<and> will_retry j
      then heap_push (d_delay d) (retry_job j (cfg_now (d_cfg d) (d_ticks d))) else d_delay d)"
proof (cases "is_cancelled (job_id j) d")
  case True
  then show ?thesis using assms by (auto simp: run_verdict_def disp_simps)
next
  case nc: False
  show ?thesis
  proof (cases err)
    case None
    obtain t1 d1 where c1: "clock_read (set_status (job_id j) StatusSucceeded d) = (t1, d1)" by fastforce
    obtain t2 d2 where c2: "clock_read (metric_completed (job_name j) (t1 - start) d1) = (t2, d2)" by fastforce
    show ?thesis
      using assms nc None c1 c2 clock_read_frame(2) [OF c1] clock_read_frame(2) [OF c2]
      by (auto simp: run_verdict_def disp_simps)
  next
    case (Some e)
    show ?thesis
    proof (cases "will_retry j")
      case True
      then have "schedule_retry j e d = (d', r)" using assms(1) nc Some by (simp add: run_verdict_def will_retry_def)
      from schedule_retry_effect [OF this assms(2)] show ?thesis using nc Some True by simp
    next
      case False
      then show ?thesis using assms nc Some by (auto simp: run_verdict_def will_retry_def disp_simps)
    qed
  qed
qed

lemma run_end_effect:
  assumes "run_end j start res d = (d', r)" "0 \<le> job_attempt j"
  shows "r = Ok () \<and> d_ready d' = d_ready d \<and> d_cfg d' = d_cfg d \<and>
    d_table d' = mark_status (d_table d) (job_id j) (end_status (is_cancelled (job_id j) d) j res) \<and>
    d_delay d' = (if end_status (is_cancelled (job_id j) d) j res = StatusDelayed
      then heap_push (d_delay d) (retry_job j (cfg_now (d_cfg d) (d_ticks d))) else d_delay d) \<and>
    d_job_names d' (job_id j) = None \<and> map_of (d_executing d') (job_id j) = None \<and>
    (cfg_conflict (d_cfg d) \<noteq> ConflictAllow \<longrightarrow>
       d_in_flight d' = drop_in_flight (d_in_flight d) (job_name j) (job_id j))"
proof -
  obtain d1 where e: "run_end j start res d =
      (case run_verdict j start (failure_of res) d1 of (d2, r) \<Rightarrow> (run_cleanup j d2, r))"
    and d1: "d_table d1 = d_table d" "d_delay d1 = d_delay d" "d_cfg d1 = d_cfg d" "d_in_flight d1 = d_in_flight d"
      "d_ready d1 = d_ready d" "d_cancelled d1 = d_cancelled d" "d_ticks d1 = d_ticks d"
  proof (cases res)
    case (Returned x)
    then show ?thesis
      using that [of "if cfg_trace_hook (d_cfg d) then emit (SpanEnd x) d else d"]
      by (simp add: run_end_def disp_simps)
  next
    case (Panicked n)
    then show ?thesis using that [of "emit (LogPanic (job_id j) (job_name j) n) d"] by (simp add: run_end_def disp_simps)
  qed
  obtain d2 r2 where v: "run_verdict j start (failure_of res) d1 = (d2, r2)" by fastforce
  have d': "d' = run_cleanup j d2" "r = r2" using assms(1) e v by simp_all
  show ?thesis
    using run_verdict_effect [OF v assms(2)] d1 unfolding d'
    by (auto simp: disp_simps end_status_def is_cancelled_def delete_conv')
qed

section \<open>Properties\<close>

lemma run_end_outcome:
  assumes "run_end j start res d = (d', r)" "disp_ok b d" "good_job j"
  shows "r = Ok () \<and> job_status (job_id j) d' = Inr (end_status (is_cancelled (job_id j) d) j res) \<and>
    mset (d_delay d') =
      (if end_status (is_cancelled (job_id j) d) j res = StatusDelayed
       then add_mset (j\<lparr>job_attempt := job_attempt j + 1,
         job_run_at := cfg_now (d_cfg d) (d_ticks d) + backoff j\<rparr>) (mset (d_delay d))
       else mset (d_delay d)) \<and>
    rq_items (d_ready d') = rq_items (d_ready d) \<and> map_of (d_executing d') (job_id j) = None"
proof -
  have a: "0 \<le> job_attempt j" using assms(3) by (simp add: good_job_def)
  have "in_int64 (job_attempt j + 1)" using assms(3) by (simp add: good_job_def int64_defs)
  then have w: "wrap64 (job_attempt j + 1) = job_attempt j + 1" by (rule wrap64_id)
  note e = run_end_effect [OF assms(1) a]
  have "table_ok (d_table d)" "is_heap (d_delay d)" using assms(2) by (simp_all add: disp_ok_def delay_fits_def)
  then show ?thesis
    using e heap_push_spec [of "d_delay d"]
    by (simp add: job_status_def table_status_def mark_status_lookup retry_job_def w)
qed

text \<open>
  C10: When a handler ends, by returning or by panicking, the job's status is \<open>Cancelled\<close> if it was
  cancelled meanwhile, \<open>Succeeded\<close> after nil, \<open>Delayed\<close> after a failure with attempts left and
  \<open>Failed\<close> otherwise; exactly in the third case one entry joins the delay heap, with the next attempt
  number and the back-off added to the time read; and the job is no longer running.
\<close>
theorem run_end_status:
  assumes "run_end j start res d = (d', r)" "disp_ok b d" "good_job j"
  shows "r = Ok () \<and> job_status (job_id j) d' = Inr (end_status (is_cancelled (job_id j) d) j res) \<and>
    mset (d_delay d') =
      (if end_status (is_cancelled (job_id j) d) j res = StatusDelayed
       then add_mset (j\<lparr>job_attempt := job_attempt j + 1,
         job_run_at := cfg_now (d_cfg d) (d_ticks d) + backoff j\<rparr>) (mset (d_delay d))
       else mset (d_delay d)) \<and>
    rq_items (d_ready d') = rq_items (d_ready d) \<and> map_of (d_executing d') (job_id j) = None"
  using assms by (rule run_end_outcome)

text \<open>
  The back-off before retry \<open>n\<close> (from 0) is the retry delay times \<open>2 ^ n\<close>, whenever that fits in 64 bits.
\<close>
theorem backoff_doubles:
  assumes "0 \<le> job_attempt j" "in_int64 (job_retry_delay j * 2 ^ nat (job_attempt j))"
  shows "backoff j = job_retry_delay j * 2 ^ nat (job_attempt j)"
  using assms by (simp add: backoff_def shl64_no_overflow)

text \<open>
  Options that \<open>WithRetry\<close> accepts let the shift overflow: with 100 retries and a delay of one
  hour the back-off before retry 22 is negative and that before retry 60 is 0, so the job is due at once.
\<close>
theorem backoff_overflows:
  "with_retry 100 (3600 * 1000000000) empty_spec =
     Inr (empty_spec\<lparr>spec_max_retries := 100, spec_retry_delay := 3600 * 1000000000\<rparr>) \<and>
   backoff (j\<lparr>job_retry_delay := 3600 * 1000000000, job_attempt := 22\<rparr>) < 0 \<and>
   backoff (j\<lparr>job_retry_delay := 3600 * 1000000000, job_attempt := 60\<rparr>) = 0"
  by (simp add: with_retry_def backoff_def shl64_def wrap64_def)

text \<open>
  C38: A scheduled retry is not protected. When a handler fails with attempts left, the retry is saved
  and queued, but the deferred calls of the same execution then delete it from the store and release
  its name: it waits in the delay heap, a store that works no longer holds it, so a restart loses it,
  and under \<open>Skip\<close> another job of the name is admitted although it is pending.
\<close>
theorem pending_retry_is_unprotected:
  assumes "run_end j start res d = (d', r)" "disp_ok b d" "good_job j"
    and fails: "end_status (is_cancelled (job_id j) d) j res = StatusDelayed"
    and store: "cfg_store (d_cfg d) = Some memory_ops"
    and skip: "cfg_conflict (d_cfg d) = ConflictSkip" "flying (d_in_flight d) (job_name j) = [job_id j]"
  shows "\<exists>nxt\<in>set (d_delay d'). job_id nxt = job_id j \<and> job_attempt nxt = job_attempt j + 1 \<and>
      map_of (d_store d') (job_id j) = None \<and>
      snd (apply_conflict (nxt\<lparr>job_id := other\<rparr>) d') = None"
proof -
  have a: "0 \<le> job_attempt j" using assms(3) by (simp add: good_job_def)
  note e = run_end_effect [OF assms(1) a]
  have rs: "mset (d_delay d') = add_mset (j\<lparr>job_attempt := job_attempt j + 1,
         job_run_at := cfg_now (d_cfg d) (d_ticks d) + backoff j\<rparr>) (mset (d_delay d))"
    using run_end_outcome [OF assms(1-3)] fails by simp
  let ?n = "j\<lparr>job_attempt := job_attempt j + 1, job_run_at := cfg_now (d_cfg d) (d_ticks d) + backoff j\<rparr>"
  have "?n \<in> set (d_delay d')" using rs by (metis set_mset_mset union_single_eq_member)
  moreover have "map_of (d_store d') (job_id j) = None"
  proof -
    obtain d2 where d2: "d' = run_cleanup j d2"
      using assms(1) by (auto simp: run_end_def split: prod.splits)
    moreover have "cfg_store (d_cfg d2) = Some memory_ops"
      using e store by (simp add: d2 disp_simps)
    ultimately show ?thesis by (simp add: disp_simps memory_ops_def memory_delete_def delete_conv')
  qed
  moreover have "flying (d_in_flight d') (job_name j) = []"
  proof -
    have "set (flying (d_in_flight d') (job_name j)) = {}"
      using e skip flying_drop [of "d_in_flight d" "job_name j" "job_id j" "job_name j"]
      by (simp add: ConflictSkip_def ConflictAllow_def)
    then show ?thesis by simp
  qed
  then have "snd (apply_conflict (?n\<lparr>job_id := other\<rparr>) d') = None"
    using e skip by (simp add: apply_conflict_def Let_def ConflictSkip_def ConflictReplace_def ConflictAllow_def)
  ultimately show ?thesis by (intro bexI [of _ ?n]) simp_all
qed

text \<open>The course of that run, one predicate for each state so that each state is evaluated once.\<close>

definition late_end :: "'s disp \<Rightarrow> bool" where
  "late_end d \<longleftrightarrow> job_status ''q'' d = Inr StatusQueued \<and> rq_items (d_ready d) = [] \<and> d_delay d = [] \<and> d_executing d = []"

definition late_ran :: "'s disp \<times> (go_err, unit) outcome \<Rightarrow> bool" where
  "late_ran r \<longleftrightarrow> snd r = Ok () \<and> job_status ''q'' (fst r) = Inr StatusSucceeded \<and>
     late_end (submit_accepted (sample_job ''q'' 5) (fst r))"

definition late_run :: "'s disp \<Rightarrow> ready_queue \<times> (go_err, job option) outcome \<Rightarrow> bool" where
  "late_run d q \<longleftrightarrow> snd q = Ok (Some (sample_job ''q'' 5)) \<and>
     late_ran (run_entry (\<lambda>h j t d. (d, Returned None)) (sample_job ''q'' 5) (d\<lparr>d_ready := fst q\<rparr>))"

definition late_start :: "'s disp \<times> (go_err, unit) outcome \<Rightarrow> bool" where
  "late_start e \<longleftrightarrow> snd e = Ok () \<and> late_run (fst e) (rq_pop (d_ready (fst e)))"

text \<open>
  \<open>Submit\<close> records \<open>Queued\<close> after the push, so a worker can be done by then. One submission, whose
  job is taken and succeeds between the push and the record: at the end the job is in no queue and
  does not run, and its status is \<open>Queued\<close> for good.
\<close>
theorem late_queued_status:
  "\<exists>d1 d2 d3 q.
     enqueue_ready None (sample_job ''q'' 5) sample_d1 = (d1, Ok ()) \<and>
     rq_pop (d_ready d1) = (q, Ok (Some (sample_job ''q'' 5))) \<and>
     run_entry (\<lambda>h j t d. (d, Returned None)) (sample_job ''q'' 5) (d1\<lparr>d_ready := q\<rparr>) = (d2, Ok ()) \<and>
     job_status ''q'' d2 = Inr StatusSucceeded \<and>
     d3 = submit_accepted (sample_job ''q'' 5) d2 \<and>
     job_status ''q'' d3 = Inr StatusQueued \<and> rq_items (d_ready d3) = [] \<and> d_delay d3 = [] \<and> d_executing d3 = []"
proof -
  let ?j = "sample_job ''q'' 5"
  let ?e = "enqueue_ready None ?j sample_d1"
  let ?q = "rq_pop (d_ready (fst ?e))"
  let ?r = "run_entry (\<lambda>h j t d. (d, Returned None)) ?j ((fst ?e)\<lparr>d_ready := fst ?q\<rparr>)"
  let ?f = "submit_accepted ?j (fst ?r)"
  have "late_start ?e" by code_simp
  then have "snd ?e = Ok ()" "snd ?q = Ok (Some ?j)" "snd ?r = Ok ()" "job_status ''q'' (fst ?r) = Inr StatusSucceeded"
    "job_status ''q'' ?f = Inr StatusQueued" "rq_items (d_ready ?f) = []" "d_delay ?f = []" "d_executing ?f = []"
    by (simp_all add: late_start_def late_run_def late_ran_def late_end_def)
  then show ?thesis by (intro exI [of _ "fst ?e"] exI [of _ "fst ?r"] exI [of _ ?f] exI [of _ "fst ?q"]) (simp add: prod_eq_iff)
qed

text \<open>Witnesses: a job with three retries, accepted and taken by a worker, with the store of the example.\<close>

definition sample_m0 :: "memory_store disp" where
  "sample_m0 = projr (new_dispatcher sample_clock [] [with_store (Some memory_ops)])"

definition sample_m1 :: "memory_store disp" where
  "sample_m1 = fst (register_handler ''n'' (Some 7) sample_m0)"

definition sample_m2 :: "memory_store disp" where
  "sample_m2 = fst (submit_with_options sample_rand None ''n'' [] [with_retry 3 1000000000] sample_m1)"

definition sample_taken :: job where
  "sample_taken = hd (rq_items (d_ready sample_m2))"

definition sample_m3 :: "memory_store disp" where
  "sample_m3 = fst (run_begin sample_taken (sample_m2\<lparr>d_ready := fst (rq_pop (d_ready sample_m2))\<rparr>))"

lemma sample_m0_new: "new_dispatcher sample_clock [] [with_store (Some memory_ops)] = Inr sample_m0"
  by (simp add: sample_m0_def new_dispatcher_def Let_def with_store_def)

lemma sample_m1_ok: "disp_ok sample_m0 sample_m1"
proof -
  have "disp_ok sample_m0 sample_m0"
    by (rule new_dispatcher_ok [OF _ sample_m0_new]) (simp add: known_options.intros)
  moreover have "register_handler ''n'' (Some 7) sample_m0 = (sample_m1, snd (register_handler ''n'' (Some 7) sample_m0))"
    by (simp add: sample_m1_def)
  ultimately show ?thesis by (rule register_handler_ok)
qed

lemma sample_m2_ok: "disp_ok sample_m0 sample_m2"
proof -
  have "submit_with_options sample_rand None ''n'' [] [with_retry 3 1000000000] sample_m1 =
      (sample_m2, snd (submit_with_options sample_rand None ''n'' [] [with_retry 3 1000000000] sample_m1))"
    by (simp add: sample_m2_def)
  then show ?thesis by (rule submit_with_options_ok [OF sample_m1_ok, rotated]) (simp add: submit_options.intros)
qed

lemma sample_m3_ok: "disp_ok sample_m0 sample_m3 \<and> good_job sample_taken"
proof -
  have p: "snd (rq_pop (d_ready sample_m2)) = Ok (Some sample_taken)" by code_simp
  have "queue_fits (d_cfg sample_m2) (fst (rq_pop (d_ready sample_m2))) \<and>
      rq_closed (fst (rq_pop (d_ready sample_m2))) = rq_closed (d_ready sample_m2) \<and> good_job sample_taken"
    using queue_fits_pop [of "d_cfg sample_m2" "d_ready sample_m2" "fst (rq_pop (d_ready sample_m2))" "Ok (Some sample_taken)"]
      sample_m2_ok p by (simp add: disp_ok_def prod_eq_iff)
  moreover from this have "disp_ok sample_m0 (sample_m2\<lparr>d_ready := fst (rq_pop (d_ready sample_m2))\<rparr>)"
    using sample_m2_ok by (simp add: disp_ok_def)
  then have "disp_ok sample_m0 sample_m3"
    unfolding sample_m3_def by (rule run_begin_ok [where r = "snd (run_begin sample_taken (sample_m2\<lparr>d_ready := fst (rq_pop (d_ready sample_m2))\<rparr>))"]) simp
  ultimately show ?thesis by simp
qed

definition sample_failed :: "memory_store disp" where
  "sample_failed = fst (run_end sample_taken 1003 (Panicked 1) sample_m3)"

lemma sample_failed_eq: "run_end sample_taken 1003 (Panicked 1) sample_m3 = (sample_failed, Ok ())"
proof -
  have "snd (run_end sample_taken 1003 (Panicked 1) sample_m3) = Ok ()"
    using run_end_outcome [of sample_taken 1003 "Panicked 1" sample_m3 sample_failed _ sample_m0] sample_m3_ok
    by (simp add: sample_failed_def prod_eq_iff)
  then show ?thesis by (simp add: sample_failed_def prod_eq_iff)
qed

definition run_sample :: "job \<Rightarrow> 's disp \<Rightarrow> bool" where
  "run_sample j d \<longleftrightarrow> job_id j = ''a'' \<and> job_retry_delay j = 1000000000 \<and>
     end_status (is_cancelled (job_id j) d) j (Panicked 1) = StatusDelayed \<and> flying (d_in_flight d) (job_name j) = [job_id j]"

lemma sample_m3_run: "run_sample sample_taken sample_m3"
  by code_simp

theorem run_end_status_witness: "job_status ''a'' sample_failed = Inr StatusDelayed"
proof -
  have "end_status (is_cancelled (job_id sample_taken) sample_m3) sample_taken (Panicked 1) = StatusDelayed"
    "job_id sample_taken = ''a''" using sample_m3_run unfolding run_sample_def by blast+
  then show ?thesis using run_end_status [OF sample_failed_eq] sample_m3_ok by metis
qed

theorem backoff_doubles_witness:
  "backoff (sample_taken\<lparr>job_attempt := 2\<rparr>) = 4000000000"
proof -
  have d: "job_retry_delay sample_taken = 1000000000" using sample_m3_run by (simp add: run_sample_def)
  have "backoff (sample_taken\<lparr>job_attempt := 2\<rparr>) =
      job_retry_delay (sample_taken\<lparr>job_attempt := 2\<rparr>) * 2 ^ nat (job_attempt (sample_taken\<lparr>job_attempt := 2\<rparr>))"
    by (rule backoff_doubles) (simp_all add: d int64_defs)
  then show ?thesis by (simp add: d)
qed

theorem pending_retry_is_unprotected_witness:
  "\<exists>nxt\<in>set (d_delay sample_failed). job_id nxt = ''a'' \<and> map_of (d_store sample_failed) ''a'' = None"
proof -
  have f: "end_status (is_cancelled (job_id sample_taken) sample_m3) sample_taken (Panicked 1) = StatusDelayed"
    and i: "job_id sample_taken = ''a''"
    and fl: "flying (d_in_flight sample_m3) (job_name sample_taken) = [job_id sample_taken]"
    using sample_m3_run unfolding run_sample_def by blast+
  have "d_cfg sample_m3 = d_cfg sample_m0" using sample_m3_ok by (simp add: disp_ok_def)
  then have st: "cfg_store (d_cfg sample_m3) = Some memory_ops"
    and sk: "cfg_conflict (d_cfg sample_m3) = ConflictSkip"
    by (simp_all add: sample_m0_def new_dispatcher_def with_store_def Let_def default_config_def)
  from pending_retry_is_unprotected [OF sample_failed_eq conjunct1 [OF sample_m3_ok] conjunct2 [OF sample_m3_ok] f st sk fl, of "''b''"]
  show ?thesis unfolding i by blast
qed

end
