(* ===== verification/Delay_Props.thy ===== *)
theory Delay_Props
  imports Submit_Props
begin

text \<open>
  What the delay loop, a cancellation and a restore do. The delay loop's runs are runs of the drain
  of the delay-queue interface, whose lemmas give the order and the rest.
\<close>

section \<open>Entries of the heap\<close>

lemma mset_heap_push: "mset (heap_push h j) = add_mset j (mset h)"
  using heap_up_basic [of "length h" "h @ [j]"] by (simp add: heap_push_def delay_append_def Let_def)

lemma set_heap_push: "set (heap_push h j) = insert j (set h)"
  by (metis mset_heap_push set_mset_add_mset_insert set_mset_mset)

section \<open>The due entries\<close>

definition is_due :: "time \<Rightarrow> time \<Rightarrow> bool" where
  "is_due now t \<longleftrightarrow> t \<le> now"

lemma rq_push_open:
  assumes "\<not> rq_closed q" "snd (rq_push None q j False) \<noteq> NoReturn"
  shows "rq_items (fst (rq_push None q j False)) = rq_items q @ [j] \<and> \<not> rq_closed (fst (rq_push None q j False))"
  using assms by (auto simp: rq_push_def push_attempt_def rq_signal_def split: if_splits)

lemma pop_due_run:
  "pop_due now d = (d', None) \<Longrightarrow> \<not> rq_closed (d_ready d) \<Longrightarrow>
   \<exists>js. heap_queue.drained (is_due now) (d_delay d) js (d_delay d') \<and>
     rq_items (d_ready d') = rq_items (d_ready d) @ filter (\<lambda>j. job_id j \<notin> d_cancelled d) js"
proof (induction now d arbitrary: d' rule: pop_due.induct)
  case (1 now d)
  let ?h = "d_delay d"
  let ?j = "snd (heap_pop ?h)" and ?d1 = "d\<lparr>d_delay := fst (heap_pop ?h)\<rparr>"
  show ?case
  proof (cases "?h = [] \<or> now < job_run_at (?h ! 0)")
    case True
    then have "d' = d" using 1(3) by (subst (asm) pop_due.simps) (auto split: if_splits)
    moreover have "heap_queue.drained (is_due now) ?h [] ?h"
      using True by (intro heap_queue.drained.stop) (auto simp: is_due_def)
    ultimately show ?thesis by (intro exI [of _ "[]"]) simp
  next
    case False
    then have F: "\<not> ?h = []" "\<not> now < job_run_at (?h ! 0)" by simp_all
    have step: "heap_queue.drained (is_due now) ?h (?j # js) h'"
      if "heap_queue.drained (is_due now) (fst (heap_pop ?h)) js h'" for js h'
      using F that by (intro heap_queue.drained.step) (auto simp: is_due_def)
    show ?thesis
    proof (cases "is_cancelled (job_id ?j) ?d1")
      case True
      let ?d2 = "release_job (job_name ?j) (job_id ?j) (set_status (job_id ?j) StatusCancelled ?d1)"
      have "pop_due now ?d2 = (d', None)" using 1(3) F True by (subst (asm) pop_due.simps) (simp add: Let_def)
      from 1(1) [OF F refl refl True this] 1(4) obtain js where
        "heap_queue.drained (is_due now) (fst (heap_pop ?h)) js (d_delay d')"
        "rq_items (d_ready d') = rq_items (d_ready d) @ filter (\<lambda>j. job_id j \<notin> d_cancelled d) js"
        by (auto simp: disp_simps)
      with step [of js] True show ?thesis by (intro exI [of _ "?j # js"]) (simp add: is_cancelled_def)
    next
      case nc: False
      let ?p = "rq_push None (d_ready ?d1) ?j False"
      let ?d2 = "metric_queued (job_name ?j) 1 (set_status (job_id ?j) StatusQueued (?d1\<lparr>d_ready := fst ?p\<rparr>))"
      have nb: "snd ?p \<noteq> NoReturn" and r: "pop_due now ?d2 = (d', None)"
        using 1(3) F nc by (subst (asm) pop_due.simps, auto simp: Let_def split: if_splits)+
      have o: "rq_items (fst ?p) = rq_items (d_ready d) @ [?j]" "\<not> rq_closed (fst ?p)"
        using rq_push_open [OF _ nb] 1(4) by simp_all
      have "\<exists>js. heap_queue.drained (is_due now) (d_delay ?d2) js (d_delay d') \<and>
          rq_items (d_ready d') = rq_items (d_ready ?d2) @ filter (\<lambda>j. job_id j \<notin> d_cancelled ?d2) js"
        by (rule 1(2) [OF F refl refl nc refl nb r]) (use o in \<open>simp add: disp_simps\<close>)
      then obtain js where
        "heap_queue.drained (is_due now) (fst (heap_pop ?h)) js (d_delay d')"
        "rq_items (d_ready d') = rq_items (fst ?p) @ filter (\<lambda>j. job_id j \<notin> d_cancelled d) js"
        by (auto simp: disp_simps)
      with step [of js] nc o show ?thesis by (intro exI [of _ "?j # js"]) (simp add: is_cancelled_def)
    qed
  qed
qed

section \<open>Draining at shutdown\<close>

lemma drain_run:
  "\<exists>js. heap_queue.drained (\<lambda>t. True) (d_delay d) js (d_delay (drain_delayed d)) \<and>
     d_table (drain_delayed d) = table.marks (d_table d) (map (\<lambda>j. (job_id j, StatusCancelled)) js) \<and>
     d_ready (drain_delayed d) = d_ready d \<and> d_delay (drain_delayed d) = []"
proof (induction d rule: drain_delayed.induct)
  case (1 d)
  show ?case
  proof (cases "d_delay d = []")
    case True
    then show ?thesis
      by (subst (1 2 3 4) drain_delayed.simps) (auto intro!: exI [of _ "[]"] heap_queue.drained.stop)
  next
    case False
    let ?h = "d_delay d"
    let ?j = "snd (heap_pop ?h)" and ?d1 = "d\<lparr>d_delay := fst (heap_pop ?h)\<rparr>"
    let ?d2 = "release_job (job_name ?j) (job_id ?j) (set_status (job_id ?j) StatusCancelled
        (metric_dropped (job_name ?j) (store_delete (job_id ?j) ?d1)))"
    have eq: "drain_delayed d = drain_delayed ?d2" using False by (subst drain_delayed.simps) (simp add: Let_def)
    from 1 [OF False refl refl refl refl refl] obtain js where
      "heap_queue.drained (\<lambda>t. True) (fst (heap_pop ?h)) js (d_delay (drain_delayed ?d2))"
      "d_table (drain_delayed ?d2) = table.marks (mark_status (d_table d) (job_id ?j) StatusCancelled)
        (map (\<lambda>j. (job_id j, StatusCancelled)) js)"
      "d_ready (drain_delayed ?d2) = d_ready d" "d_delay (drain_delayed ?d2) = []"
      by (auto simp: disp_simps)
    moreover from this(1) have "heap_queue.drained (\<lambda>t. True) ?h (?j # js) (d_delay (drain_delayed ?d2))"
      using False by (intro heap_queue.drained.step) auto
    ultimately show ?thesis unfolding eq by (intro exI [of _ "?j # js"]) simp
  qed
qed

section \<open>Cancellation\<close>

lemma remove_first_filter:
  assumes "distinct (map job_id es)"
  shows "(case remove_first jid es of None \<Rightarrow> es | Some es' \<Rightarrow> es') = filter (\<lambda>j. job_id j \<noteq> jid) es"
proof (cases "remove_first jid es")
  case None
  then have "jid \<notin> job_id ` set es" by (simp add: remove_first_None)
  then show ?thesis using None by (auto intro: filter_True [symmetric])
next
  case (Some es')
  from remove_first_Some [OF Some] obtain xs e ys where
    d: "es = xs @ e # ys" "es' = xs @ ys" "job_id e = jid" "jid \<notin> job_id ` set xs"
    by (elim exE conjE)
  then have "jid \<notin> job_id ` set ys" using assms by auto
  then have "\<forall>x\<in>set xs. job_id x \<noteq> jid" "\<forall>x\<in>set ys. job_id x \<noteq> jid" using d(4) by (metis imageI)+
  then have "filter (\<lambda>j. job_id j \<noteq> jid) xs = xs" "filter (\<lambda>j. job_id j \<noteq> jid) ys = ys" by simp_all
  with d Some show ?thesis by simp
qed

lemma rq_remove_filter:
  "distinct (map job_id (rq_items q)) \<Longrightarrow> rq_items (fst (rq_remove q jid)) = filter (\<lambda>j. job_id j \<noteq> jid) (rq_items q)"
  using remove_first_filter [of "rq_items q" jid] by (auto simp: rq_remove_def split: option.splits)

lemma heap_remove_filter:
  assumes "is_heap h" "distinct (map job_id h)"
  shows "mset (heap_remove_id h jid) = filter_mset (\<lambda>j. job_id j \<noteq> jid) (mset h)"
proof (cases "jid \<in> job_id ` set h")
  case True
  then obtain j where j: "job_id j = jid" "mset h = add_mset j (mset (heap_remove_id h jid))"
    using heap_remove_id_spec [OF assms(1), of jid] by auto
  have "distinct (map job_id (j # heap_remove_id h jid))"
    using assms(2) j(2) by (metis mset.simps(2) mset_eq_imp_distinct_iff mset_map)
  then have "jid \<notin> job_id ` set (heap_remove_id h jid)" using j(1) by auto
  then have "filter_mset (\<lambda>j. job_id j \<noteq> jid) (mset (heap_remove_id h jid)) = mset (heap_remove_id h jid)"
    by (auto simp: filter_mset_eq_conv)
  then show ?thesis using j by simp
next
  case False
  then have "heap_remove_id h jid = h" using heap_remove_id_spec [OF assms(1), of jid] by simp
  moreover have "filter (\<lambda>j. job_id j \<noteq> jid) h = h" using False by (intro filter_True) auto
  ultimately show ?thesis by (simp flip: mset_filter)
qed

lemma cancel_by_id_effect:
  "d_ready (cancel_by_id i d) = fst (rq_remove (d_ready d) i) \<and>
   d_delay (cancel_by_id i d) = heap_remove_id (d_delay d) i \<and>
   d_cancelled (cancel_by_id i d) = insert i (d_cancelled d) \<and>
   d_table (cancel_by_id i d) = mark_status (d_table d) i StatusCancelled \<and>
   d_executing (cancel_by_id i d) = (if map_of (d_executing d) i = None then d_executing d
     else AList.update i True (d_executing d)) \<and>
   d_job_names (cancel_by_id i d) i = None"
  by (cases "d_job_names d i") (auto simp: cancel_by_id_def Let_def disp_simps call_cancel_def)

section \<open>Properties\<close>

text \<open>
  C11: A turn of the delay loop on an open queue takes out of the heap exactly the entries whose
  \<open>RunAt\<close> is not after the time read, in the order of \<open>RunAt\<close>, and appends to the ready queue, in
  that order, those that were not cancelled; every entry left is still to come.
\<close>
theorem pop_due_moves_due_entries:
  assumes "pop_due now d = (d', None)" "disp_ok b d" "d_running d"
  shows "\<exists>js. mset (d_delay d) = mset js + mset (d_delay d') \<and> sorted (map job_run_at js) \<and>
    (\<forall>j\<in>set js. job_run_at j \<le> now) \<and> (\<forall>j\<in>set (d_delay d'). now < job_run_at j) \<and>
    rq_items (d_ready d') = rq_items (d_ready d) @ filter (\<lambda>j. job_id j \<notin> d_cancelled d) js"
proof -
  have h: "is_heap (d_delay d)" and o: "\<not> rq_closed (d_ready d)"
    using assms(2,3) by (simp_all add: disp_ok_def delay_fits_def)
  obtain js where js: "heap_queue.drained (is_due now) (d_delay d) js (d_delay d')"
    "rq_items (d_ready d') = rq_items (d_ready d) @ filter (\<lambda>j. job_id j \<notin> d_cancelled d) js"
    using pop_due_run [OF assms(1) o] by blast
  have "\<forall>j\<in>#mset (d_delay d'). \<not> is_due now (job_run_at j)"
    by (rule heap_queue.drained_rest [OF js(1) h]) (auto simp: is_due_def)
  then show ?thesis
    using js heap_queue.drained_entries [OF js(1) h] heap_queue.drained_sorted [OF js(1) h]
      heap_queue.drained_due [OF js(1) h]
    by (intro exI [of _ js]) (auto simp: is_due_def)
qed

text \<open>
  At shutdown the delay loop empties the delay heap, leaves the ready queue alone, and every job
  it dropped is \<open>Cancelled\<close> in the status table, or no longer in it.
\<close>
theorem drain_cancels_delayed:
  assumes "disp_ok b d" "j \<in> set (d_delay d)"
  shows "d_delay (drain_delayed d) = [] \<and> d_ready (drain_delayed d) = d_ready d \<and>
    job_status (job_id j) (drain_delayed d) \<in> {Inr StatusCancelled, Inl ErrJobNotFound}"
proof -
  have h: "is_heap (d_delay d)" and t: "table_ok (d_table d)" using assms(1) by (simp_all add: disp_ok_def delay_fits_def)
  obtain js where js: "heap_queue.drained (\<lambda>t. True) (d_delay d) js (d_delay (drain_delayed d))"
    "d_table (drain_delayed d) = table.marks (d_table d) (map (\<lambda>j. (job_id j, StatusCancelled)) js)"
    "d_ready (drain_delayed d) = d_ready d" "d_delay (drain_delayed d) = []"
    using drain_run by blast
  have "mset (d_delay d) = mset js" using heap_queue.drained_entries [OF js(1) h] js(4) by simp
  then have "j \<in> set js" using assms(2) by (metis set_mset_mset)
  then have "statuses (d_table (drain_delayed d)) (job_id j) \<in> {Some StatusCancelled, None}"
    unfolding js(2) by (intro table.marks_const [OF t] disjI1) (auto simp: image_image)
  then show ?thesis using js by (auto simp: job_status_def table_status_def)
qed

text \<open>
  C17: Cancelling a known job removes it, and nothing else, from the ready queue and from the delay
  heap, whatever their order, marks it as cancelled, calls its cancel function if it runs, and sets
  its status to \<open>Cancelled\<close>; cancelling an unknown one is \<open>ErrJobNotFound\<close> and changes nothing.
\<close>
theorem cancel_effect:
  assumes "disp_ok b d" "distinct (map job_id (rq_items (d_ready d)))" "distinct (map job_id (d_delay d))"
  shows "if statuses (d_table d) jid = None then cancel jid d = (d, Some ErrJobNotFound)
    else snd (cancel jid d) = None \<and>
      rq_items (d_ready (fst (cancel jid d))) = filter (\<lambda>j. job_id j \<noteq> jid) (rq_items (d_ready d)) \<and>
      mset (d_delay (fst (cancel jid d))) = filter_mset (\<lambda>j. job_id j \<noteq> jid) (mset (d_delay d)) \<and>
      jid \<in> d_cancelled (fst (cancel jid d)) \<and>
      (map_of (d_executing d) jid \<noteq> None \<longrightarrow> map_of (d_executing (fst (cancel jid d))) jid = Some True) \<and>
      job_status jid (fst (cancel jid d)) = Inr StatusCancelled"
proof (cases "statuses (d_table d) jid")
  case None
  then show ?thesis by (simp add: cancel_def job_status_def table_status_def)
next
  case (Some st)
  have "is_heap (d_delay d)" "table_ok (d_table d)" using assms(1) by (simp_all add: disp_ok_def delay_fits_def)
  then show ?thesis
    using Some cancel_by_id_effect [of jid d] rq_remove_filter [OF assms(2), of jid]
      heap_remove_filter [OF _ assms(3), of jid]
    by (auto simp: cancel_def job_status_def table_status_def mark_status_lookup update_conv')
qed

text \<open>
  A job that has ended can still be cancelled: its status changes from \<open>Succeeded\<close> to
  \<open>Cancelled\<close>, and its identifier stays in the set of cancellation marks.
\<close>
theorem cancel_overwrites_success:
  assumes "disp_ok b d" "job_status jid d = Inr StatusSucceeded"
  shows "snd (cancel jid d) = None \<and> job_status jid (fst (cancel jid d)) = Inr StatusCancelled \<and>
    jid \<in> d_cancelled (fst (cancel jid d))"
  using assms cancel_by_id_effect [of jid d]
  by (auto simp: disp_ok_def cancel_def job_status_def table_status_def mark_status_lookup)

text \<open>Witnesses on a dispatcher with two delayed jobs.\<close>

definition sample_delayed :: "unit disp" where
  "sample_delayed = fst (submit_entry None (sample_job ''late'' 9000)
     (fst (submit_entry None (sample_job ''q'' 5000) (sample_d1\<lparr>d_cfg := (d_cfg sample_d1)\<lparr>cfg_conflict := ConflictAllow\<rparr>\<rparr>))))"

lemma sample_job_good: "good_job (sample_job i t)"
  by (simp add: good_job_def sample_job_def)

lemma sample_delayed_ok: "disp_ok sample_delayed sample_delayed"
proof -
  let ?d = "sample_d1\<lparr>d_cfg := (d_cfg sample_d1)\<lparr>cfg_conflict := ConflictAllow\<rparr>\<rparr>"
  have "valid_config ((d_cfg sample_d1)\<lparr>cfg_conflict := ConflictAllow\<rparr>)"
    using sample_d1_ok valid_config_updates(11) unfolding disp_ok_def by blast
  moreover have "d_in_flight sample_d1 = Map.empty" by (simp add: sample_d1_def register_handler_def sample_d0_def
        new_dispatcher_def Let_def validate_name_def max_name_length_def)
  ultimately have d: "disp_ok ?d ?d" using sample_d1_ok by (simp add: disp_ok_def queue_fits_def flight_fits_def)
  have "disp_ok ?d (fst (submit_entry None (sample_job ''q'' 5000) ?d))"
    by (rule submit_entry_ok [OF d sample_job_good, of None "''q''" 5000 _ "snd (submit_entry None (sample_job ''q'' 5000) ?d)"]) simp
  then have "disp_ok ?d sample_delayed" unfolding sample_delayed_def
    by (rule submit_entry_ok [OF _ sample_job_good, of _ _ None "''late''" 9000 _
          "snd (submit_entry None (sample_job ''late'' 9000) (fst (submit_entry None (sample_job ''q'' 5000) ?d)))"]) simp
  then show ?thesis by (rule disp_ok_refl)
qed

theorem pop_due_moves_due_entries_witness:
  "\<exists>js. mset (d_delay sample_delayed) = mset js + mset (d_delay (fst (pop_due 6000 sample_delayed))) \<and>
     sorted (map job_run_at js) \<and> rq_items (d_ready (fst (pop_due 6000 sample_delayed))) =
       rq_items (d_ready sample_delayed) @ filter (\<lambda>j. job_id j \<notin> d_cancelled sample_delayed) js"
proof -
  have "Option.is_none (snd (pop_due 6000 sample_delayed))" by code_simp
  then have "pop_due 6000 sample_delayed = (fst (pop_due 6000 sample_delayed), None)"
    by (simp add: prod_eq_iff Option.is_none_def)
  moreover have "d_running sample_delayed" by code_simp
  ultimately show ?thesis using pop_due_moves_due_entries [OF _ sample_delayed_ok] by blast
qed

theorem drain_cancels_delayed_witness:
  "d_delay (drain_delayed sample_delayed) = [] \<and>
   job_status ''q'' (drain_delayed sample_delayed) \<in> {Inr StatusCancelled, Inl ErrJobNotFound}"
proof -
  have "sample_job ''q'' 5000 \<in> set (d_delay sample_delayed)" by code_simp
  from drain_cancels_delayed [OF sample_delayed_ok this] show ?thesis by (simp add: sample_job_def)
qed

definition known_once :: "string \<Rightarrow> 's disp \<Rightarrow> bool" where
  "known_once jid d \<longleftrightarrow> distinct (map job_id (rq_items (d_ready d))) \<and> distinct (map job_id (d_delay d)) \<and>
     \<not> Option.is_none (statuses (d_table d) jid)"

theorem cancel_effect_witness:
  "job_status ''q'' (fst (cancel ''q'' sample_delayed)) = Inr StatusCancelled"
proof -
  have "known_once ''q'' sample_delayed" by code_simp
  then show ?thesis using cancel_effect [OF sample_delayed_ok, of "''q''"]
    by (simp add: known_once_def Option.is_none_def split: if_splits)
qed

theorem cancel_overwrites_success_witness:
  "job_status ''q'' (fst (cancel ''q'' (set_status ''q'' StatusSucceeded sample_d1))) = Inr StatusCancelled"
proof -
  have ok: "disp_ok sample_d1 (set_status ''q'' StatusSucceeded sample_d1)"
    by (rule set_status_disp_ok [OF sample_d1_ok])
  have "job_status ''q'' (set_status ''q'' StatusSucceeded sample_d1) = Inr StatusSucceeded" by code_simp
  from cancel_overwrites_success [OF ok this] show ?thesis by simp
qed

end
