(* ===== verification/Restore_Props.thy ===== *)
theory Restore_Props
  imports Run_Props Delay_Props
begin

text \<open>
  Persistence: what \<open>Restore\<close> brings back from the store, and that a job accepted by one dispatcher
  is found by the next one on the same store, as \<open>examples/advanced/main.go\<close> shows. The properties
  rest on the interpretation of the store interface by the store of that example.
\<close>

definition known_jobs :: "'s disp \<Rightarrow> job list \<Rightarrow> job list" where
  "known_jobs d js = filter (\<lambda>j. d_handlers d (job_name j) \<noteq> None) js"

lemma known_jobs_cong: "d_handlers d' = d_handlers d \<Longrightarrow> known_jobs d' js = known_jobs d js"
  by (simp add: known_jobs_def)

lemma restore_push_effect:
  assumes "restore_push ctx j d = (d', Ok counted)"
  shows "counted \<and> d_handlers d' = d_handlers d \<and> d_delay d' = d_delay d \<and>
    rq_items (d_ready d') = rq_items (d_ready d) @ [j]"
proof -
  obtain q' r where p: "rq_push ctx (d_ready d) j False = (q', r)" by fastforce
  from assms p rq_push_items [OF p] show ?thesis
    by (cases r) (auto simp: restore_push_def disp_simps)
qed

lemma restore_one_effect:
  assumes "restore_one ctx j d = (d', Ok counted)"
  shows "counted = (d_handlers d (job_name j) \<noteq> None) \<and> d_handlers d' = d_handlers d \<and>
    mset (d_delay d') + mset (rq_items (d_ready d')) =
      mset (d_delay d) + mset (rq_items (d_ready d)) + (if counted then {#j#} else {#})"
proof (cases "d_handlers d (job_name j) = None")
  case True
  then show ?thesis using assms by (auto simp: restore_one_def disp_simps)
next
  case False
  let ?d2 = "add_in_flight_for_restore (job_name j) (job_id j) (d\<lparr>d_job_names := (d_job_names d)(job_id j \<mapsto> job_name j)\<rparr>)"
  obtain now d3 where c: "clock_read ?d2 = (now, d3)" by fastforce
  have d3: "d_handlers d3 = d_handlers d" "d_delay d3 = d_delay d" "d_ready d3 = d_ready d"
    using clock_read_frame(2) [OF c] by (simp_all add: add_in_flight_for_restore_def)
  show ?thesis
  proof (cases "now < job_run_at j")
    case True
    then show ?thesis using assms False c d3
      by (auto simp: restore_one_def Let_def disp_simps push_delayed_def mset_heap_push)
  next
    case late: False
    then have "restore_push ctx j d3 = (d', Ok counted)" using assms False c by (auto simp: restore_one_def Let_def)
    from restore_push_effect [OF this] False d3 show ?thesis by simp
  qed
qed

lemma restore_jobs_effect:
  "restore_jobs ctx js n d = (d', Ok m) \<Longrightarrow>
   m = n + length (known_jobs d js) \<and>
   mset (d_delay d') + mset (rq_items (d_ready d')) =
     mset (d_delay d) + mset (rq_items (d_ready d)) + mset (known_jobs d js)"
proof (induction ctx js n d rule: restore_jobs.induct)
  case (1 ctx n d)
  then show ?case by (simp add: known_jobs_def)
next
  case (2 ctx j js n d)
  obtain d1 r where o: "restore_one ctx j d = (d1, r)" by fastforce
  obtain counted where r: "r = Ok counted" using 2(2) o by (cases r) auto
  note e = restore_one_effect [OF o [unfolded r]]
  have "restore_jobs ctx js (if counted then Suc n else n) d1 = (d', Ok m)" using 2(2) o r by simp
  from 2(1) [OF o [symmetric] r this] e known_jobs_cong [of d1 d js] show ?case
    by (auto simp: known_jobs_def)
qed

text \<open>
  \<open>Restore\<close> as the sum of its turns: what \<open>restore_jobs\<close> computes at one go, the system does in steps
  between which the other goroutines may act.
\<close>

lemma restore_jobs_steps:
  assumes "restore_jobs ctx js n d = (d', Ok m)"
  shows "(world_step rand)\<^sup>*\<^sup>* (w\<lparr>w_disp := d, w_restores := rs @ [(False, js)], w_crashed := False\<rparr>)
    (w\<lparr>w_disp := d', w_restores := rs @ [(False, [])], w_crashed := False\<rparr>)"
  using assms
proof (induction ctx js n d rule: restore_jobs.induct)
  case (1 ctx n d)
  then show ?case by simp
next
  case (2 ctx j js n d)
  obtain d1 r where o: "restore_one ctx j d = (d1, r)" by fastforce
  obtain counted where r: "r = Ok counted" using 2(2) o by (cases r) auto
  have rest: "restore_jobs ctx js (if counted then Suc n else n) d1 = (d', Ok m)" using 2(2) o r by simp
  let ?w = "\<lambda>d js. w\<lparr>w_disp := d, w_restores := rs @ [(False, js)], w_crashed := False\<rparr>"
  have "world_step rand (?w d (j # js)) (?w d1 js)"
    using world_step.restore_next [of "length rs" "?w d (j # js)" False j js ctx d1 r rand] o r
    by (simp add: restore_turn_def restores_after_def)
  with 2(1) [OF o [symmetric] r rest] show ?case by (rule converse_rtranclp_into_rtranclp [rotated])
qed

section \<open>The store of an accepted job\<close>

lemma persist_saved:
  assumes "persist j d = (d', None)" "cfg_store (d_cfg d) = Some memory_ops" "memory_good (d_store d)"
  shows "memory_good (d_store d') \<and> map_of (d_store d') (job_id j) = Some j \<and> d_cfg d' = d_cfg d"
proof -
  obtain s' where s': "st_save memory_ops (d_store d) j = (s', None)" "d' = d\<lparr>d_store := s'\<rparr>"
    using assms(1,2) by (auto simp: persist_def split: prod.splits option.splits)
  then show ?thesis using mem.save_law [OF assms(3), of j] by simp
qed

lemma accepted_is_stored:
  assumes "submit_entry ctx j d = (d', Ok jid)" "cfg_conflict (d_cfg d) \<noteq> ConflictReplace"
    "cfg_store (d_cfg d) = Some memory_ops" "memory_good (d_store d)"
  shows "memory_good (d_store d') \<and> map_of (d_store d') (job_id j) = Some j"
proof -
  obtain d1 c where ac: "apply_conflict j d = (d1, c)" by fastforce
  have c: "c = None" using assms(1) ac by (cases c) (auto simp: submit_entry_def)
  have d1: "d_cfg d1 = d_cfg d" "d_store d1 = d_store d"
    using ac assms(2) by (auto simp: apply_conflict_def Let_def disp_simps split: if_splits)
  let ?d2 = "d1\<lparr>d_job_names := (d_job_names d1)(job_id j \<mapsto> job_name j)\<rparr>"
  obtain t d3 where cl: "clock_read ?d2 = (t, d3)" by fastforce
  have d3: "d_cfg d3 = d_cfg d" "d_store d3 = d_store d" using clock_read_frame(2) [OF cl] d1 by simp_all
  have push: "d_store x' = d_store x" if "submit_push ctx j x = (x', Ok jid)" for x x'
  proof -
    obtain x1 r where e: "enqueue_ready ctx j x = (x1, r)" by fastforce
    have "d_store x1 = d_store x"
      using e by (auto simp: enqueue_ready_def disp_simps split: prod.splits outcome.splits if_splits)
    then show ?thesis using that e
      by (cases r) (auto simp: submit_push_def submit_accepted_def disp_simps)
  qed
  have now: "memory_good (d_store d') \<and> map_of (d_store d') (job_id j) = Some j"
    if "submit_now ctx j x = (d', Ok jid)" "d_cfg x = d_cfg d" "d_store x = d_store d" for x
  proof -
    obtain x1 pr where p: "persist j x = (x1, pr)" by fastforce
    have "pr = None" using that(1) p by (cases pr) (auto simp: submit_now_def)
    then show ?thesis using persist_saved [of j x x1] p that assms(3,4) push [of x1 d'] by (simp add: submit_now_def)
  qed
  have later: "memory_good (d_store d') \<and> map_of (d_store d') (job_id j) = Some j"
    if "submit_later j x = (d', Ok jid)" "d_cfg x = d_cfg d" "d_store x = d_store d" for x
  proof -
    obtain x1 pr where p: "persist j x = (x1, pr)" by fastforce
    have "pr = None" using that(1) p by (cases pr) (auto simp: submit_later_def)
    then show ?thesis using persist_saved [of j x x1] p that assms(3,4)
      by (auto simp: submit_later_def disp_simps push_delayed_def)
  qed
  show ?thesis
    using assms(1) ac c cl now [of ?d2] now [of d3] later [of d3] d1 d3
    by (auto simp: submit_entry_def Let_def split: if_splits)
qed

section \<open>Properties\<close>

lemma restore_effect:
  assumes "restore ctx d = (d', Ok m)" "cfg_store (d_cfg d) = Some memory_ops" "memory_good (d_store d)"
  shows "\<exists>js. distinct (map job_id js) \<and> set js = ran (map_of (d_store d)) \<and> m = length (known_jobs d js) \<and>
    mset (d_delay d') + mset (rq_items (d_ready d')) =
      mset (d_delay d) + mset (rq_items (d_ready d)) + mset (known_jobs d js)"
proof -
  obtain s' js where l: "st_list memory_ops (d_store d) = (s', Inr js)" by (simp add: memory_ops_def memory_list_def)
  then have r: "restore_jobs ctx js 0 (d\<lparr>d_store := s'\<rparr>) = (d', Ok m)" using assms(1,2) by (simp add: restore_def)
  have "distinct (map job_id js) \<and> set js = ran (map_of (d_store d))" using mem.list_law [OF assms(3)] l by simp
  then show ?thesis using restore_jobs_effect [OF r] by (intro exI [of _ js]) (simp add: known_jobs_def)
qed

text \<open>
  C29: \<open>Restore\<close> on the in-memory store, when it does not fail, brings back every stored job whose
  handler is registered, each exactly once, into the ready queue or the delay heap, next to what was
  there, and returns their number.
\<close>
theorem restore_brings_back_all:
  assumes "restore ctx d = (d', Ok m)" "cfg_store (d_cfg d) = Some memory_ops" "memory_good (d_store d)"
  shows "\<exists>js. distinct (map job_id js) \<and> set js = ran (map_of (d_store d)) \<and> m = length (known_jobs d js) \<and>
    mset (d_delay d') + mset (rq_items (d_ready d')) =
      mset (d_delay d) + mset (rq_items (d_ready d)) + mset (known_jobs d js)"
  using assms by (rule restore_effect)

text \<open>
  C26: A job that one dispatcher accepted survives a crash: a second dispatcher on the same store,
  with a handler for its name, has it in its ready queue or its delay heap after \<open>Restore\<close>, with its
  identifier, payload, attempt and time unchanged.
\<close>
theorem accepted_job_survives_restart:
  assumes accepted: "submit_entry ctx j d = (d', Ok jid)" "cfg_conflict (d_cfg d) \<noteq> ConflictReplace"
      "cfg_store (d_cfg d) = Some memory_ops" "memory_good (d_store d)"
    and restarted: "d_store e = d_store d'" "cfg_store (d_cfg e) = Some memory_ops"
      "d_handlers e (job_name j) \<noteq> None" "restore ctx' e = (e', Ok m)"
  shows "j \<in> set (d_delay e') \<union> set (rq_items (d_ready e'))"
proof -
  have st: "memory_good (d_store e)" "map_of (d_store e) (job_id j) = Some j"
    using accepted_is_stored [OF accepted] restarted(1) by simp_all
  obtain js where js: "set js = ran (map_of (d_store e))"
    "mset (d_delay e') + mset (rq_items (d_ready e')) =
      mset (d_delay e) + mset (rq_items (d_ready e)) + mset (known_jobs e js)"
    using restore_effect [OF restarted(4,2) st(1)] by blast
  have "j \<in> set js" using st(2) js(1) by (auto intro: ranI)
  then have "j \<in># mset (known_jobs e js)" using restarted(3) by (simp add: known_jobs_def)
  then have "j \<in># mset (d_delay e') + mset (rq_items (d_ready e'))" unfolding js(2) by simp
  then show ?thesis by simp
qed

text \<open>Witnesses: a delayed job accepted by one dispatcher, and a new dispatcher on its store.\<close>

definition sample_s1 :: "memory_store disp" where
  "sample_s1 = fst (submit_entry None (sample_job ''q'' 5000) sample_m1)"

definition sample_s2 :: "memory_store disp" where
  "sample_s2 = fst (register_handler ''n'' (Some 7)
     (projr (new_dispatcher sample_clock (d_store sample_s1) [with_store (Some memory_ops)])))"

definition sample_s3 :: "memory_store disp" where
  "sample_s3 = fst (restore None sample_s2)"

lemma sample_m1_cfg: "cfg_store (d_cfg sample_m1) = Some memory_ops" "cfg_conflict (d_cfg sample_m1) \<noteq> ConflictReplace"
  "d_store sample_m1 = []"
  by (simp_all add: sample_m1_def sample_m0_def register_handler_def new_dispatcher_def with_store_def Let_def
      default_config_def validate_name_def max_name_length_def ConflictReplace_def ConflictSkip_def)

lemma sample_s2_frame: "d_store sample_s2 = d_store sample_s1" "cfg_store (d_cfg sample_s2) = Some memory_ops"
  "d_handlers sample_s2 ''n'' = Some 7"
  by (simp_all add: sample_s2_def register_handler_def new_dispatcher_def with_store_def Let_def
      default_config_def validate_name_def max_name_length_def)

lemma sample_s1_eq: "submit_entry None (sample_job ''q'' 5000) sample_m1 = (sample_s1, Ok ''q'')"
proof -
  have "snd (submit_entry None (sample_job ''q'' 5000) sample_m1) = Ok ''q''" by code_simp
  then show ?thesis by (simp add: sample_s1_def prod_eq_iff)
qed

lemma sample_s3_eq: "restore None sample_s2 = (sample_s3, Ok 1)"
proof -
  have "snd (restore None sample_s2) = Ok 1" by code_simp
  then show ?thesis by (simp add: sample_s3_def prod_eq_iff)
qed

lemma sample_s1_store: "memory_good (d_store sample_s1)"
proof -
  have "memory_good (d_store sample_m1)" by (simp add: sample_m1_cfg memory_good_def)
  then show ?thesis using accepted_is_stored [OF sample_s1_eq sample_m1_cfg(2,1)] by simp
qed

theorem restore_brings_back_all_witness:
  "\<exists>js. 1 = length (known_jobs sample_s2 js) \<and> set js = ran (map_of (d_store sample_s2))"
  using restore_brings_back_all [OF sample_s3_eq sample_s2_frame(2)] sample_s1_store sample_s2_frame(1) by auto

theorem accepted_job_survives_restart_witness:
  "sample_job ''q'' 5000 \<in> set (d_delay sample_s3) \<union> set (rq_items (d_ready sample_s3))"
proof (rule accepted_job_survives_restart [OF sample_s1_eq sample_m1_cfg(2,1) _ sample_s2_frame(1,2) _ sample_s3_eq])
  show "memory_good (d_store sample_m1)" by (simp add: sample_m1_cfg memory_good_def)
  show "d_handlers sample_s2 (job_name (sample_job ''q'' 5000)) \<noteq> None"
    using sample_s2_frame(3) by (simp add: sample_job_def)
qed

end
