(* ===== verification/System_Runs.thy ===== *)
theory System_Runs
  imports Dispatcher_System
begin

text \<open>
  What the proofs on the steps of the system share: what a step takes from the queue and what the delay
  loop holds, and runs of a system in which no submission waits.
\<close>

section \<open>Parts of a step\<close>

lemma enqueue_effect:
  assumes "enqueue_ready ctx j d = (d', r)"
  shows "d_table d' = d_table d \<and> d_delay d' = d_delay d \<and> d_stopped d' = d_stopped d \<and>
    rq_items (d_ready d') = (if r = Ok () then rq_items (d_ready d) @ [j] else rq_items (d_ready d))"
proof -
  obtain q' r' where p: "rq_push ctx (d_ready d) j (cfg_queue_policy (d_cfg d) = QueueFullDrop) = (q', r')" by fastforce
  from rq_push_items [OF p] assms p show ?thesis
    by (auto simp: enqueue_ready_def disp_simps split: outcome.splits if_splits)
qed

text \<open>What the delay loop holds after a turn.\<close>

fun loop_holds :: "loop_result \<Rightarrow> job option" where
  "loop_holds (LoopHolds j now) = Some j"
| "loop_holds r = None"

fun delay_holds :: "delay_state \<Rightarrow> job option" where
  "delay_holds (DelayHolds j now) = Some j"
| "delay_holds st = None"

lemma delay_holds_after [simp]: "delay_holds (delay_after r) = loop_holds r"
  by (cases r) simp_all

lemma set_remove_nth: "i < length xs \<Longrightarrow> set xs \<subseteq> insert (xs ! i) (set (remove_nth i xs))"
  by (subst id_take_nth_drop [of i xs]) (auto simp: remove_nth_def)

lemma rq_pop_items: "rq_pop q = (q', Ok (Some j)) \<Longrightarrow> rq_items q = j # rq_items q'"
  by (auto simp: rq_pop_def pop_attempt_def rq_signal_def split: list.splits if_splits)

section \<open>Runs without waiting submissions\<close>

definition calm :: "'s disp \<Rightarrow> delay_state \<Rightarrow> 's world" where
  "calm d st = \<lparr>w_disp = d, w_active = [], w_waiting = [], w_delay = st, w_restores = [], w_crashed = False\<rparr>"

lemma calm_register: "world_step rand (calm d st) (calm (fst (register_handler name h d)) st)"
  using world_step.register [of name h "calm d st" _ "snd (register_handler name h d)" rand]
  by (simp add: calm_def prod_eq_iff)

lemma calm_submit:
  assumes "set opts \<subseteq> submit_options" "snd (submit_with_options rand None name [] opts d) = Ok jid"
  shows "world_step rand (calm d st) (calm (fst (submit_with_options rand None name [] opts d)) st)"
  using world_step.submit [OF assms(1), of rand None name "[]" "calm d st" _ "Ok jid"] assms(2)
  by (simp add: calm_def prod_eq_iff)

lemma calm_shut: "world_step rand (calm d st) (calm (shutdown_begin d) st)"
  using world_step.shut [of rand "calm d st"] by (simp add: calm_def)

lemma calm_pop:
  assumes "d_delay d \<noteq> []" "snd (pop_due now d) = Some j"
  shows "world_step rand (calm d DelayIdle) (calm (fst (pop_due now d)) (DelayHolds j now))"
  using world_step.delay [of "calm d DelayIdle" "TimerFired now" "fst (pop_due now d)" "LoopHolds j now" rand] assms
  by (simp add: calm_def delay_turn_def popped_def)

lemma calm_resume:
  assumes "snd (pop_due_resume now j d) = None"
  shows "world_step rand (calm d (DelayHolds j now)) (calm (fst (pop_due_resume now j d)) DelayIdle)"
  using world_step.delay_resume [of "calm d (DelayHolds j now)" j now "fst (pop_due_resume now j d)" LoopAgain rand] assms
  by (simp add: calm_def popped_def)

text \<open>What such runs need to be known of a taken entry, as predicates that can be evaluated.\<close>

definition takes_one :: "ready_queue \<times> (go_err, job option) outcome \<Rightarrow> job \<Rightarrow> bool" where
  "takes_one r j \<longleftrightarrow> (case snd r of Ok (Some k) \<Rightarrow> k = j | _ \<Rightarrow> False)"

definition begun_at :: "(nat \<times> time \<times> duration option) option \<Rightarrow> time \<Rightarrow> bool" where
  "begun_at r start \<longleftrightarrow> (case r of Some (h, t, timeout) \<Rightarrow> t = start | None \<Rightarrow> False)"

lemma calm_take:
  assumes "takes_one (rq_pop (d_ready d)) j" "begun_at (snd (run_begin j (d\<lparr>d_ready := fst (rq_pop (d_ready d))\<rparr>))) start"
    "0 < cfg_workers (d_cfg d)"
  shows "world_step rand (calm d st)
    ((calm (fst (run_begin j (d\<lparr>d_ready := fst (rq_pop (d_ready d))\<rparr>))) st)\<lparr>w_active := [(j, start)]\<rparr>)"
proof -
  obtain q' where q: "rq_pop (d_ready d) = (q', Ok (Some j))"
    using assms(1) by (cases "rq_pop (d_ready d)") (auto simp: takes_one_def split: outcome.splits option.splits)
  obtain d' h timeout where r: "run_begin j (d\<lparr>d_ready := q'\<rparr>) = (d', Some (h, start, timeout))"
    using assms(2) q by (cases "run_begin j (d\<lparr>d_ready := q'\<rparr>)") (auto simp: begun_at_def split: option.splits)
  show ?thesis
    using world_step.worker_take [of "calm d st" q' j d' "Some (h, start, timeout)" rand] q r assms(3)
    by (simp add: calm_def)
qed

end
