(* ===== verification/Job_Places.thy ===== *)
theory Job_Places
  imports Restore_Props System_Runs
begin

text \<open>
  What the status of a job tells about where the job is. In every state a dispatcher reaches, a job
  that is \<open>Queued\<close> is in the ready queue, one that is \<open>Delayed\<close> is in the delay heap or held by the
  delay loop, and one that is \<open>Running\<close> has a handler running; so no accepted job is lost without a
  final status. Shutdown breaks this in two ways, which are stated at the end.
\<close>

section \<open>Statuses and places\<close>

definition tells :: "status_table \<Rightarrow> string set \<Rightarrow> string set \<Rightarrow> string set \<Rightarrow> bool" where
  "tells t Q D A \<longleftrightarrow> table_ok t \<and>
     (\<forall>i. (statuses t i = Some StatusQueued \<longrightarrow> i \<in> Q) \<and> (statuses t i = Some StatusDelayed \<longrightarrow> i \<in> D) \<and>
        (statuses t i = Some StatusRunning \<longrightarrow> i \<in> A))"

text \<open>The one step: job \<open>k\<close> moves, and its status is set to what fits its new place.\<close>

lemma tells_mark:
  assumes "tells t Q D A" "Q - {k} \<subseteq> Q'" "D - {k} \<subseteq> D'" "A - {k} \<subseteq> A'"
    and "v = StatusQueued \<Longrightarrow> k \<in> Q'" "v = StatusDelayed \<Longrightarrow> k \<in> D'" "v = StatusRunning \<Longrightarrow> k \<in> A'"
  shows "tells (mark_status t k v) Q' D' A'"
proof -
  have t: "table_ok t" using assms(1) by (simp add: tells_def)
  have "(statuses (mark_status t k v) i = Some StatusQueued \<longrightarrow> i \<in> Q') \<and>
      (statuses (mark_status t k v) i = Some StatusDelayed \<longrightarrow> i \<in> D') \<and>
      (statuses (mark_status t k v) i = Some StatusRunning \<longrightarrow> i \<in> A')" for i
    using assms unfolding tells_def mark_status_lookup [OF t] by (cases "i = k") auto
  then show ?thesis using mark_status_ok [OF t] by (simp add: tells_def)
qed

lemma tells_mono: "tells t Q D A \<Longrightarrow> Q \<subseteq> Q' \<Longrightarrow> D \<subseteq> D' \<Longrightarrow> A \<subseteq> A' \<Longrightarrow> tells t Q' D' A'"
  unfolding tells_def by blast

text \<open>
  The places of a dispatcher, with the identifiers \<open>H\<close> held by the delay loop and \<open>A\<close> of running
  handlers. After a stop \<open>Queued\<close> tells nothing any more.
\<close>

definition queue_ids :: "'s disp \<Rightarrow> string set" where
  "queue_ids d = (if d_stopped d then UNIV else job_id ` set (rq_items (d_ready d)))"

definition heap_ids :: "'s disp \<Rightarrow> string set" where
  "heap_ids d = job_id ` set (d_delay d)"

definition told :: "string set \<Rightarrow> string set \<Rightarrow> 's disp \<Rightarrow> bool" where
  "told H A d \<longleftrightarrow> tells (d_table d) (queue_ids d) (heap_ids d \<union> H) A"

lemma told_same:
  assumes "d_table d' = d_table d" "rq_items (d_ready d') = rq_items (d_ready d)" "d_delay d' = d_delay d"
    "d_stopped d' = d_stopped d"
  shows "told H A d' = told H A d"
  using assms by (simp add: told_def queue_ids_def heap_ids_def)

lemma told_mark:
  assumes "told H A d" "d_table d' = mark_status (d_table d) k v"
    and "queue_ids d - {k} \<subseteq> queue_ids d'" "heap_ids d \<union> H - {k} \<subseteq> heap_ids d' \<union> H'" "A - {k} \<subseteq> A'"
    and "v = StatusQueued \<Longrightarrow> k \<in> queue_ids d'" "v = StatusDelayed \<Longrightarrow> k \<in> heap_ids d' \<union> H'" "v = StatusRunning \<Longrightarrow> k \<in> A'"
  shows "told H' A' d'"
  using assms unfolding told_def by (simp add: tells_mark)

section \<open>Cancellation\<close>

lemma rq_remove_ids: "job_id ` set (rq_items q) - {i} \<subseteq> job_id ` set (rq_items (fst (rq_remove q i)))"
proof (cases "remove_first i (rq_items q)")
  case None
  then show ?thesis by (auto simp: rq_remove_def)
next
  case (Some es)
  from remove_first_Some [OF Some] obtain xs e ys where
    "rq_items q = xs @ e # ys" "es = xs @ ys" "job_id e = i" by (elim exE conjE)
  then show ?thesis using Some by (auto simp: rq_remove_def)
qed

lemma heap_remove_id_ids:
  assumes "is_heap h"
  shows "job_id ` set h - {i} \<subseteq> job_id ` set (heap_remove_id h i)"
proof (cases "i \<in> job_id ` set h")
  case True
  then obtain j where j: "job_id j = i" "mset h = add_mset j (mset (heap_remove_id h i))"
    using heap_remove_id_spec [OF assms, of i] by auto
  then have "set h = insert j (set (heap_remove_id h i))" by (metis set_mset_add_mset_insert set_mset_mset)
  then show ?thesis using j(1) by auto
next
  case False
  then show ?thesis using heap_remove_id_spec [OF assms, of i] by simp
qed

lemma cancel_by_id_stopped [disp_simps]: "d_stopped (cancel_by_id i d) = d_stopped d"
  by (auto simp: cancel_by_id_def Let_def disp_simps call_cancel_def split: option.splits)

lemma cancel_by_id_told:
  assumes "told H A d" "disp_ok b d"
  shows "told H A (cancel_by_id i d)"
proof (rule told_mark [OF assms(1)])
  note e = cancel_by_id_effect [of i d]
  have h: "is_heap (d_delay d)" using assms(2) by (simp add: disp_ok_def delay_fits_def)
  show "d_table (cancel_by_id i d) = mark_status (d_table d) i StatusCancelled" using e by simp
  show "queue_ids d - {i} \<subseteq> queue_ids (cancel_by_id i d)"
    using e rq_remove_ids [of "d_ready d" i] by (simp add: queue_ids_def disp_simps)
  show "heap_ids d \<union> H - {i} \<subseteq> heap_ids (cancel_by_id i d) \<union> H"
    using e heap_remove_id_ids [OF h, of i] by (auto simp: heap_ids_def)
qed auto

lemma fold_cancel_told: "told H A d \<Longrightarrow> disp_ok b d \<Longrightarrow> told H A (fold cancel_by_id is d)"
  by (induction "is" arbitrary: d) (auto simp: cancel_by_id_told cancel_by_id_ok)

lemma cancel_told:
  assumes "told H A d" "disp_ok b d" "cancel jid d = (d', e)"
  shows "told H A d'"
  using assms cancel_by_id_told [OF assms(1,2)]
  by (auto simp: cancel_def split: sum.splits if_splits)

section \<open>Submission\<close>

lemma submit_push_told:
  assumes "told H A d" "submit_push ctx j d = (d', r)"
  shows "told H A d'"
proof -
  obtain d1 r1 where e: "enqueue_ready ctx j d = (d1, r1)" by fastforce
  note f = enqueue_effect [OF e]
  show ?thesis
  proof (cases "r1 = Ok ()")
    case True
    then have d': "d' = submit_accepted j d1" using assms(2) e by (simp add: submit_push_def)
    show ?thesis
      by (rule told_mark [OF assms(1), where k = "job_id j" and v = StatusQueued])
        (use f True in \<open>auto simp: d' submit_accepted_def disp_simps queue_ids_def heap_ids_def\<close>)
  next
    case False
    then have "told H A d1" using told_same [of d1 d] f assms(1) by simp
    moreover have "told H A (release_job n i (store_delete i x)) = told H A x" for n i and x :: "'a disp"
      by (rule told_same) (simp_all add: disp_simps)
    ultimately show ?thesis using assms(2) e False by (cases r1) (auto simp: submit_push_def)
  qed
qed

lemma persist_told: "told H A d \<Longrightarrow> persist j d = (d', r) \<Longrightarrow> told H A d'"
  using persist_frame [of j d d' r] told_same [of d' d] by auto

lemma release_told: "told H A (release_job n i d) = told H A d"
  by (rule told_same) (simp_all add: disp_simps)

lemma submit_now_told:
  assumes "told H A d" "submit_now ctx j d = (d', r)"
  shows "told H A d'"
proof -
  obtain d1 e where p: "persist j d = (d1, e)" by fastforce
  with persist_told [OF assms(1) p] assms(2) submit_push_told show ?thesis
    by (cases e) (auto simp: submit_now_def release_told)
qed

lemma submit_later_told:
  assumes "told H A d" "submit_later j d = (d', r)"
  shows "told H A d'"
proof -
  obtain d1 e where p: "persist j d = (d1, e)" by fastforce
  have t: "told H A d1" by (rule persist_told [OF assms(1) p])
  show ?thesis
  proof (cases e)
    case None
    then have d': "d' = log_submit j (set_status (job_id j) StatusDelayed (push_delayed j d1))"
      using assms(2) p by (simp add: submit_later_def)
    show ?thesis
      by (rule told_mark [OF t, where k = "job_id j" and v = StatusDelayed])
        (auto simp: d' disp_simps push_delayed_def queue_ids_def heap_ids_def set_heap_push)
  next
    case (Some x)
    then show ?thesis using t assms(2) p by (auto simp: submit_later_def release_told)
  qed
qed

lemma apply_conflict_told:
  assumes "told H A d" "disp_ok b d" "apply_conflict j d = (d', r)"
  shows "told H A d'"
proof -
  have s: "told H A (d\<lparr>d_in_flight := f\<rparr>) = told H A d" for f by (rule told_same) simp_all
  have l: "told H A (log_replaced j (metric_replaced n x)) = told H A x" "told H A (log_skipped j (metric_skipped n x)) = told H A x"
    for n and x :: "'a disp" by (rule told_same; simp add: disp_simps)+
  have f: "told H A (fold cancel_by_id is (d\<lparr>d_in_flight := add_in_flight f (job_name j) (job_id j)\<rparr>))"
    if "cfg_conflict (d_cfg d) \<noteq> ConflictAllow" "flight_fits (d_cfg d) f" for "is" f
  proof (rule fold_cancel_told)
    show "disp_ok b (d\<lparr>d_in_flight := add_in_flight f (job_name j) (job_id j)\<rparr>)"
      using assms(2) that flight_fits_add [of "d_cfg d" f] by (simp add: disp_ok_def)
  qed (simp add: s assms(1))
  have "flight_fits (d_cfg d) (d_in_flight d)" using assms(2) by (simp add: disp_ok_def)
  then show ?thesis using assms(1,3) f
    by (auto simp: apply_conflict_def Let_def s l flight_fits_clear split: if_splits)
qed

lemma submit_entry_told:
  assumes "told H A d" "disp_ok b d" "submit_entry ctx j d = (d', r)"
  shows "told H A d'"
proof -
  obtain d1 c where ac: "apply_conflict j d = (d1, c)" by fastforce
  let ?d2 = "d1\<lparr>d_job_names := (d_job_names d1)(job_id j \<mapsto> job_name j)\<rparr>"
  obtain t d3 where cl: "clock_read ?d2 = (t, d3)" by fastforce
  have "told H A d1" by (rule apply_conflict_told [OF assms(1,2) ac])
  then have t2: "told H A ?d2" using told_same [of ?d2 d1] by simp
  then have "told H A d3" using told_same [of d3 ?d2] clock_read_frame(2) [OF cl] by simp
  then show ?thesis
    using assms(3) ac cl \<open>told H A d1\<close> t2 submit_now_told submit_later_told
    by (cases c) (auto simp: submit_entry_def Let_def release_told split: if_splits)
qed

lemma submit_told:
  assumes "told H A d" "disp_ok b d" "submit_with_options rand ctx name payload opts d = (d', r)"
  shows "told H A d'"
proof (cases "apply_opts opts empty_spec")
  case (Inl e)
  then show ?thesis using assms by (simp add: submit_with_options_def)
next
  case (Inr spec)
  obtain d1 x where b: "build_entry rand name payload spec d = (d1, x)" by fastforce
  have "told H A d1"
  proof -
    have "d_table d1 = d_table d \<and> d_ready d1 = d_ready d \<and> d_delay d1 = d_delay d \<and> d_stopped d1 = d_stopped d"
      using b by (auto simp: build_entry_def new_job_id_def clock_read_def split: option.splits if_splits sum.splits)
    then show ?thesis using told_same [of d1 d] assms(1) by simp
  qed
  moreover have "disp_ok b d1" using build_entry_ok [OF assms(2) b] by simp
  ultimately show ?thesis using assms(3) Inr b submit_entry_told
    by (cases x) (auto simp: submit_with_options_def)
qed

section \<open>Restore\<close>

lemma restore_push_told:
  assumes "told H A d" "restore_push ctx j d = (d', r)"
  shows "told H A d'"
proof -
  obtain q' r' where p: "rq_push ctx (d_ready d) j False = (q', r')" by fastforce
  have q: "rq_items q' = (if r' = Ok () then rq_items (d_ready d) @ [j] else rq_items (d_ready d))"
    by (rule rq_push_items [OF p])
  show ?thesis
  proof (cases r')
    case (Ok u)
    then have d': "d' = metric_queued (job_name j) 1 (set_status (job_id j) StatusQueued (d\<lparr>d_ready := q'\<rparr>))"
      using assms(2) p by (simp add: restore_push_def)
    show ?thesis
      by (rule told_mark [OF assms(1), where k = "job_id j" and v = StatusQueued])
        (use q Ok in \<open>auto simp: d' disp_simps queue_ids_def heap_ids_def\<close>)
  qed (use assms p q told_same [of d' d] in \<open>simp_all add: restore_push_def, auto\<close>)
qed

lemma restore_turn_told:
  assumes "told H A d" "restore_turn waited ctx j d = (d', r)"
  shows "told H A d'"
proof (cases waited)
  case True
  then show ?thesis using assms restore_push_told by (simp add: restore_turn_def)
next
  case False
  then have o: "restore_one ctx j d = (d', r)" using assms(2) by (simp add: restore_turn_def)
  show ?thesis
  proof (cases "d_handlers d (job_name j) = None")
    case True
    then show ?thesis using o assms(1) told_same [of d' d] by (auto simp: restore_one_def disp_simps)
  next
    case False
    let ?d2 = "add_in_flight_for_restore (job_name j) (job_id j) (d\<lparr>d_job_names := (d_job_names d)(job_id j \<mapsto> job_name j)\<rparr>)"
    obtain now d3 where c: "clock_read ?d2 = (now, d3)" by fastforce
    have "told H A ?d2" using assms(1) told_same [of ?d2 d] by (simp add: add_in_flight_for_restore_def)
    then have t3: "told H A d3" using told_same [of d3 ?d2] clock_read_frame(2) [OF c] by simp
    then have "told H A (set_status (job_id j) StatusDelayed (push_delayed j d3))"
      by (rule told_mark [where k = "job_id j" and v = StatusDelayed])
        (auto simp: disp_simps push_delayed_def queue_ids_def heap_ids_def set_heap_push)
    then show ?thesis using o False c restore_push_told [OF t3]
      by (auto simp: restore_one_def Let_def split: if_splits)
  qed
qed

section \<open>The delay loop\<close>

definition held_ids :: "job option \<Rightarrow> string set" where
  "held_ids h = (case h of None \<Rightarrow> {} | Some j \<Rightarrow> {job_id j})"

text \<open>The push of a due entry: when it is refused, the queue is closed and the dispatcher stopped.\<close>

lemma due_push_told:
  assumes "told H A d" "disp_ok b d" "heap_ids d \<union> H - {job_id j} \<subseteq> heap_ids d0"
    and "rq_push None (d_ready d0) j False = (q', r)" "r \<noteq> NoReturn"
    and d0: "d_table d0 = d_table d" "d_ready d0 = d_ready d" "d_stopped d0 = d_stopped d"
  shows "told {} A (metric_queued (job_name j) 1 (set_status (job_id j) StatusQueued (d0\<lparr>d_ready := q'\<rparr>)))"
proof (rule told_mark [OF assms(1), where k = "job_id j" and v = StatusQueued])
  have q: "rq_items q' = (if r = Ok () then rq_items (d_ready d) @ [j] else rq_items (d_ready d))"
    using rq_push_items [OF assms(4)] d0 by simp
  have "d_stopped d" if "r \<noteq> Ok ()"
  proof -
    have "rq_closed (d_ready d)" using assms(4,5) that d0
      by (auto simp: rq_push_def push_attempt_def split: if_splits)
    then show ?thesis using assms(2) by (simp add: disp_ok_def)
  qed
  then show "job_id j \<in> queue_ids (metric_queued (job_name j) 1 (set_status (job_id j) StatusQueued (d0\<lparr>d_ready := q'\<rparr>)))"
    using q d0 by (auto simp: disp_simps queue_ids_def)
  show "queue_ids d - {job_id j} \<subseteq> queue_ids (metric_queued (job_name j) 1 (set_status (job_id j) StatusQueued (d0\<lparr>d_ready := q'\<rparr>)))"
    using q d0 by (auto simp: disp_simps queue_ids_def)
qed (use assms(3) d0 in \<open>auto simp: disp_simps heap_ids_def\<close>)

lemma pop_ids:
  assumes "disp_ok b d" "d_delay d \<noteq> []"
  shows "set (d_delay d) = insert (snd (heap_pop (d_delay d))) (set (fst (heap_pop (d_delay d))))"
proof -
  have "is_heap (d_delay d)" using assms(1) by (simp add: disp_ok_def delay_fits_def)
  from heap_pop_spec [OF this assms(2)] show ?thesis by (metis set_mset_add_mset_insert set_mset_mset)
qed

lemma pop_due_told:
  assumes "told {} A d" "disp_ok b d"
  shows "told (held_ids (snd (pop_due now d))) A (fst (pop_due now d))"
proof -
  have "told {} A d \<and> disp_ok b d" using assms by simp
  then show ?thesis
  proof (induction rule: pop_due_rule [where Q = "\<lambda>p. told (held_ids (snd p)) A (fst p)"])
    case (over d)
    then show ?case by (simp add: held_ids_def)
  next
    case (cancelled d h j)
    have ids: "set (d_delay d) = insert j (set h)" using cancelled pop_ids [of b d] by simp
    have "told {} A (release_job (job_name j) (job_id j) (set_status (job_id j) StatusCancelled (d\<lparr>d_delay := h\<rparr>)))"
      by (rule told_mark [OF conjunct1 [OF cancelled(1)], where k = "job_id j" and v = StatusCancelled])
        (auto simp: disp_simps queue_ids_def heap_ids_def ids)
    then show ?case using cancelled due_cancelled_ok by blast
  next
    case (pushed d h j q r)
    have "told {} A (metric_queued (job_name j) 1 (set_status (job_id j) StatusQueued (d\<lparr>d_delay := h, d_ready := q\<rparr>)))"
      using due_push_told [of "{}" A d b j "d\<lparr>d_delay := h\<rparr>" q r] pushed pop_ids [of b d] by (auto simp: heap_ids_def)
    then show ?case using pushed due_pushed_ok by blast
  next
    case (held d h j q)
    then have "rq_items q = rq_items (d_ready d)" "set (d_delay d) = insert j (set h)"
      using rq_push_items pop_ids [of b d] by fastforce+
    then show ?case using held unfolding told_def queue_ids_def heap_ids_def
      by (auto simp: held_ids_def elim!: tells_mono)
  qed
qed

lemma pop_due_resume_told:
  assumes "told {job_id j} A d" "disp_ok b d" "good_job j"
  shows "told (held_ids (snd (pop_due_resume now j d))) A (fst (pop_due_resume now j d))"
proof -
  obtain q' r where p: "rq_push None (d_ready d) j False = (q', r)" by fastforce
  have ok: "disp_ok b (d\<lparr>d_ready := q'\<rparr>)" by (rule set_ready_ok [OF assms(2,3) p])
  show ?thesis
  proof (cases "r = NoReturn")
    case True
    have "rq_items q' = rq_items (d_ready d)" using rq_push_items [OF p] True by simp
    then show ?thesis using True p told_same [of "d\<lparr>d_ready := q'\<rparr>" d] assms(1)
      by (simp add: pop_due_resume_def held_ids_def)
  next
    case False
    have t: "told {} A (metric_queued (job_name j) 1 (set_status (job_id j) StatusQueued (d\<lparr>d_ready := q'\<rparr>)))"
      by (rule due_push_told [OF assms(1,2) _ p False]) auto
    have "disp_ok b (metric_queued (job_name j) 1 (set_status (job_id j) StatusQueued (d\<lparr>d_ready := q'\<rparr>)))"
      using ok by (simp add: metrics_ok set_status_disp_ok)
    from pop_due_told [OF t this, of now] False p show ?thesis by (simp add: pop_due_resume_def Let_def)
  qed
qed

lemma drain_delayed_told:
  assumes "told {} A d" "disp_ok b d"
  shows "told {} A (drain_delayed d)"
proof -
  have "told {} A d \<and> disp_ok b d" using assms by simp
  then have "told {} A (drain_delayed d) \<and> disp_ok b (drain_delayed d)"
  proof (induction rule: drain_rule)
    case (entry d h j)
    have ids: "set (d_delay d) = insert j (set h)" using entry pop_ids [of b d] by simp
    have "told {} A (release_job (job_name j) (job_id j) (set_status (job_id j) StatusCancelled
        (metric_dropped (job_name j) (store_delete (job_id j) (d\<lparr>d_delay := h\<rparr>)))))"
      by (rule told_mark [OF conjunct1 [OF entry(1)], where k = "job_id j" and v = StatusCancelled])
        (auto simp: disp_simps queue_ids_def heap_ids_def ids)
    then show ?case using entry drained_ok by blast
  qed
  then show ?thesis ..
qed

lemma popped_told:
  "told (held_ids (snd p)) A (fst p) \<Longrightarrow> popped now p = (d', r) \<Longrightarrow> told (held_ids (loop_holds r)) A d'"
  by (auto simp: popped_def split: option.splits)

lemma delay_turn_told:
  assumes "told {} A d" "disp_ok b d" "delay_turn wk d = Some (d', r)"
  shows "told (held_ids (loop_holds r)) A d'"
proof (cases wk)
  case (TimerFired now)
  then have "popped now (pop_due now d) = (d', r)" using assms(3) by (auto simp: delay_turn_def split: if_splits)
  then show ?thesis by (rule popped_told [OF pop_due_told [OF assms(1,2)]])
next
  case Signalled
  then have "d' = d\<lparr>d_signal := False\<rparr>" "r = LoopAgain" using assms(3) by (auto simp: delay_turn_def split: if_splits)
  then show ?thesis using assms(1) told_same [of d' d] by (simp add: held_ids_def)
next
  case StopClosed
  then have "d' = drain_delayed d" "r = LoopExit" using assms(3) by (auto simp: delay_turn_def split: if_splits)
  then show ?thesis using drain_delayed_told [OF assms(1,2)] by (simp add: held_ids_def)
qed

section \<open>Workers\<close>

lemma run_begin_told:
  fixes d0 d d' :: "'a disp"
  assumes "told H A d0" "d_table d = d_table d0" "d_delay d = d_delay d0" "queue_ids d0 - {job_id j} \<subseteq> queue_ids d"
    and "run_begin j d = (d', r)"
  shows "told H (if r = None then A else insert (job_id j) A) d'"
proof -
  let ?k = "job_id j"
  have mark: "told H A' x" if "d_table x = mark_status (d_table d0) ?k v" "d_delay x = d_delay d" "d_ready x = d_ready d"
      "d_stopped x = d_stopped d" "A \<subseteq> A'" "v = StatusRunning \<and> ?k \<in> A' \<or> v = StatusCancelled" for x :: "'a disp" and v A'
  proof -
    have "queue_ids x = queue_ids d" "heap_ids x = heap_ids d0"
      using that assms(3) by (simp_all add: queue_ids_def heap_ids_def)
    then show ?thesis by (intro told_mark [OF assms(1), where k = ?k and v = v]) (use assms(4) that in auto)
  qed
  show ?thesis
  proof (cases "is_cancelled ?k d")
    case True
    then show ?thesis using assms(2,5) mark [of d' StatusCancelled A]
      by (auto simp: run_begin_def Let_def is_cancelled_def disp_simps)
  next
    case nc: False
    let ?d2 = "set_status ?k StatusRunning (metric_queued (job_name j) (- 1) d)"
    let ?d4 = "(metric_running (job_name j) 1 ?d2)
      \<lparr>d_executing := AList.update ?k False (d_executing (metric_running (job_name j) 1 ?d2))\<rparr>"
    have t4: "told H (insert ?k A) ?d4" by (rule mark [of _ StatusRunning]) (auto simp: disp_simps assms(2))
    show ?thesis
    proof (cases "d_handlers d (job_name j)")
      case None
      then have d': "r = None" "d' = run_cleanup j (log_error j ErrHandlerNotFound
          (metric_failed (job_name j) (Wrapped CodeHandlerNotFound ErrHandlerNotFound) (set_status ?k StatusFailed ?d4)))"
        using assms(5) nc by (simp_all add: run_begin_def Let_def is_cancelled_def disp_simps)
      have "d_stopped (run_cleanup j x) = d_stopped x" for x :: "'a disp"
        by (simp add: run_cleanup_def Let_def disp_simps)
      then have "told H A d'" unfolding d'
        by (intro told_mark [OF t4, where k = ?k and v = StatusFailed])
          (auto simp: disp_simps queue_ids_def heap_ids_def)
      then show ?thesis by (simp add: d')
    next
      case (Some h)
      then have "r \<noteq> None \<and> d_table d' = d_table ?d4 \<and> d_delay d' = d_delay ?d4 \<and> d_ready d' = d_ready ?d4 \<and>
          d_stopped d' = d_stopped ?d4"
        using assms(5) nc
        by (auto simp: run_begin_def Let_def is_cancelled_def disp_simps clock_read_def split: if_splits)
      then have "r \<noteq> None" and "told H (insert ?k A) d' = told H (insert ?k A) ?d4"
        by (blast, intro told_same) simp_all
      then show ?thesis using t4 by auto
    qed
  qed
qed

lemma run_end_told:
  assumes "told H A d" "disp_ok b d" "good_job j" "run_end j start res d = (d', r)" "A - {job_id j} \<subseteq> A'"
  shows "told H A' d'"
proof -
  have a: "0 \<le> job_attempt j" using assms(3) by (simp add: good_job_def)
  note e = run_end_effect [OF assms(4) a]
  have "d_stopped d' = d_stopped d"
    using run_end_ok [OF assms(2,3,4)] assms(2) e by (simp add: disp_ok_def)
  then have q: "queue_ids d' = queue_ids d" using e by (simp add: queue_ids_def)
  let ?v = "end_status (is_cancelled (job_id j) d) j res"
  have h: "heap_ids d' = (if ?v = StatusDelayed then insert (job_id j) (heap_ids d) else heap_ids d)"
    using e by (simp add: heap_ids_def set_heap_push retry_job_def)
  show ?thesis
    by (rule told_mark [OF assms(1), where k = "job_id j" and v = ?v])
      (use e q h assms(5) in \<open>auto simp: end_status_def split: if_splits\<close>)
qed

section \<open>The system\<close>

definition active_ids :: "'s world \<Rightarrow> string set" where
  "active_ids w = (job_id \<circ> fst) ` set (w_active w)"

lemma active_ids_disp: "active_ids (w\<lparr>w_disp := d\<rparr>) = active_ids w"
  by (simp add: active_ids_def)

lemma active_ids_append:
  "active_ids (w\<lparr>w_disp := d, w_active := w_active w @ [(j, start)]\<rparr>) = insert (job_id j) (active_ids w)"
  by (simp add: active_ids_def)

definition world_told :: "'s world \<Rightarrow> bool" where
  "world_told w \<longleftrightarrow> told (held_ids (delay_holds (w_delay w))) (active_ids w) (w_disp w)"

lemma world_step_told:
  assumes "world_step rand w w'" "world_ok b w" "world_told w"
  shows "world_told w'"
proof -
  have d: "disp_ok b (w_disp w)" and a: "list_all (good_job \<circ> fst) (w_active w)"
    using assms(2) by (simp_all add: world_ok_def)
  have t: "told (held_ids (delay_holds (w_delay w))) (active_ids w) (w_disp w)"
    using assms(3) by (simp add: world_told_def)
  show ?thesis using assms(1)
  proof (cases rule: world_stepE)
    case (register name h d' e)
    then have "d_table d' = d_table (w_disp w) \<and> d_ready d' = d_ready (w_disp w) \<and> d_delay d' = d_delay (w_disp w) \<and>
        d_stopped d' = d_stopped (w_disp w)"
      by (auto simp: register_handler_def split: option.splits if_splits)
    then show ?thesis using register(1) t told_same [of d' "w_disp w"] by (simp add: world_told_def active_ids_def)
  next
    case (submit opts ctx name payload d' r)
    then show ?thesis using submit_told [OF t d submit(3)] by (simp add: world_told_def active_ids_def)
  next
    case (resume i ctx d' r)
    then show ?thesis using submit_push_told [OF t resume(3)] by (simp add: world_told_def active_ids_def)
  next
    case (cancel jid d' e)
    then show ?thesis using cancel_told [OF t d] by (simp add: world_told_def active_ids_def)
  next
    case (restore ops s' l)
    then show ?thesis using t told_same [of "(w_disp w)\<lparr>d_store := s'\<rparr>" "w_disp w"]
      by (simp add: world_told_def active_ids_def)
  next
    case (restore_next i waited j js ctx d' r)
    then show ?thesis using restore_turn_told [OF t restore_next(4)] by (simp add: world_told_def active_ids_def)
  next
    case (delay wk d' r)
    then show ?thesis using delay_turn_told [OF _ d delay(3)] t by (simp add: world_told_def active_ids_def held_ids_def)
  next
    case (delay_resume j now d' r)
    have "good_job j" using assms(2) delay_resume(2) by (auto simp: world_ok_def)
    then show ?thesis
      using delay_resume t popped_told [OF pop_due_resume_told [OF _ d] delay_resume(3)]
      by (simp add: world_told_def active_ids_def held_ids_def)
  next
    case (worker_take q' j d' r)
    have "queue_ids (w_disp w) - {job_id j} \<subseteq> queue_ids ((w_disp w)\<lparr>d_ready := q'\<rparr>)"
      using rq_pop_items [OF worker_take(3)] by (auto simp: queue_ids_def)
    from run_begin_told [OF t _ _ this worker_take(4)]
    have "told (held_ids (delay_holds (w_delay w))) (if r = None then active_ids w else insert (job_id j) (active_ids w)) d'"
      by simp
    moreover have "active_ids w' = (if r = None then active_ids w else insert (job_id j) (active_ids w))"
      using worker_take(1) by (auto simp: active_ids_append active_ids_disp split: option.splits)
    ultimately show ?thesis using worker_take(1) by (simp add: world_told_def)
  next
    case (handler_end i j start res d' r)
    have j: "good_job j" using a handler_end(2,3) by (metis comp_apply fst_conv list_all_length)
    have "active_ids w - {job_id j} \<subseteq> active_ids w'"
      using handler_end(1,3) set_remove_nth [OF handler_end(2)] by (force simp: active_ids_def)
    from run_end_told [OF t d j handler_end(4) this] handler_end(1) show ?thesis by (simp add: world_told_def)
  next
    case shut
    have "queue_ids (shutdown_begin (w_disp w)) = UNIV" "heap_ids (shutdown_begin (w_disp w)) = heap_ids (w_disp w)"
      "d_table (shutdown_begin (w_disp w)) = d_table (w_disp w)"
      by (simp_all add: shutdown_begin_def Let_def queue_ids_def heap_ids_def)
    then show ?thesis using t shut by (auto simp: world_told_def active_ids_def told_def elim!: tells_mono)
  next
    case (shut_timeout c d' e)
    then show ?thesis using t told_same [of d' "w_disp w"]
      by (auto simp: world_told_def active_ids_def wait_workers_def)
  next
    case (draw d' r)
    then show ?thesis using t told_same [of d' "w_disp w"]
      by (auto simp: world_told_def active_ids_def new_job_id_def)
  qed
qed

interpretation places: world_invariant world_told
proof
  fix time_now and st :: 'a and opts and d :: "'a disp"
  assume "new_dispatcher time_now st opts = Inr d"
  then have "d_table d = empty_status_table" by (auto simp: new_dispatcher_def Let_def split: sum.splits)
  then show "world_told (start_world d)"
    by (simp add: world_told_def start_world_def told_def tells_def empty_table_ok) (simp add: empty_status_table_def)
qed (rule world_step_told)

section \<open>Properties\<close>


text \<open>
  A run that ends badly: a queue of size one with a job in it, a delayed job that the delay loop has
  taken and holds while it waits for room, and a shutdown.
\<close>

definition lost_d1 :: "unit disp" where
  "lost_d1 = fst (register_handler ''m'' (Some 8) (fst (register_handler ''n'' (Some 7)
     (projr (new_dispatcher sample_clock () [with_queue_size 1])))))"

definition lost_d2 :: "unit disp" where
  "lost_d2 = fst (submit_with_options sample_rand None ''n'' [] [] lost_d1)"

definition lost_d3 :: "unit disp" where
  "lost_d3 = fst (submit_with_options sample_rand None ''m'' [] [with_run_at 5000] lost_d2)"

definition lost_d4 :: "unit disp" where
  "lost_d4 = fst (pop_due 6000 lost_d3)"

definition lost_job :: job where
  "lost_job = the (snd (pop_due 6000 lost_d3))"

definition lost_d5 :: "unit disp" where
  "lost_d5 = fst (pop_due_resume 6000 lost_job (shutdown_begin lost_d4))"

text \<open>What the run needs to be known of its states, evaluated once for each.\<close>

definition holds_one :: "string \<Rightarrow> 's disp \<times> job option \<Rightarrow> bool" where
  "holds_one jid r \<longleftrightarrow> (case snd r of None \<Rightarrow> False | Some j \<Rightarrow> job_id j = jid) \<and> map job_id (rq_items (d_ready (fst r))) = [''a''] \<and>
     d_delay (fst r) = []"

definition lost_state :: "'s disp \<times> job option \<Rightarrow> bool" where
  "lost_state r \<longleftrightarrow> Option.is_none (snd r) \<and> job_status ''aa'' (fst r) = Inr StatusQueued \<and>
     map job_id (rq_items (d_ready (fst r))) = [''a''] \<and> d_delay (fst r) = []"

text \<open>
  Shutdown can lose a due job. In a state that a dispatcher reaches, a job that was accepted and
  delayed has been taken out of the delay heap, its push failed because the queue was full and closed,
  the delay loop dropped the error and recorded \<open>Queued\<close>: the job is in no queue, not in the heap, not
  running, and nothing waits with it.
\<close>
theorem due_job_lost_at_shutdown:
  "\<exists>w. world_reach sample_rand sample_clock () [with_queue_size 1] w \<and>
     job_status ''aa'' (w_disp w) = Inr StatusQueued \<and> ''aa'' \<notin> job_id ` set (rq_items (d_ready (w_disp w))) \<and>
     d_delay (w_disp w) = [] \<and> w_active w = [] \<and> w_waiting w = [] \<and> w_delay w = DelayIdle"
proof -
  let ?reach = "world_reach sample_rand sample_clock () [with_queue_size 1]"
  let ?d0 = "projr (new_dispatcher sample_clock () [with_queue_size 1]) :: unit disp"
  have "new_dispatcher sample_clock () [with_queue_size 1] = Inr ?d0"
    by (simp add: new_dispatcher_def with_queue_size_def Let_def)
  then have "?reach (start_world ?d0)" by (rule world_reach.start [rotated]) (simp add: known_options.intros)
  then have "?reach (calm ?d0 DelayIdle)" by (simp add: start_world_def calm_def)
  then have r1: "?reach (calm lost_d1 DelayIdle)"
    unfolding lost_d1_def by (rule world_reach.step [OF world_reach.step [OF _ calm_register] calm_register])
  have s1: "snd (submit_with_options sample_rand None ''n'' [] [] lost_d1) = Ok ''a''" by code_simp
  have "world_step sample_rand (calm lost_d1 DelayIdle) (calm lost_d2 DelayIdle)"
    unfolding lost_d2_def by (rule calm_submit [OF _ s1]) simp
  with r1 have r2: "?reach (calm lost_d2 DelayIdle)" by (rule world_reach.step)
  have s2: "snd (submit_with_options sample_rand None ''m'' [] [with_run_at 5000] lost_d2) = Ok ''aa''" by code_simp
  have "world_step sample_rand (calm lost_d2 DelayIdle) (calm lost_d3 DelayIdle)"
    unfolding lost_d3_def by (rule calm_submit [OF _ s2]) (simp add: submit_options.intros)
  with r2 have r3: "?reach (calm lost_d3 DelayIdle)" by (rule world_reach.step)
  have h: "holds_one ''aa'' (pop_due 6000 lost_d3)" by code_simp
  then have j: "snd (pop_due 6000 lost_d3) = Some lost_job" by (auto simp: holds_one_def lost_job_def split: option.splits)
  have "d_delay lost_d3 \<noteq> []" by code_simp
  from world_reach.step [OF r3 calm_pop [OF this j]] have "?reach (calm lost_d4 (DelayHolds lost_job 6000))"
    by (simp add: lost_d4_def)
  then have r5: "?reach (calm (shutdown_begin lost_d4) (DelayHolds lost_job 6000))"
    by (rule world_reach.step [OF _ calm_shut])
  have l: "lost_state (pop_due_resume 6000 lost_job (shutdown_begin lost_d4))" by code_simp
  then have "snd (pop_due_resume 6000 lost_job (shutdown_begin lost_d4)) = None"
    by (simp add: lost_state_def Option.is_none_def)
  from world_reach.step [OF r5 calm_resume [OF this]] have r6: "?reach (calm lost_d5 DelayIdle)"
    by (simp add: lost_d5_def)
  have "''aa'' \<notin> job_id ` set (rq_items (d_ready lost_d5))"
  proof -
    have "map job_id (rq_items (d_ready lost_d5)) = [''a'']" using l by (simp add: lost_state_def lost_d5_def)
    then have "job_id ` set (rq_items (d_ready lost_d5)) = {''a''}" by (metis list.set(1) list.simps(15) set_map)
    then show ?thesis by simp
  qed
  with r6 l show ?thesis
    by (intro exI [of _ "calm lost_d5 DelayIdle"]) (simp add: calm_def lost_state_def lost_d5_def)
qed


end
