(* ===== verification/Shutdown_Props.thy ===== *)
theory Shutdown_Props
  imports Restore_Props System_Runs
begin

text \<open>
  The delay heap after the delay loop has returned. Nothing but the delay loop and a cancellation takes
  an entry out of the heap, while executions and restores still put entries in; such an entry stays
  there for good.
\<close>

section \<open>What stays in the heap\<close>

definition stays :: "'s disp \<Rightarrow> 's disp \<Rightarrow> bool" where
  "stays d d' \<longleftrightarrow> d_cancelled d \<subseteq> d_cancelled d' \<and>
     (\<forall>j\<in>set (d_delay d). j \<in> set (d_delay d') \<or> job_id j \<in> d_cancelled d')"

lemma stays_more: "set (d_delay d) \<subseteq> set (d_delay d') \<Longrightarrow> d_cancelled d \<subseteq> d_cancelled d' \<Longrightarrow> stays d d'"
  by (auto simp: stays_def)

lemma stays_same: "d_delay d' = d_delay d \<Longrightarrow> d_cancelled d' = d_cancelled d \<Longrightarrow> stays d d'"
  by (simp add: stays_def)

lemma stays_refl: "stays d d"
  by (simp add: stays_def)

lemma stays_trans: "stays d d1 \<Longrightarrow> stays d1 d2 \<Longrightarrow> stays d d2"
  unfolding stays_def by blast

lemma cancel_by_id_stays:
  assumes "disp_ok b d"
  shows "stays d (cancel_by_id i d)"
proof -
  note e = cancel_by_id_effect [of i d]
  have h: "is_heap (d_delay d)" using assms by (simp add: disp_ok_def delay_fits_def)
  have "j \<in> set (heap_remove_id (d_delay d) i) \<or> job_id j = i" if "j \<in> set (d_delay d)" for j
  proof (cases "i \<in> job_id ` set (d_delay d)")
    case True
    then obtain k where k: "job_id k = i" "mset (d_delay d) = add_mset k (mset (heap_remove_id (d_delay d) i))"
      using heap_remove_id_spec [OF h, of i] by auto
    then have "set (d_delay d) = insert k (set (heap_remove_id (d_delay d) i))"
      by (metis set_mset_add_mset_insert set_mset_mset)
    then show ?thesis using that k(1) by auto
  next
    case False
    then show ?thesis using that heap_remove_id_spec [OF h, of i] by simp
  qed
  then show ?thesis using e by (auto simp: stays_def)
qed

lemma fold_cancel_stays: "disp_ok b d \<Longrightarrow> stays d (fold cancel_by_id is d)"
proof (induction "is" arbitrary: d)
  case (Cons i "is")
  then show ?case
    using stays_trans [OF cancel_by_id_stays [OF Cons.prems] Cons.IH [OF cancel_by_id_ok [OF Cons.prems]]] by simp
qed (simp add: stays_refl)

lemma cancel_stays: "disp_ok b d \<Longrightarrow> cancel jid d = (d', e) \<Longrightarrow> stays d d'"
  using cancel_by_id_stays stays_refl by (auto simp: cancel_def split: sum.splits if_splits)

section \<open>Submission and restore\<close>

lemma apply_conflict_stays:
  assumes "disp_ok b d" "apply_conflict j d = (d', r)"
  shows "stays d d'"
proof -
  have f: "stays d (fold cancel_by_id is (d\<lparr>d_in_flight := add_in_flight f (job_name j) (job_id j)\<rparr>))"
    if "cfg_conflict (d_cfg d) \<noteq> ConflictAllow" "flight_fits (d_cfg d) f" for "is" f
  proof (rule stays_trans [OF _ fold_cancel_stays])
    show "disp_ok b (d\<lparr>d_in_flight := add_in_flight f (job_name j) (job_id j)\<rparr>)"
      using assms(1) that flight_fits_add [of "d_cfg d" f] by (simp add: disp_ok_def)
  qed (rule stays_same; simp)
  have l: "stays x (log_replaced j (metric_replaced n x))" "stays x (log_skipped j (metric_skipped n x))"
    for n and x :: "'a disp" by (rule stays_same; simp add: disp_simps)+
  have a: "stays d (d\<lparr>d_in_flight := g\<rparr>)" for g by (rule stays_same) simp_all
  have "flight_fits (d_cfg d) (d_in_flight d)" using assms(1) by (simp add: disp_ok_def)
  then show ?thesis using assms(2) f stays_trans [OF f l(1)] l(2) stays_refl a
    by (auto simp: apply_conflict_def Let_def flight_fits_clear split: if_splits)
qed

lemma enqueue_stays:
  assumes "enqueue_ready ctx j d = (d', r)"
  shows "d_delay d' = d_delay d \<and> d_cancelled d' = d_cancelled d"
proof -
  obtain q' r' where p: "rq_push ctx (d_ready d) j (cfg_queue_policy (d_cfg d) = QueueFullDrop) = (q', r')" by fastforce
  with assms show ?thesis by (cases r') (auto simp: enqueue_ready_def disp_simps split: if_splits)
qed

lemma submit_push_stays:
  assumes "submit_push ctx j d = (d', r)"
  shows "stays d d'"
proof -
  obtain d1 r1 where e: "enqueue_ready ctx j d = (d1, r1)" by fastforce
  have "d_delay d' = d_delay d1 \<and> d_cancelled d' = d_cancelled d1"
    using assms e by (cases r1) (auto simp: submit_push_def submit_accepted_def disp_simps)
  with enqueue_stays [OF e] show ?thesis by (simp add: stays_same)
qed

lemma persist_stays: "persist j d = (d', r) \<Longrightarrow> d_delay d' = d_delay d \<and> d_cancelled d' = d_cancelled d"
  using persist_frame [of j d d' r] by auto

lemma submit_now_stays:
  assumes "submit_now ctx j d = (d', r)"
  shows "stays d d'"
proof -
  obtain d1 e where p: "persist j d = (d1, e)" by fastforce
  have s: "stays d d1" using persist_stays [OF p] by (simp add: stays_same)
  show ?thesis
  proof (cases e)
    case None
    then have "submit_push ctx j d1 = (d', r)" using assms p by (simp add: submit_now_def)
    from stays_trans [OF s submit_push_stays [OF this]] show ?thesis .
  next
    case (Some x)
    then have "d' = release_job (job_name j) (job_id j) d1" using assms p by (simp add: submit_now_def)
    then show ?thesis using persist_stays [OF p] by (simp add: stays_same disp_simps)
  qed
qed

lemma submit_later_stays:
  assumes "submit_later j d = (d', r)"
  shows "stays d d'"
proof -
  obtain d1 e where p: "persist j d = (d1, e)" by fastforce
  have "set (d_delay d1) \<subseteq> set (d_delay d') \<and> d_cancelled d' = d_cancelled d1"
    using assms p by (cases e) (auto simp: submit_later_def disp_simps push_delayed_def set_heap_push)
  with persist_stays [OF p] show ?thesis by (simp add: stays_more)
qed

lemma submit_entry_stays:
  assumes "disp_ok b d" "submit_entry ctx j d = (d', r)"
  shows "stays d d'"
proof -
  obtain d1 c where ac: "apply_conflict j d = (d1, c)" by fastforce
  let ?d2 = "d1\<lparr>d_job_names := (d_job_names d1)(job_id j \<mapsto> job_name j)\<rparr>"
  obtain t d3 where cl: "clock_read ?d2 = (t, d3)" by fastforce
  have s1: "stays d d1" by (rule apply_conflict_stays [OF assms(1) ac])
  have s2: "stays d ?d2" by (rule stays_trans [OF s1 stays_same]) simp_all
  have s3: "stays d d3" by (rule stays_trans [OF s2 stays_same]) (simp_all add: clock_read_frame(2) [OF cl])
  have rel: "stays d (release_job n i ?d2)" for n i
    by (rule stays_trans [OF s2 stays_same]) (simp_all add: disp_simps)
  show ?thesis
    using assms(2) ac cl s1 rel stays_trans [OF s2 submit_now_stays] stays_trans [OF s3 submit_now_stays]
      stays_trans [OF s3 submit_later_stays]
    by (cases c) (auto simp: submit_entry_def Let_def split: if_splits)
qed

lemma submit_stays:
  assumes "disp_ok b d" "submit_with_options rand ctx name payload opts d = (d', r)"
  shows "stays d d'"
proof (cases "apply_opts opts empty_spec")
  case (Inl e)
  then show ?thesis using assms by (simp add: submit_with_options_def stays_refl)
next
  case (Inr spec)
  obtain d1 x where b: "build_entry rand name payload spec d = (d1, x)" by fastforce
  have "stays d d1"
    by (rule stays_same; use b in \<open>auto simp: build_entry_def new_job_id_def clock_read_def split: option.splits if_splits sum.splits\<close>)
  moreover have "disp_ok b d1" using build_entry_ok [OF assms(1) b] by simp
  ultimately show ?thesis using assms(2) Inr b stays_trans [OF _ submit_entry_stays]
    by (cases x) (auto simp: submit_with_options_def)
qed

lemma restore_push_stays:
  assumes "restore_push ctx j d = (d', r)"
  shows "stays d d'"
  by (rule stays_same; use assms in \<open>auto simp: restore_push_def disp_simps split: prod.splits outcome.splits\<close>)

lemma restore_turn_stays:
  assumes "restore_turn waited ctx j d = (d', r)"
  shows "stays d d'"
proof (cases "waited \<or> d_handlers d (job_name j) = None")
  case True
  then show ?thesis using assms restore_push_stays
    by (auto simp: restore_turn_def restore_one_def disp_simps intro: stays_same split: if_splits)
next
  case False
  let ?d2 = "add_in_flight_for_restore (job_name j) (job_id j) (d\<lparr>d_job_names := (d_job_names d)(job_id j \<mapsto> job_name j)\<rparr>)"
  obtain now d3 where c: "clock_read ?d2 = (now, d3)" by fastforce
  have "d_delay d3 = d_delay d" "d_cancelled d3 = d_cancelled d"
    using clock_read_frame(2) [OF c] by (simp_all add: add_in_flight_for_restore_def)
  then have "stays d d3" "stays d (set_status (job_id j) StatusDelayed (push_delayed j d3))"
    by (auto intro: stays_more simp: disp_simps push_delayed_def set_heap_push)
  then show ?thesis using assms False c stays_trans [OF _ restore_push_stays]
    by (auto simp: restore_turn_def restore_one_def Let_def split: if_splits)
qed

section \<open>Workers\<close>

lemma run_begin_stays:
  assumes "run_begin j d = (d', r)"
  shows "stays d d'"
  by (rule stays_same; use assms in \<open>auto simp: run_begin_def run_cleanup_def clock_read_def Let_def disp_simps
    split: if_splits option.splits\<close>)

lemma run_end_stays:
  assumes "disp_ok b d" "good_job j" "run_end j start res d = (d', r)"
  shows "stays d d'"
proof (rule stays_more)
  have "0 \<le> job_attempt j" using assms(2) by (simp add: good_job_def)
  from run_end_effect [OF assms(3) this] show "set (d_delay d) \<subseteq> set (d_delay d')" by (auto simp: set_heap_push)
  have "disp_ok d d'" using run_end_ok [OF disp_ok_refl [OF assms(1)] assms(2,3)] by simp
  then show "d_cancelled d \<subseteq> d_cancelled d'" by (simp add: disp_ok_def)
qed

section \<open>The system\<close>

lemma world_step_stays:
  assumes "world_step rand w w'" "world_ok b w" "w_delay w = DelayGone"
  shows "w_delay w' = DelayGone \<and> stays (w_disp w) (w_disp w')"
proof -
  have d: "disp_ok b (w_disp w)" and a: "list_all (good_job \<circ> fst) (w_active w)"
    using assms(2) by (simp_all add: world_ok_def)
  show ?thesis using assms(1)
  proof (cases rule: world_stepE)
    case (register name h d' e)
    then have "stays (w_disp w) d'"
      by (intro stays_same) (auto simp: register_handler_def split: option.splits if_splits)
    then show ?thesis using register(1) assms(3) by simp
  next
    case (submit opts ctx name payload d' r)
    then show ?thesis using submit_stays [OF d submit(3)] assms(3) by simp
  next
    case (resume i ctx d' r)
    then show ?thesis using submit_push_stays [OF resume(3)] assms(3) by simp
  next
    case (cancel jid d' e)
    then show ?thesis using cancel_stays [OF d cancel(2)] assms(3) by simp
  next
    case (restore ops s' l)
    then show ?thesis using assms(3) by (simp add: stays_same)
  next
    case (restore_next i waited j js ctx d' r)
    then show ?thesis using restore_turn_stays [OF restore_next(4)] assms(3) by simp
  next
    case (worker_take q' j d' r)
    have "stays (w_disp w) ((w_disp w)\<lparr>d_ready := q'\<rparr>)" by (rule stays_same) simp_all
    from stays_trans [OF this run_begin_stays [OF worker_take(4)]] show ?thesis
      using worker_take(1) assms(3) by simp
  next
    case (handler_end i j start res d' r)
    have "good_job j" using a handler_end(2,3) by (metis comp_apply fst_conv list_all_length)
    from run_end_stays [OF d this handler_end(4)] show ?thesis using handler_end(1) assms(3) by simp
  next
    case shut
    then show ?thesis using assms(3) by (simp add: stays_same shutdown_begin_def Let_def)
  next
    case (shut_timeout c d' e)
    then show ?thesis using assms(3) by (auto simp: stays_same wait_workers_def)
  next
    case (draw d' r)
    then show ?thesis using assms(3) by (auto simp: stays_same new_job_id_def)
  qed (use assms(3) in simp_all)
qed

lemma world_steps_stay:
  assumes "(world_step rand)\<^sup>*\<^sup>* w w'" "world_ok b w" "w_delay w = DelayGone"
  shows "w_delay w' = DelayGone \<and> stays (w_disp w) (w_disp w')"
  using assms(1)
proof (induction rule: rtranclp_induct)
  case base
  then show ?case using assms(3) by (simp add: stays_refl)
next
  case (step w1 w2)
  have "world_ok b w1" by (rule world_steps_ok [OF step(1) assms(2)])
  with step(3) world_step_stays [OF step(2)] stays_trans show ?case by blast
qed

section \<open>A concrete run\<close>

text \<open>
  A job with retries is running when \<open>Shutdown\<close> begins; the delay loop drains the heap and returns; then
  the handler fails and the retry is put into the heap.
\<close>

definition late_d1 :: "unit disp" where
  "late_d1 = fst (register_handler ''n'' (Some 7) sample_d0)"

definition late_d2 :: "unit disp" where
  "late_d2 = fst (submit_with_options sample_rand None ''n'' [] [with_retry 3 1000000000] late_d1)"

definition late_job :: job where
  "late_job = hd (rq_items (d_ready late_d2))"

definition late_begun :: "unit disp \<times> (nat \<times> time \<times> duration option) option" where
  "late_begun = run_begin late_job (late_d2\<lparr>d_ready := fst (rq_pop (d_ready late_d2))\<rparr>)"

definition late_d3 :: "unit disp" where
  "late_d3 = drain_delayed (shutdown_begin (fst late_begun))"

definition late_d4 :: "unit disp" where
  "late_d4 = fst (run_end late_job 1001 (Panicked 1) late_d3)"

text \<open>What the run needs to be known of its states, evaluated once for each.\<close>

definition stranded_state :: "'s disp \<Rightarrow> bool" where
  "stranded_state d \<longleftrightarrow> map job_id (d_delay d) = [''a''] \<and> map job_attempt (d_delay d) = [1] \<and>
     rq_items (d_ready d) = [] \<and> job_status ''a'' d = Inr StatusDelayed"

definition before_end :: "job \<Rightarrow> 's disp \<Rightarrow> bool" where
  "before_end j d \<longleftrightarrow> job_id j = ''a'' \<and> job_attempt j = 0 \<and> d_delay d = [] \<and> rq_items (d_ready d) = [] \<and>
     end_status (is_cancelled (job_id j) d) j (Panicked 1) = StatusDelayed"

lemma late_submitted:
  "snd (submit_with_options sample_rand None ''n'' [] [with_retry 3 1000000000] late_d1) = Ok ''a''"
  by code_simp

lemma late_taken: "takes_one (rq_pop (d_ready late_d2)) late_job"
  by code_simp

lemma late_begun_at: "begun_at (snd late_begun) 1001"
  by code_simp

lemma late_drained: "before_end late_job late_d3"
  by code_simp

definition late_world :: "unit world" where
  "late_world = calm late_d4 DelayGone"

lemma late_drained_reach:
  "world_reach sample_rand sample_clock () [] ((calm late_d3 DelayGone)\<lparr>w_active := [(late_job, 1001)]\<rparr>)"
proof -
  let ?reach = "world_reach sample_rand sample_clock () []"
  have "?reach (calm sample_d0 DelayIdle)"
    using world_reach.start [OF _ sample_d0_new] by (simp add: start_world_def calm_def)
  then have "?reach (calm late_d1 DelayIdle)"
    unfolding late_d1_def by (rule world_reach.step [OF _ calm_register])
  moreover have "world_step sample_rand (calm late_d1 DelayIdle) (calm late_d2 DelayIdle)"
    unfolding late_d2_def by (rule calm_submit [OF _ late_submitted]) (simp add: submit_options.intros)
  ultimately have r2: "?reach (calm late_d2 DelayIdle)" by (rule world_reach.step)
  have "0 < cfg_workers (d_cfg late_d2)" by code_simp
  from calm_take [OF late_taken late_begun_at [unfolded late_begun_def] this]
  have r3: "?reach ((calm (fst late_begun) DelayIdle)\<lparr>w_active := [(late_job, 1001)]\<rparr>)"
    unfolding late_begun_def by (rule world_reach.step [OF r2])
  let ?w = "\<lambda>d st. (calm d st)\<lparr>w_active := [(late_job, 1001)]\<rparr>"
  have "world_step sample_rand (?w d DelayIdle) (?w (shutdown_begin d) DelayIdle)" for d
    using world_step.shut [of sample_rand "?w d DelayIdle"] by (simp add: calm_def)
  from world_reach.step [OF r3 this] have r4: "?reach (?w (shutdown_begin (fst late_begun)) DelayIdle)" .
  have "world_step sample_rand (?w d DelayIdle) (?w (drain_delayed d) DelayGone)" if "d_stopped d" for d
    using world_step.delay [of "?w d DelayIdle" StopClosed "drain_delayed d" LoopExit sample_rand] that
    by (simp add: calm_def delay_turn_def)
  from world_reach.step [OF r4 this]
  show "?reach (?w late_d3 DelayGone)" by (simp add: late_d3_def shutdown_begin_def Let_def)
qed

lemma late_drained_ok: "\<exists>b. disp_ok b late_d3 \<and> good_job late_job"
  using world_reach_ok [OF late_drained_reach] by (auto simp: world_ok_def calm_def)

lemma late_ended: "run_end late_job 1001 (Panicked 1) late_d3 = (late_d4, Ok ())"
proof -
  have "snd (run_end late_job 1001 (Panicked 1) late_d3) = Ok ()"
    using late_drained_ok run_end_ok [of _ late_d3 late_job 1001 "Panicked 1"] by (auto simp: prod_eq_iff)
  then show ?thesis by (simp add: late_d4_def prod_eq_iff)
qed

lemma late_stranded: "stranded_state late_d4"
proof -
  obtain b where b: "disp_ok b late_d3" "good_job late_job" using late_drained_ok by blast
  then have t: "table_ok (d_table late_d3)" and a: "0 \<le> job_attempt late_job"
    by (simp_all add: disp_ok_def good_job_def)
  have p: "heap_push [] x = [x]" for x proof -
    have "mset (heap_push [] x) = mset [x]" by (simp add: mset_heap_push)
    then show ?thesis by (metis mset_single_iff)
  qed
  have "end_status (is_cancelled (job_id late_job) late_d3) late_job (Panicked 1) = StatusDelayed"
    and f: "job_id late_job = ''a''" "job_attempt late_job = 0" "d_delay late_d3 = []" "rq_items (d_ready late_d3) = []"
    using late_drained unfolding before_end_def by blast+
  then have "d_delay late_d4 = [retry_job late_job (cfg_now (d_cfg late_d3) (d_ticks late_d3))]"
    "d_table late_d4 = mark_status (d_table late_d3) ''a'' StatusDelayed" "d_ready late_d4 = d_ready late_d3"
    using run_end_effect [OF late_ended a] by (simp_all only: if_True p f refl simp_thms)
  then show ?thesis using f mark_status_lookup [OF t]
    by (simp add: stranded_state_def retry_job_def job_status_def table_status_def wrap64_def)
qed

lemma late_world_reach: "world_reach sample_rand sample_clock () [] late_world"
proof (rule world_reach.step [OF late_drained_reach])
  show "world_step sample_rand ((calm late_d3 DelayGone)\<lparr>w_active := [(late_job, 1001)]\<rparr>) late_world"
    using world_step.handler_end [of 0 "(calm late_d3 DelayGone)\<lparr>w_active := [(late_job, 1001)]\<rparr>" late_job 1001
      "Panicked 1" late_d4 "Ok ()" sample_rand] late_ended
    by (simp add: late_world_def calm_def remove_nth_def)
qed

section \<open>Property\<close>

text \<open>
  C39: After the delay loop has returned, a job in the delay heap is never taken out to be run: in every
  continuation it is still there, unless it has been cancelled. A retry scheduled by an execution that
  outlives the drain of \<open>Shutdown\<close> (and a job a late \<open>Restore\<close> puts in) is stranded in this way, with the
  status \<open>Delayed\<close> and without being dropped as the drain drops delayed jobs.
\<close>
theorem late_delayed_job_is_stranded:
  assumes "world_reach rand time_now st opts w" "w_delay w = DelayGone" "j \<in> set (d_delay (w_disp w))"
    and "(world_step rand)\<^sup>*\<^sup>* w w'"
  shows "w_delay w' = DelayGone \<and> (j \<in> set (d_delay (w_disp w')) \<or> job_id j \<in> d_cancelled (w_disp w'))"
proof -
  obtain b where "world_ok b w" using world_reach_ok [OF assms(1)] by blast
  from world_steps_stay [OF assms(4) this assms(2)] show ?thesis using assms(3) by (auto simp: stays_def)
qed

theorem late_delayed_job_is_stranded_witness:
  "\<exists>j. job_id j = ''a'' \<and> job_attempt j = 1 \<and> job_status ''a'' late_d4 = Inr StatusDelayed \<and>
     rq_items (d_ready late_d4) = [] \<and> w_active late_world = [] \<and> w_delay late_world = DelayGone \<and>
     (j \<in> set (d_delay late_d4) \<or> job_id j \<in> d_cancelled late_d4)"
proof -
  have s: "stranded_state late_d4" by (rule late_stranded)
  then obtain j where j: "d_delay late_d4 = [j]" "job_id j = ''a''" "job_attempt j = 1"
    by (auto simp: stranded_state_def)
  have "w_delay late_world = DelayGone \<and> (j \<in> set (d_delay (w_disp late_world)) \<or> job_id j \<in> d_cancelled (w_disp late_world))"
    by (rule late_delayed_job_is_stranded [OF late_world_reach _ _ rtranclp.rtrancl_refl])
      (simp_all add: late_world_def calm_def j(1))
  then show ?thesis using s j by (auto simp: stranded_state_def late_world_def calm_def)
qed

end
