(* ===== verification/Gauges.thy ===== *)
theory Gauges
  imports System_Runs Run_Props Delay_Props
begin

text \<open>
  Sums over what the callbacks, hooks and loggers are told: the gauges of queued and of running jobs, the
  open spans, the recovered panics, and the attempts that were started for a job. Each operation of the
  dispatcher, and each step of the system, changes them by what it does with jobs.
\<close>

section \<open>Gauges\<close>

fun running_delta :: "string \<Rightarrow> obs \<Rightarrow> int" where
  "running_delta n (MetricRunning m k) = (if m = n then k else 0)"
| "running_delta n _ = 0"

fun queued_delta :: "string \<Rightarrow> obs \<Rightarrow> int" where
  "queued_delta n (MetricQueued m k) = (if m = n then k else 0)"
| "queued_delta n _ = 0"

fun span_delta :: "obs \<Rightarrow> int" where
  "span_delta (SpanStart n i k) = 1"
| "span_delta (SpanEnd e) = - 1"
| "span_delta _ = 0"

fun panic_delta :: "obs \<Rightarrow> int" where
  "panic_delta (LogPanic i n k) = 1"
| "panic_delta _ = 0"

text \<open>How often an attempt of a job was started: the log record that precedes the call of its handler.\<close>

fun start_delta :: "string \<Rightarrow> int \<Rightarrow> obs \<Rightarrow> int" where
  "start_delta i a (LogStart k n b) = (if k = i \<and> b = a then 1 else 0)"
| "start_delta i a _ = 0"

definition gauge :: "(obs \<Rightarrow> int) \<Rightarrow> 's disp \<Rightarrow> int" where
  "gauge f d = sum_list (map f (d_obs d))"

definition queued_jobs :: "string \<Rightarrow> 's disp \<Rightarrow> int" where
  "queued_jobs n d = int (length (filter (\<lambda>j. job_name j = n) (rq_items (d_ready d))))"

definition running_jobs :: "string \<Rightarrow> 's world \<Rightarrow> int" where
  "running_jobs n w = int (length (filter (\<lambda>(j, start). job_name j = n) (w_active w)))"

text \<open>By how much the gauge of queued jobs is too high.\<close>

definition surplus :: "string \<Rightarrow> 's disp \<Rightarrow> int" where
  "surplus n d = gauge (queued_delta n) d - queued_jobs n d"

section \<open>What each call records\<close>

lemma obs_frame [disp_simps]:
  "d_obs (emit ob d) = d_obs d @ [ob]" "d_obs (set_status i st d) = d_obs d"
  "d_obs (release_job n i d) = d_obs d" "d_obs (store_delete i d) = d_obs d"
  by (simp_all add: emit_def set_status_def release_job_def release_in_flight_def store_delete_def Let_def split: option.split)

text \<open>The gauges of a state that differs by what a callback, hook or logger was told.\<close>

lemma gauge_emit [disp_simps]: "gauge f (emit ob d) = gauge f d + f ob"
  by (simp add: gauge_def disp_simps)

lemma gauge_same: "d_obs d' = d_obs d \<Longrightarrow> gauge f d' = gauge f d"
  by (simp add: gauge_def)

lemma gauge_frame [disp_simps]:
  "gauge f (set_status i st d) = gauge f d" "gauge f (release_job n i d) = gauge f d"
  "gauge f (store_delete i d) = gauge f d" "gauge f (d\<lparr>d_ready := q\<rparr>) = gauge f d"
  "gauge f (d\<lparr>d_delay := h\<rparr>) = gauge f d" "gauge f (d\<lparr>d_executing := ex\<rparr>) = gauge f d"
  "gauge f (d\<lparr>d_job_names := ns\<rparr>) = gauge f d" "gauge f (d\<lparr>d_in_flight := fl\<rparr>) = gauge f d"
  "gauge f (d\<lparr>d_store := s\<rparr>) = gauge f d" "gauge f (d\<lparr>d_ticks := t\<rparr>) = gauge f d"
  "gauge f (d\<lparr>d_cancelled := c\<rparr>) = gauge f d" "gauge f (d\<lparr>d_signal := sg\<rparr>) = gauge f d"
  "gauge f (d\<lparr>d_handlers := hs\<rparr>) = gauge f d" "gauge f (d\<lparr>d_draws := dr\<rparr>) = gauge f d"
  by (simp_all add: gauge_def disp_simps)

text \<open>The functions whose sums are studied are zero on events and on most calls.\<close>

definition plain :: "(obs \<Rightarrow> int) \<Rightarrow> bool" where
  "plain f \<longleftrightarrow> (\<forall>a n k e. f (TaskEvent a n k e) = 0)"

lemma plain_deltas [simp]: "plain (running_delta n)" "plain (queued_delta n)" "plain span_delta" "plain panic_delta" "plain (start_delta i a)"
  by (simp_all add: plain_def)

lemma gauge_event: "plain f \<Longrightarrow> gauge f (emit_task_event a n k e d) = gauge f d"
  by (simp add: emit_task_event_def plain_def disp_simps)

lemma gauge_metric [disp_simps]:
  assumes "plain f"
  shows "gauge f (metric_queued n k d) = gauge f d + (if on_queued (cfg_metrics (d_cfg d)) then f (MetricQueued n k) else 0)"
    "gauge f (metric_running n k d) = gauge f d + (if on_running (cfg_metrics (d_cfg d)) then f (MetricRunning n k) else 0)"
    "gauge f (metric_completed n t d) = gauge f d + (if on_completed (cfg_metrics (d_cfg d)) then f (MetricCompleted n t) else 0)"
    "gauge f (metric_failed n e d) = gauge f d + (if on_failed (cfg_metrics (d_cfg d)) then f (MetricFailed n e) else 0)"
    "gauge f (metric_retried n k d) = gauge f d + (if on_retried (cfg_metrics (d_cfg d)) then f (MetricRetried n k) else 0)"
    "gauge f (metric_dropped n d) = gauge f d + (if on_dropped (cfg_metrics (d_cfg d)) then f (MetricDropped n) else 0)"
    "gauge f (metric_skipped n d) = gauge f d + (if on_skipped (cfg_metrics (d_cfg d)) then f (MetricSkipped n) else 0)"
    "gauge f (metric_replaced n d) = gauge f d + (if on_replaced (cfg_metrics (d_cfg d)) then f (MetricReplaced n) else 0)"
  using assms by (simp_all add: metric_queued_def metric_running_def metric_completed_def metric_failed_def
      metric_retried_def metric_dropped_def metric_skipped_def metric_replaced_def gauge_event disp_simps)

lemma gauge_log [disp_simps]:
  "gauge f (log_submit j d) = gauge f d + f (LogSubmit (job_id j) (job_name j) (job_run_at j))"
  "gauge f (log_start j d) = gauge f d + f (LogStart (job_id j) (job_name j) (job_attempt j))"
  "gauge f (log_completed j t d) = gauge f d + f (LogCompleted (job_id j) (job_name j) t)"
  "gauge f (log_retry j at e d) = gauge f d + f (LogRetry (job_id j) (job_name j) (wrap64 (job_attempt j + 1)) at e)"
  "gauge f (log_skipped j d) = gauge f d + f (LogSkipped (job_id j) (job_name j))"
  "gauge f (log_replaced j d) = gauge f d + f (LogReplaced (job_id j) (job_name j))"
  "gauge f (log_error j e d) = gauge f d + f (LogError (job_id j) (job_name j) (job_attempt j) e)"
  by (simp_all add: log_submit_def log_start_def log_completed_def log_retry_def log_skipped_def log_replaced_def
      log_error_def disp_simps)

lemma queued_frame:
  "d_ready d' = d_ready d \<Longrightarrow> queued_jobs n d' = queued_jobs n d"
  by (simp add: queued_jobs_def)

text \<open>
  What a call does that starts and ends no handler: the gauge of running handlers and the number of
  open spans stay, and the surplus of the queue gauge does not fall.
\<close>

definition quietly :: "'s disp \<Rightarrow> 's disp \<Rightarrow> bool" where
  "quietly d d' \<longleftrightarrow> d_cfg d' = d_cfg d \<and> (\<forall>n. gauge (running_delta n) d' = gauge (running_delta n) d) \<and>
     gauge span_delta d' = gauge span_delta d \<and> gauge panic_delta d' = gauge panic_delta d \<and>
     (\<forall>i a. gauge (start_delta i a) d' = gauge (start_delta i a) d) \<and>
     (on_queued (cfg_metrics (d_cfg d)) \<longrightarrow> (\<forall>n. surplus n d \<le> surplus n d'))"

lemma quietly_refl: "quietly d d"
  by (simp add: quietly_def)

lemma quietly_trans: "quietly d d1 \<Longrightarrow> quietly d1 d2 \<Longrightarrow> quietly d d2"
  unfolding quietly_def by (auto intro: order_trans)

lemma quietly_same: "d_cfg d' = d_cfg d \<Longrightarrow> d_obs d' = d_obs d \<Longrightarrow> d_ready d' = d_ready d \<Longrightarrow> quietly d d'"
  by (simp add: quietly_def surplus_def gauge_def queued_jobs_def)

section \<open>Calls of the API\<close>

lemma cancel_by_id_quietly: "quietly d (cancel_by_id i d)"
proof -
  have q: "queued_jobs n (cancel_by_id i d) \<le> queued_jobs n d" for n
  proof (cases "remove_first i (rq_items (d_ready d))")
    case None
    then show ?thesis using cancel_by_id_effect [of i d] by (simp add: queued_jobs_def rq_remove_def)
  next
    case (Some es)
    from remove_first_Some [OF Some] obtain xs e ys where
      "rq_items (d_ready d) = xs @ e # ys" "es = xs @ ys" by (elim exE conjE)
    then show ?thesis using Some cancel_by_id_effect [of i d] by (simp add: queued_jobs_def rq_remove_def)
  qed
  have "gauge f (cancel_by_id i d) = gauge f d" for f
    by (auto simp: cancel_by_id_def Let_def call_cancel_def disp_simps split: option.split)
  moreover have "d_cfg (cancel_by_id i d) = d_cfg d"
    by (auto simp: cancel_by_id_def Let_def call_cancel_def disp_simps split: option.split)
  ultimately show ?thesis using q by (simp add: quietly_def surplus_def)
qed

lemma fold_cancel_quietly: "quietly d (fold cancel_by_id is d)"
proof (induction "is" arbitrary: d)
  case (Cons i "is")
  show ?case using quietly_trans [OF cancel_by_id_quietly Cons.IH] by simp
qed (simp add: quietly_refl)

lemma cancel_quietly: "cancel jid d = (d', e) \<Longrightarrow> quietly d d'"
  using cancel_by_id_quietly quietly_refl by (auto simp: cancel_def split: sum.splits)

lemma note_quietly:
  "quietly d (log_replaced j (metric_replaced n d))" "quietly d (log_skipped j (metric_skipped n d))"
  "quietly d (metric_dropped n d)"
  by (simp_all add: quietly_def surplus_def queued_jobs_def disp_simps)

lemma apply_conflict_quietly:
  assumes "apply_conflict j d = (d', r)"
  shows "quietly d d'"
proof -
  have u: "quietly d (d\<lparr>d_in_flight := f\<rparr>)" for f by (rule quietly_same) simp_all
  have f: "quietly d (fold cancel_by_id is (d\<lparr>d_in_flight := f\<rparr>))" for "is" f
    by (rule quietly_trans [OF u fold_cancel_quietly])
  show ?thesis using assms f u quietly_trans [OF f note_quietly(1)] note_quietly(2) quietly_refl
    by (auto simp: apply_conflict_def Let_def split: if_splits)
qed

text \<open>A push that the code follows by the record of the queued job.\<close>

lemma push_quietly:
  assumes "rq_push ctx (d_ready d) j b = (q, r)"
  shows "quietly d (metric_queued (job_name j) 1 (set_status i st (d\<lparr>d_ready := q\<rparr>)))"
    and "r \<noteq> Ok () \<Longrightarrow> quietly d (d\<lparr>d_ready := q\<rparr>)"
  using rq_push_items [OF assms] by (simp_all add: quietly_def surplus_def queued_jobs_def disp_simps)

lemma submit_push_quietly:
  assumes "submit_push ctx j d = (d', r)"
  shows "quietly d d'"
proof -
  obtain q r1 where p: "rq_push ctx (d_ready d) j (cfg_queue_policy (d_cfg d) = QueueFullDrop) = (q, r1)" by fastforce
  have rel: "quietly x (release_job n i (store_delete i x))" for n i and x :: "'a disp"
    by (simp add: quietly_def surplus_def queued_jobs_def disp_simps)
  have log: "quietly x (log_submit j x)" for x :: "'a disp"
    by (simp add: quietly_def surplus_def queued_jobs_def disp_simps)
  show ?thesis
  proof (cases r1)
    case (Ok u)
    then have "d' = log_submit j (metric_queued (job_name j) 1 (set_status (job_id j) StatusQueued (d\<lparr>d_ready := q\<rparr>)))"
      using assms p by (simp add: submit_push_def enqueue_ready_def submit_accepted_def)
    then show ?thesis using quietly_trans [OF push_quietly(1) [OF p] log] by simp
  next
    case (Err e)
    have d1: "quietly d (d\<lparr>d_ready := q\<rparr>)" using push_quietly(2) [OF p] Err by simp
    from quietly_trans [OF this note_quietly(3)] have "quietly d (metric_dropped (job_name j) (d\<lparr>d_ready := q\<rparr>))" .
    with d1 show ?thesis using assms p Err quietly_trans [OF _ rel]
      by (auto simp: submit_push_def enqueue_ready_def split: if_splits)
  qed (use assms p push_quietly(2) [OF p] in \<open>simp_all add: submit_push_def enqueue_ready_def\<close>)
qed

lemma persist_quietly:
  assumes "persist j d = (d', r)"
  shows "quietly d d'"
proof -
  obtain s where "d' = d\<lparr>d_store := s\<rparr>" using persist_frame [OF assms] by blast
  then show ?thesis by (simp add: quietly_same)
qed

lemma release_quietly: "quietly d (release_job n i d)"
  by (rule quietly_same) (simp_all add: disp_simps)

lemma submit_now_quietly:
  assumes "submit_now ctx j d = (d', r)"
  shows "quietly d d'"
proof -
  obtain d1 e where p: "persist j d = (d1, e)" by fastforce
  note q = persist_quietly [OF p]
  show ?thesis using assms p quietly_trans [OF q submit_push_quietly] quietly_trans [OF q release_quietly]
    by (cases e) (auto simp: submit_now_def)
qed

lemma delayed_quietly: "quietly d (set_status i st (push_delayed j d))"
  by (rule quietly_same) (simp_all add: push_delayed_def disp_simps)

lemma submit_later_quietly:
  assumes "submit_later j d = (d', r)"
  shows "quietly d d'"
proof -
  obtain d1 e where p: "persist j d = (d1, e)" by fastforce
  have log: "quietly x (log_submit j x)" for x :: "'a disp"
    by (simp add: quietly_def surplus_def queued_jobs_def disp_simps)
  note q = persist_quietly [OF p]
  show ?thesis using assms p quietly_trans [OF q quietly_trans [OF delayed_quietly log]] quietly_trans [OF q release_quietly]
    by (cases e) (auto simp: submit_later_def)
qed

lemma clock_quietly: "clock_read d = (t, d') \<Longrightarrow> quietly d d'"
  by (rule quietly_same) (auto simp: clock_read_def)

lemma submit_entry_quietly:
  assumes "submit_entry ctx j d = (d', r)"
  shows "quietly d d'"
proof -
  obtain d1 c where ac: "apply_conflict j d = (d1, c)" by fastforce
  let ?d2 = "d1\<lparr>d_job_names := (d_job_names d1)(job_id j \<mapsto> job_name j)\<rparr>"
  obtain t d3 where cl: "clock_read ?d2 = (t, d3)" by fastforce
  have s1: "quietly d d1" by (rule apply_conflict_quietly [OF ac])
  have s2: "quietly d ?d2" by (rule quietly_trans [OF s1 quietly_same]) simp_all
  have s3: "quietly d d3" by (rule quietly_trans [OF s2 clock_quietly [OF cl]])
  show ?thesis
    using assms ac cl s1 quietly_trans [OF s2 release_quietly] quietly_trans [OF s2 submit_now_quietly]
      quietly_trans [OF s3 submit_now_quietly] quietly_trans [OF s3 submit_later_quietly]
    by (cases c) (auto simp: submit_entry_def Let_def split: if_splits)
qed

lemma submit_quietly:
  assumes "submit_with_options rand ctx name payload opts d = (d', r)"
  shows "quietly d d'"
proof (cases "apply_opts opts empty_spec")
  case (Inl e)
  then show ?thesis using assms by (simp add: submit_with_options_def quietly_refl)
next
  case (Inr spec)
  obtain d1 x where b: "build_entry rand name payload spec d = (d1, x)" by fastforce
  have "quietly d d1"
    by (rule quietly_same; use b in \<open>auto simp: build_entry_def new_job_id_def clock_read_def split: option.splits if_splits sum.splits\<close>)
  then show ?thesis using assms Inr b quietly_trans [OF _ submit_entry_quietly]
    by (cases x) (auto simp: submit_with_options_def)
qed

lemma restore_push_quietly:
  assumes "restore_push ctx j d = (d', r)"
  shows "quietly d d'"
proof -
  obtain q r1 where p: "rq_push ctx (d_ready d) j False = (q, r1)" by fastforce
  from push_quietly [OF p] assms p show ?thesis by (cases r1) (auto simp: restore_push_def)
qed

lemma restore_turn_quietly:
  assumes "restore_turn waited ctx j d = (d', r)"
  shows "quietly d d'"
proof (cases "waited \<or> d_handlers d (job_name j) = None")
  case True
  have skip: "quietly d (emit (LogRestoreSkipped (job_id j) (job_name j)) (store_delete (job_id j) d))"
    by (simp add: quietly_def surplus_def queued_jobs_def disp_simps)
  show ?thesis using assms True skip restore_push_quietly
    by (auto simp: restore_turn_def restore_one_def split: if_splits)
next
  case False
  let ?d2 = "add_in_flight_for_restore (job_name j) (job_id j) (d\<lparr>d_job_names := (d_job_names d)(job_id j \<mapsto> job_name j)\<rparr>)"
  obtain now d3 where c: "clock_read ?d2 = (now, d3)" by fastforce
  have "quietly d ?d2" by (rule quietly_same) (simp_all add: add_in_flight_for_restore_def)
  then have q: "quietly d d3" by (rule quietly_trans [OF _ clock_quietly [OF c]])
  show ?thesis using assms False c quietly_trans [OF q restore_push_quietly] quietly_trans [OF q delayed_quietly]
    by (auto simp: restore_turn_def restore_one_def Let_def split: if_splits)
qed

section \<open>The delay loop\<close>

lemma pop_due_quietly:
  assumes "quietly d0 d"
  shows "quietly d0 (fst (pop_due now d))"
  using assms
proof (induction rule: pop_due_rule [where Q = "\<lambda>p. quietly d0 (fst p)"])
  case (over d)
  then show ?case by simp
next
  case (cancelled d h j)
  have "quietly d (release_job (job_name j) (job_id j) (set_status (job_id j) StatusCancelled (d\<lparr>d_delay := h\<rparr>)))"
    by (rule quietly_same) (simp_all add: disp_simps)
  with cancelled(1) show ?case by (rule quietly_trans)
next
  case (pushed d h j q r)
  have "quietly d (d\<lparr>d_delay := h\<rparr>)" by (rule quietly_same) simp_all
  from quietly_trans [OF this push_quietly(1)] pushed show ?case by (fastforce intro: quietly_trans)
next
  case (held d h j q)
  have "quietly d (d\<lparr>d_delay := h\<rparr>)" by (rule quietly_same) simp_all
  from quietly_trans [OF this push_quietly(2)] held show ?case by (fastforce intro: quietly_trans)
qed

lemma drain_quietly:
  assumes "quietly d0 d"
  shows "quietly d0 (drain_delayed d)"
  using assms
proof (induction rule: drain_rule)
  case (entry d h j)
  have "quietly d (release_job (job_name j) (job_id j) (set_status (job_id j) StatusCancelled
      (metric_dropped (job_name j) (store_delete (job_id j) (d\<lparr>d_delay := h\<rparr>)))))"
    by (simp add: quietly_def surplus_def queued_jobs_def disp_simps)
  with entry(1) show ?case by (rule quietly_trans)
qed

lemma pop_due_resume_quietly: "quietly d (fst (pop_due_resume now j d))"
proof -
  obtain q r where p: "rq_push None (d_ready d) j False = (q, r)" by fastforce
  show ?thesis using p push_quietly [OF p] pop_due_quietly [OF push_quietly(1) [OF p]]
    by (auto simp: pop_due_resume_def Let_def)
qed

lemma delay_turn_quietly:
  assumes "delay_turn wk d = Some (d', r)"
  shows "quietly d d'"
proof (cases wk)
  case (TimerFired now)
  then have "d' = fst (pop_due now d)" using assms by (auto simp: delay_turn_def popped_def split: if_splits)
  then show ?thesis using pop_due_quietly [OF quietly_refl] by simp
next
  case Signalled
  then show ?thesis using assms by (auto simp: delay_turn_def quietly_same split: if_splits)
next
  case StopClosed
  then show ?thesis using assms drain_quietly [OF quietly_refl] by (auto simp: delay_turn_def split: if_splits)
qed

section \<open>Workers\<close>

text \<open>Which of the hooks are installed, and what an execution tells them.\<close>

definition beat :: "bool \<Rightarrow> int \<Rightarrow> int" where
  "beat b k = (if b then k else 0)"

lemma run_begin_gauges:
  assumes "run_begin j d = (d', r)"
  shows "d_cfg d' = d_cfg d \<and> d_ready d' = d_ready d \<and>
    gauge (queued_delta n) d' = gauge (queued_delta n) d - beat (on_queued (cfg_metrics (d_cfg d)) \<and> job_name j = n) 1 \<and>
    gauge (running_delta n) d' = gauge (running_delta n) d
      + beat (r \<noteq> None \<and> on_running (cfg_metrics (d_cfg d)) \<and> job_name j = n) 1 \<and>
    gauge span_delta d' = gauge span_delta d + beat (r \<noteq> None \<and> cfg_trace_hook (d_cfg d)) 1 \<and>
    gauge panic_delta d' = gauge panic_delta d"
proof (cases "is_cancelled (job_id j) d")
  case True
  then show ?thesis using assms by (auto simp: run_begin_def Let_def is_cancelled_def disp_simps beat_def)
next
  case False
  then show ?thesis using assms
    by (cases "d_handlers d (job_name j)")
      (auto simp: run_begin_def Let_def is_cancelled_def run_cleanup_def clock_read_def disp_simps beat_def)
qed

lemma run_begin_starts:
  assumes "run_begin j d = (d', r)"
  shows "gauge (start_delta i a) d' =
    gauge (start_delta i a) d + beat (r \<noteq> None \<and> job_id j = i \<and> job_attempt j = a) 1"
proof (cases "is_cancelled (job_id j) d")
  case True
  then show ?thesis using assms by (auto simp: run_begin_def Let_def is_cancelled_def disp_simps beat_def)
next
  case False
  then show ?thesis using assms
    by (cases "d_handlers d (job_name j)")
      (auto simp: run_begin_def Let_def is_cancelled_def run_cleanup_def clock_read_def disp_simps beat_def)
qed

lemma schedule_retry_gauges:
  assumes "schedule_retry j e d = (d', r)" "plain f" "\<And>n k. f (MetricRetried n k) = 0"
    "\<And>i n k t c. f (LogRetry i n k t c) = 0"
  shows "gauge f d' = gauge f d \<and> d_cfg d' = d_cfg d \<and> d_ready d' = d_ready d"
  using assms(1) assms(2-)
  by (cases "cfg_store (d_cfg d)")
    (auto simp: schedule_retry_def clock_read_def Let_def push_delayed_def retry_job_def disp_simps split: if_splits)

lemma run_verdict_gauges:
  assumes "run_verdict j start err d = (d', r)" "plain f" "\<And>n k. f (MetricRetried n k) = 0"
    "\<And>i n k t c. f (LogRetry i n k t c) = 0" "\<And>i n k c. f (LogError i n k c) = 0" "\<And>n c. f (MetricFailed n c) = 0"
    "\<And>n t. f (MetricCompleted n t) = 0" "\<And>i n t. f (LogCompleted i n t) = 0"
  shows "gauge f d' = gauge f d \<and> d_cfg d' = d_cfg d \<and> d_ready d' = d_ready d"
proof (cases "is_cancelled (job_id j) d")
  case True
  then show ?thesis using assms by (auto simp: run_verdict_def disp_simps)
next
  case nc: False
  show ?thesis
  proof (cases err)
    case None
    then show ?thesis using assms nc by (auto simp: run_verdict_def clock_read_def disp_simps)
  next
    case (Some e)
    then show ?thesis using assms nc schedule_retry_gauges [of j e d d' r f]
      by (auto simp: run_verdict_def disp_simps split: if_splits)
  qed
qed

lemma run_end_gauges:
  assumes "run_end j start res d = (d', r)"
  shows "d_cfg d' = d_cfg d \<and> d_ready d' = d_ready d \<and> gauge (queued_delta n) d' = gauge (queued_delta n) d \<and>
    gauge (running_delta n) d' = gauge (running_delta n) d - beat (on_running (cfg_metrics (d_cfg d)) \<and> job_name j = n) 1 \<and>
    gauge panic_delta d' = gauge panic_delta d + beat (\<exists>k. res = Panicked k) 1 \<and>
    gauge (start_delta i a) d' = gauge (start_delta i a) d \<and>
    (cfg_trace_hook (d_cfg d) \<longrightarrow>
      gauge span_delta d' = gauge span_delta d + gauge panic_delta d' - gauge panic_delta d - 1)"
proof -
  let ?d1 = "case res of Returned e \<Rightarrow> if cfg_trace_hook (d_cfg d) then emit (SpanEnd e) d else d
    | Panicked k \<Rightarrow> emit (LogPanic (job_id j) (job_name j) k) d"
  obtain d2 r2 where v: "run_verdict j start (failure_of res) ?d1 = (d2, r2)" by fastforce
  have d': "d' = run_cleanup j d2" using assms v by (cases res) (auto simp: run_end_def split: if_splits)
  have "gauge f d2 = gauge f ?d1 \<and> d_cfg d2 = d_cfg d \<and> d_ready d2 = d_ready d"
    if "f \<in> {running_delta n, queued_delta n, span_delta, panic_delta, start_delta i a}" for f
    using run_verdict_gauges [OF v, of f] that by (cases res) (auto simp: disp_simps)
  then have g: "gauge (running_delta n) d2 = gauge (running_delta n) ?d1" "gauge (queued_delta n) d2 = gauge (queued_delta n) ?d1"
    "gauge span_delta d2 = gauge span_delta ?d1" "gauge panic_delta d2 = gauge panic_delta ?d1"
    "gauge (start_delta i a) d2 = gauge (start_delta i a) ?d1"
    and c: "d_cfg d2 = d_cfg d" "d_ready d2 = d_ready d" by auto
  show ?thesis using g c by (cases res) (simp_all add: d' run_cleanup_def Let_def disp_simps beat_def)
qed

section \<open>The system\<close>

definition gauges_ok :: "'s world \<Rightarrow> bool" where
  "gauges_ok w \<longleftrightarrow>
     (on_running (cfg_metrics (d_cfg (w_disp w))) \<longrightarrow> (\<forall>n. gauge (running_delta n) (w_disp w) = running_jobs n w)) \<and>
     (cfg_trace_hook (d_cfg (w_disp w)) \<longrightarrow>
        gauge span_delta (w_disp w) = int (length (w_active w)) + gauge panic_delta (w_disp w))"

definition surplus_rises :: "'s world \<Rightarrow> 's world \<Rightarrow> bool" where
  "surplus_rises w w' \<longleftrightarrow> d_cfg (w_disp w') = d_cfg (w_disp w) \<and>
     (on_queued (cfg_metrics (d_cfg (w_disp w))) \<longrightarrow> (\<forall>n. surplus n (w_disp w) \<le> surplus n (w_disp w')))"

text \<open>A step starts the handler of one job, or of none.\<close>

definition starts_follow :: "'s world \<Rightarrow> 's world \<Rightarrow> bool" where
  "starts_follow w w' \<longleftrightarrow>
     (\<exists>j start. w_active w' = w_active w @ [(j, start)] \<and> (\<forall>i a. gauge (start_delta i a) (w_disp w') =
        gauge (start_delta i a) (w_disp w) + beat (job_id j = i \<and> job_attempt j = a) 1)) \<or>
     (length (w_active w') \<le> length (w_active w) \<and>
        (\<forall>i a. gauge (start_delta i a) (w_disp w') = gauge (start_delta i a) (w_disp w)))"

lemma quiet_step:
  assumes "quietly (w_disp w) (w_disp w')" "w_active w' = w_active w"
  shows "surplus_rises w w' \<and> (gauges_ok w \<longrightarrow> gauges_ok w') \<and> starts_follow w w'"
  using assms by (simp add: quietly_def surplus_rises_def gauges_ok_def running_jobs_def starts_follow_def)

lemma filter_nth_split:
  assumes "i < length xs"
  shows "length (filter P xs) = length (filter P (remove_nth i xs)) + (if P (xs ! i) then 1 else 0)"
  by (subst id_take_nth_drop [OF assms]) (simp add: remove_nth_def)

lemma remove_nth_length: "i < length xs \<Longrightarrow> length xs = Suc (length (remove_nth i xs))"
  by (simp add: remove_nth_def)

lemma world_step_gauges:
  assumes "world_step rand w w'"
  shows "surplus_rises w w' \<and> (gauges_ok w \<longrightarrow> gauges_ok w') \<and> starts_follow w w'"
  using assms
proof (cases rule: world_stepE)
  case (register name h d' e)
  then have "quietly (w_disp w) d'"
    by (intro quietly_same) (auto simp: register_handler_def split: option.splits if_splits)
  then show ?thesis using register(1) by (intro quiet_step) simp_all
next
  case (submit opts ctx name payload d' r)
  then show ?thesis using submit_quietly [OF submit(3)] by (intro quiet_step) simp_all
next
  case (resume i ctx d' r)
  then show ?thesis using submit_push_quietly [OF resume(3)] by (intro quiet_step) simp_all
next
  case (cancel jid d' e)
  then show ?thesis using cancel_quietly [OF cancel(2)] by (intro quiet_step) simp_all
next
  case (restore ops s' l)
  then show ?thesis by (intro quiet_step) (simp_all add: quietly_same)
next
  case (restore_next i waited j js ctx d' r)
  then show ?thesis using restore_turn_quietly [OF restore_next(4)] by (intro quiet_step) simp_all
next
  case (delay wk d' r)
  then show ?thesis using delay_turn_quietly [OF delay(3)] by (intro quiet_step) simp_all
next
  case (delay_resume j now d' r)
  then have "d' = fst (pop_due_resume now j (w_disp w))" by (simp add: popped_def)
  then show ?thesis using delay_resume(1) pop_due_resume_quietly [of "w_disp w" now j] by (intro quiet_step) simp_all
next
  case (worker_take q' j d' r)
  let ?d = "(w_disp w)\<lparr>d_ready := q'\<rparr>"
  have q: "queued_jobs n (w_disp w) = queued_jobs n ?d + beat (job_name j = n) 1" for n
    using rq_pop_items [OF worker_take(3)] by (simp add: queued_jobs_def beat_def)
  have "running_jobs n w' = running_jobs n w + beat (r \<noteq> None \<and> job_name j = n) 1"
    "length (w_active w') = length (w_active w) + (if r \<noteq> None then 1 else 0)" for n
    using worker_take(1) by (auto simp: running_jobs_def beat_def split: option.split)
  moreover have "gauge f ?d = gauge f (w_disp w)" "d_cfg ?d = d_cfg (w_disp w)" for f by (simp_all add: disp_simps)
  moreover have "queued_jobs n d' = queued_jobs n ?d" for n
    using run_begin_gauges [OF worker_take(4)] by (intro queued_frame) simp
  moreover have "w_disp w' = d'" using worker_take(1) by simp
  moreover note run_begin_gauges [OF worker_take(4)] q
  ultimately have "surplus_rises w w' \<and> (gauges_ok w \<longrightarrow> gauges_ok w')"
    unfolding surplus_rises_def gauges_ok_def surplus_def by (auto simp: beat_def)
  moreover have "starts_follow w w'"
    using worker_take(1) run_begin_starts [OF worker_take(4)]
    by (cases r) (auto simp: starts_follow_def disp_simps beat_def)
  ultimately show ?thesis by blast
next
  case (handler_end i j start res d' r)
  note e = run_end_gauges [OF handler_end(4)]
  have "running_jobs n w' = running_jobs n w - beat (job_name j = n) 1" for n
    using handler_end(1,3) filter_nth_split [OF handler_end(2), of "\<lambda>(j, start). job_name j = n"]
    by (simp add: running_jobs_def beat_def)
  moreover have "length (w_active w) = Suc (length (w_active w'))"
    using handler_end(1) remove_nth_length [OF handler_end(2)] by simp
  moreover have "queued_jobs n d' = queued_jobs n (w_disp w)" for n using e by (intro queued_frame) simp
  moreover have "w_disp w' = d'" using handler_end(1) by simp
  ultimately show ?thesis using e unfolding surplus_rises_def gauges_ok_def surplus_def starts_follow_def
    by (auto simp: beat_def)
next
  case shut
  have "quietly (w_disp w) (shutdown_begin (w_disp w))"
    by (simp add: quietly_def surplus_def gauge_def queued_jobs_def shutdown_begin_def rq_close_def rq_signal_def Let_def)
  then show ?thesis using shut by (intro quiet_step) simp_all
next
  case (shut_timeout c d' e)
  then have "quietly (w_disp w) d'" by (intro quietly_same) (auto simp: wait_workers_def)
  then show ?thesis using shut_timeout(1) by (intro quiet_step) simp_all
next
  case (draw d' r)
  then have "quietly (w_disp w) d'" by (intro quietly_same) (auto simp: new_job_id_def)
  then show ?thesis using draw(1) by (intro quiet_step) simp_all
qed

end
