(* ===== verification/Observability.thy ===== *)
theory Observability
  imports Gauges
begin

text \<open>
  What the callbacks and the trace hook tell. The sum of the deltas of \<open>Running\<close> is the number of
  running handlers; the sum of the deltas of \<open>Queued\<close> never falls below the number of queued jobs, but
  what it is too high it stays too high; a span that is opened is closed unless its handler panicked.
\<close>

interpretation gauges: world_invariant gauges_ok
proof
  fix time_now and st :: 'a and opts and d :: "'a disp"
  assume "new_dispatcher time_now st opts = Inr d"
  then have "d_obs d = []" by (auto simp: new_dispatcher_def Let_def split: sum.splits)
  then show "gauges_ok (start_world d)" by (simp add: gauges_ok_def start_world_def gauge_def running_jobs_def)
qed (use world_step_gauges in blast)

lemma surplus_rises_steps: "(world_step rand)\<^sup>*\<^sup>* w w' \<Longrightarrow> surplus_rises w w'"
proof (induction rule: rtranclp_induct)
  case base
  then show ?case by (simp add: surplus_rises_def)
next
  case (step y z)
  then show ?case using world_step_gauges [OF step(2)] unfolding surplus_rises_def by (metis order_trans)
qed

interpretation queue_gauge: world_invariant "\<lambda>w. on_queued (cfg_metrics (d_cfg (w_disp w))) \<longrightarrow> (\<forall>n. 0 \<le> surplus n (w_disp w))"
proof
  fix time_now and st :: 'a and opts and d :: "'a disp"
  assume "new_dispatcher time_now st opts = Inr d"
  then have "d_obs d = []" "rq_items (d_ready d) = []"
    by (auto simp: new_dispatcher_def new_ready_queue_def Let_def split: sum.splits)
  then show "on_queued (cfg_metrics (d_cfg (w_disp (start_world d)))) \<longrightarrow> (\<forall>n. 0 \<le> surplus n (w_disp (start_world d)))"
    by (simp add: start_world_def surplus_def gauge_def queued_jobs_def)
next
  fix rand and w w' b :: "'a world"
  show "on_queued (cfg_metrics (d_cfg (w_disp w'))) \<longrightarrow> (\<forall>n. 0 \<le> surplus n (w_disp w'))"
    if "world_step rand w w'" "on_queued (cfg_metrics (d_cfg (w_disp w))) \<longrightarrow> (\<forall>n. 0 \<le> surplus n (w_disp w))"
    using that world_step_gauges [OF that(1)] unfolding surplus_rises_def by (metis order_trans)
qed

section \<open>A concrete run\<close>

text \<open>A dispatcher with callbacks and a trace hook; one job is cancelled in the queue, or runs and panics.\<close>

definition all_metrics :: metrics where
  "all_metrics = \<lparr>on_queued = True, on_running = True, on_completed = True, on_failed = True,
     on_retried = True, on_dropped = True, on_skipped = True, on_replaced = True\<rparr>"

definition watched_options :: "unit dispatcher_option list" where
  "watched_options = [with_metrics all_metrics, with_trace_hook True]"

definition watched_d1 :: "unit disp" where
  "watched_d1 = fst (register_handler ''n'' (Some 7) (projr (new_dispatcher sample_clock () watched_options)))"

definition watched_d2 :: "unit disp" where
  "watched_d2 = fst (submit_with_options sample_rand None ''n'' [] [] watched_d1)"

definition watched_d3 :: "unit disp" where
  "watched_d3 = fst (cancel ''a'' watched_d2)"

definition watched_job :: job where
  "watched_job = hd (rq_items (d_ready watched_d2))"

definition watched_begun :: "unit disp \<times> (nat \<times> time \<times> duration option) option" where
  "watched_begun = run_begin watched_job (watched_d2\<lparr>d_ready := fst (rq_pop (d_ready watched_d2))\<rparr>)"

definition watched_d4 :: "unit disp" where
  "watched_d4 = fst (run_end watched_job 1001 (Panicked 1) (fst watched_begun))"

definition watching :: "'s disp \<Rightarrow> bool" where
  "watching d \<longleftrightarrow> on_queued (cfg_metrics (d_cfg d)) \<and> on_running (cfg_metrics (d_cfg d)) \<and> cfg_trace_hook (d_cfg d) \<and>
     0 < cfg_workers (d_cfg d)"

lemma watched_submitted: "snd (submit_with_options sample_rand None ''n'' [] [] watched_d1) = Ok ''a''"
  by code_simp

lemma watched_taken: "takes_one (rq_pop (d_ready watched_d2)) watched_job" "job_name watched_job = ''n''"
  "gauge panic_delta watched_d2 = 0"
  by code_simp+

lemma watched_begun_at: "begun_at (snd watched_begun) 1001"
  by code_simp

lemma watched_cancelled: "gauge (queued_delta ''n'') watched_d3 = 1" "rq_items (d_ready watched_d3) = []"
  by code_simp+

lemma watched_reach:
  shows watched_d2_reach: "world_reach sample_rand sample_clock () watched_options (calm watched_d2 DelayIdle)"
    and watched_d3_reach: "world_reach sample_rand sample_clock () watched_options (calm watched_d3 DelayIdle)"
    and watched_running: "world_reach sample_rand sample_clock () watched_options
      ((calm (fst watched_begun) DelayIdle)\<lparr>w_active := [(watched_job, 1001)]\<rparr>)"
    and watched_d4_reach: "world_reach sample_rand sample_clock () watched_options (calm watched_d4 DelayIdle)"
proof -
  let ?reach = "world_reach sample_rand sample_clock () watched_options"
  let ?d0 = "projr (new_dispatcher sample_clock () watched_options) :: unit disp"
  have "new_dispatcher sample_clock () watched_options = Inr ?d0"
    by (simp add: new_dispatcher_def watched_options_def with_metrics_def with_trace_hook_def Let_def)
  then have "?reach (start_world ?d0)"
    by (rule world_reach.start [rotated]) (simp add: watched_options_def known_options.intros)
  then have "?reach (calm ?d0 DelayIdle)" by (simp add: start_world_def calm_def)
  then have "?reach (calm watched_d1 DelayIdle)"
    unfolding watched_d1_def by (rule world_reach.step [OF _ calm_register])
  moreover have "world_step sample_rand (calm watched_d1 DelayIdle) (calm watched_d2 DelayIdle)"
    unfolding watched_d2_def by (rule calm_submit [OF _ watched_submitted]) simp
  ultimately show r2: "?reach (calm watched_d2 DelayIdle)" by (rule world_reach.step)
  have "world_step sample_rand (calm watched_d2 DelayIdle) (calm watched_d3 DelayIdle)"
    using world_step.cancel [of "''a''" "calm watched_d2 DelayIdle" watched_d3 "snd (cancel ''a'' watched_d2)" sample_rand]
    by (simp add: watched_d3_def calm_def)
  with r2 show "?reach (calm watched_d3 DelayIdle)" by (rule world_reach.step)
  have "0 < cfg_workers (d_cfg watched_d2)" by code_simp
  from calm_take [OF watched_taken(1) watched_begun_at [unfolded watched_begun_def] this]
  show r: "?reach ((calm (fst watched_begun) DelayIdle)\<lparr>w_active := [(watched_job, 1001)]\<rparr>)"
    unfolding watched_begun_def by (rule world_reach.step [OF r2])
  from world_reach_ok [OF r] obtain b where "disp_ok b (fst watched_begun)" "good_job watched_job"
    by (auto simp: world_ok_def calm_def)
  then have "run_end watched_job 1001 (Panicked 1) (fst watched_begun) = (watched_d4, Ok ())"
    using run_end_ok [of b "fst watched_begun" watched_job 1001 "Panicked 1"] by (simp add: watched_d4_def prod_eq_iff)
  then have "world_step sample_rand ((calm (fst watched_begun) DelayIdle)\<lparr>w_active := [(watched_job, 1001)]\<rparr>)
      (calm watched_d4 DelayIdle)"
    using world_step.handler_end [of 0 "(calm (fst watched_begun) DelayIdle)\<lparr>w_active := [(watched_job, 1001)]\<rparr>"
      watched_job 1001 "Panicked 1" watched_d4 "Ok ()" sample_rand] by (simp add: calm_def remove_nth_def)
  with r show "?reach (calm watched_d4 DelayIdle)" by (rule world_reach.step)
qed

lemma watched_panicked: "gauge panic_delta watched_d4 = 1"
proof -
  obtain b where "disp_ok b (fst watched_begun)" "good_job watched_job"
    using world_reach_ok [OF watched_running] by (auto simp: world_ok_def calm_def)
  then have "run_end watched_job 1001 (Panicked 1) (fst watched_begun) = (watched_d4, Ok ())"
    using run_end_ok [of b "fst watched_begun" watched_job 1001 "Panicked 1"] by (simp add: watched_d4_def prod_eq_iff)
  from run_end_gauges [OF this] have "gauge panic_delta watched_d4 = gauge panic_delta (fst watched_begun) + 1"
    by (simp add: beat_def)
  moreover have "gauge panic_delta (fst watched_begun) = gauge panic_delta watched_d2"
    using run_begin_gauges [of watched_job "watched_d2\<lparr>d_ready := fst (rq_pop (d_ready watched_d2))\<rparr>"
      "fst watched_begun" "snd watched_begun"] by (simp add: watched_begun_def disp_simps)
  ultimately show ?thesis by (simp add: watched_taken(3))
qed

text \<open>The configuration does not change, so the hooks are there in every state of the run.\<close>

lemma watched_hooks:
  assumes "world_reach sample_rand sample_clock () watched_options w"
  shows "watching (w_disp w)"
proof -
  obtain b where b: "new_dispatcher sample_clock () watched_options = Inr b" "world_ok b w"
    using world_reach_ok [OF assms] by blast
  then have "d_cfg (w_disp w) = d_cfg b" by (simp add: world_ok_def disp_ok_def)
  moreover have "watching b" using b(1)
    by (auto simp: new_dispatcher_def watched_options_def with_metrics_def with_trace_hook_def Let_def watching_def
        all_metrics_def default_config_def)
  ultimately show ?thesis by (simp add: watching_def)
qed

section \<open>Properties\<close>

text \<open>
  C18: The gauge of running handlers is exact. In every state a dispatcher with a \<open>Running\<close> callback
  reaches, the deltas it was called with for a name add up to the number of handlers of that name that
  run, whatever the handlers do: return, fail, panic, be retried, or be missing.
\<close>
theorem running_gauge_exact:
  assumes "world_reach rand time_now st opts w" "on_running (cfg_metrics (d_cfg (w_disp w)))"
  shows "gauge (running_delta n) (w_disp w) = running_jobs n w"
  using gauges.reach [OF assms(1)] assms(2) by (simp add: gauges_ok_def)


text \<open>
  The span of a handler that panics is never ended. In every state a dispatcher with a trace hook
  reaches, the spans that were started and not ended are those of the running handlers and one for each
  panic that was recovered.
\<close>
theorem panicked_spans_stay_open:
  assumes "world_reach rand time_now st opts w" "cfg_trace_hook (d_cfg (w_disp w))"
  shows "gauge span_delta (w_disp w) = int (length (w_active w)) + gauge panic_delta (w_disp w)"
  using gauges.reach [OF assms(1)] assms(2) by (simp add: gauges_ok_def)

theorem running_gauge_exact_witness: "gauge (running_delta ''n'') (fst watched_begun) = 1"
  using running_gauge_exact [OF watched_running, of "''n''"] watched_hooks [OF watched_running] watched_taken(2)
  by (simp add: watching_def running_jobs_def calm_def)


theorem panicked_spans_stay_open_witness:
  "w_active (calm watched_d4 DelayIdle) = [] \<and> gauge span_delta watched_d4 = 1"
  using panicked_spans_stay_open [OF watched_d4_reach] watched_hooks [OF watched_d4_reach] watched_panicked
  by (simp add: watching_def calm_def)

end
