(* ===== verification/Simulations.thy ===== *)
theory Simulations
  imports Jobx_Prelude
begin

text \<open>
  A step relation that is refined by another: under an invariant, each step of the one is a sequence of
  steps of the other between the abstractions of its states. Then so is each run.
\<close>

locale simulation =
  fixes step :: "'a \<Rightarrow> 'a \<Rightarrow> bool" and inv :: "'a \<Rightarrow> bool"
    and astep :: "'b \<Rightarrow> 'b \<Rightarrow> bool" and abs :: "'a \<Rightarrow> 'b"
  assumes kept: "step s s' \<Longrightarrow> inv s \<Longrightarrow> inv s'"
    and simulates: "step s s' \<Longrightarrow> inv s \<Longrightarrow> astep\<^sup>*\<^sup>* (abs s) (abs s')"
begin

lemma run: "step\<^sup>*\<^sup>* s s' \<Longrightarrow> inv s \<Longrightarrow> inv s' \<and> astep\<^sup>*\<^sup>* (abs s) (abs s')"
proof (induction rule: rtranclp_induct)
  case base
  then show ?case by simp
next
  case (step s' s'')
  then have "inv s'" and run: "astep\<^sup>*\<^sup>* (abs s) (abs s')" by simp_all
  with step(2) have "inv s''" "astep\<^sup>*\<^sup>* (abs s') (abs s'')" by (auto intro: kept simulates)
  with run show ?case by (auto intro: rtranclp_trans)
qed

end

end
