(* ===== verification/Job_System.thy ===== *)
theory Job_System
  imports Dispatcher_System Simulations
begin

text \<open>
  The jobs of a dispatcher as an abstract system: a multiset of jobs at rest (wherever they wait), one
  of running jobs, how often each attempt of a job was started, and how many identifiers were drawn.
  Jobs enter with a new identifier, are lost, start, and finish with or without another attempt. Its
  invariant counts the attempts. The dispatcher refines it (in \<open>Job_Once\<close>).
\<close>

section \<open>The system\<close>

record job_system =
  sys_resting :: "job multiset"
  sys_running :: "job multiset"
  sys_starts :: "string \<Rightarrow> int \<Rightarrow> int"
  sys_draws :: nat

definition start_system :: job_system where
  "start_system = \<lparr>sys_resting = {#}, sys_running = {#}, sys_starts = (\<lambda>i a. 0), sys_draws = 0\<rparr>"

definition one_more :: "job \<Rightarrow> (string \<Rightarrow> int \<Rightarrow> int) \<Rightarrow> string \<Rightarrow> int \<Rightarrow> int" where
  "one_more j l i a = l i a + (if job_id j = i \<and> job_attempt j = a then 1 else 0)"

inductive system_step :: "(nat \<Rightarrow> go_err + string) \<Rightarrow> job_system \<Rightarrow> job_system \<Rightarrow> bool" for rand where
  lose: "R \<subseteq># sys_resting s \<Longrightarrow> sys_draws s \<le> k \<Longrightarrow>
    system_step rand s (s\<lparr>sys_resting := R, sys_draws := k\<rparr>)"
| enter: "R \<subseteq># add_mset j (sys_resting s) \<Longrightarrow> good_job j \<Longrightarrow> job_attempt j = 0 \<Longrightarrow>
    rand (sys_draws s) = Inr (job_id j) \<Longrightarrow> sys_draws s < k \<Longrightarrow>
    system_step rand s (s\<lparr>sys_resting := R, sys_draws := k\<rparr>)"
| start: "sys_resting s = add_mset j R \<Longrightarrow>
    system_step rand s (s\<lparr>sys_resting := R, sys_running := add_mset j (sys_running s),
      sys_starts := one_more j (sys_starts s)\<rparr>)"
| finish: "sys_running s = add_mset j A \<Longrightarrow> system_step rand s (s\<lparr>sys_running := A\<rparr>)"
| again: "sys_running s = add_mset j A \<Longrightarrow> good_job j' \<Longrightarrow> job_id j' = job_id j \<Longrightarrow>
    job_attempt j' = job_attempt j + 1 \<Longrightarrow>
    system_step rand s (s\<lparr>sys_resting := add_mset j' (sys_resting s), sys_running := A\<rparr>)"

section \<open>Its invariant\<close>

definition sys_ids :: "job_system \<Rightarrow> string multiset" where
  "sys_ids s = image_mset job_id (sys_resting s + sys_running s)"

definition drawn :: "(nat \<Rightarrow> go_err + string) \<Rightarrow> job_system \<Rightarrow> string \<Rightarrow> bool" where
  "drawn rand s i \<longleftrightarrow> (\<exists>k < sys_draws s. rand k = Inr i)"

text \<open>The attempts \<open>0\<close> to \<open>n - 1\<close> of a job were started once each, and no others.\<close>

definition begun :: "(string \<Rightarrow> int \<Rightarrow> int) \<Rightarrow> string \<Rightarrow> int \<Rightarrow> bool" where
  "begun l i n \<longleftrightarrow> (\<forall>a. l i a = (if 0 \<le> a \<and> a < n then 1 else 0))"

definition system_ok :: "(nat \<Rightarrow> go_err + string) \<Rightarrow> job_system \<Rightarrow> bool" where
  "system_ok rand s \<longleftrightarrow> (\<forall>i. count (sys_ids s) i \<le> 1) \<and> (\<forall>i\<in>#sys_ids s. drawn rand s i) \<and>
     (\<forall>j\<in>#sys_resting s. good_job j \<and> begun (sys_starts s) (job_id j) (job_attempt j)) \<and>
     (\<forall>j\<in>#sys_running s. good_job j \<and> begun (sys_starts s) (job_id j) (job_attempt j + 1)) \<and>
     (\<forall>i. \<exists>n. 0 \<le> n \<and> n \<le> 101 \<and> begun (sys_starts s) i n) \<and> (\<forall>i. \<not> drawn rand s i \<longrightarrow> begun (sys_starts s) i 0)"

lemma system_okI:
  assumes "\<And>i. count (sys_ids s) i \<le> 1" "\<And>i. i \<in># sys_ids s \<Longrightarrow> drawn rand s i"
    and "\<And>j. j \<in># sys_resting s \<Longrightarrow> good_job j \<and> begun (sys_starts s) (job_id j) (job_attempt j)"
    and "\<And>j. j \<in># sys_running s \<Longrightarrow> good_job j \<and> begun (sys_starts s) (job_id j) (job_attempt j + 1)"
    and "\<And>i. \<exists>n. 0 \<le> n \<and> n \<le> 101 \<and> begun (sys_starts s) i n"
    and "\<And>i. \<not> drawn rand s i \<Longrightarrow> begun (sys_starts s) i 0"
  shows "system_ok rand s"
  using assms by (simp add: system_ok_def)

lemma system_okD:
  assumes "system_ok rand s"
  shows "count (sys_ids s) i \<le> 1" "i \<in># sys_ids s \<Longrightarrow> drawn rand s i"
    and "j \<in># sys_resting s \<Longrightarrow> good_job j \<and> begun (sys_starts s) (job_id j) (job_attempt j)"
    and "j \<in># sys_running s \<Longrightarrow> good_job j \<and> begun (sys_starts s) (job_id j) (job_attempt j + 1)"
    and "\<exists>n. 0 \<le> n \<and> n \<le> 101 \<and> begun (sys_starts s) i n"
    and "\<not> drawn rand s i \<Longrightarrow> begun (sys_starts s) i 0"
  using assms by (simp_all add: system_ok_def)

lemma start_system_ok: "system_ok rand start_system"
  by (auto simp: system_ok_def start_system_def sys_ids_def begun_def)

lemma begun_more: "begun l (job_id j) (job_attempt j) \<Longrightarrow> 0 \<le> job_attempt j \<Longrightarrow> begun (one_more j l) (job_id j) (job_attempt j + 1)"
  by (auto simp: begun_def one_more_def)

lemma begun_le:
  assumes "begun l i n" "begun l i m" "0 \<le> m"
  shows "n \<le> m"
proof (rule ccontr)
  assume "\<not> n \<le> m"
  then have "l i m = 1" using assms(1,3) by (simp add: begun_def)
  moreover have "l i m = 0" using assms(2) by (simp add: begun_def)
  ultimately show False by simp
qed

lemma begun_unique: "begun l i n \<Longrightarrow> begun l i m \<Longrightarrow> 0 \<le> n \<Longrightarrow> 0 \<le> m \<Longrightarrow> n = m"
  using begun_le [of l i n m] begun_le [of l i m n] by simp

lemma begun_other: "i \<noteq> job_id j \<Longrightarrow> begun (one_more j l) i n = begun l i n"
  by (auto simp: begun_def one_more_def)

lemma count_sub: "A \<subseteq># B \<Longrightarrow> count B i \<le> (1::nat) \<Longrightarrow> count A i \<le> 1"
  by (meson le_trans mset_subset_eq_count)

lemma drawn_more: "drawn rand s i \<Longrightarrow> sys_draws s \<le> sys_draws s' \<Longrightarrow> drawn rand s' i"
  unfolding drawn_def by (meson order_less_le_trans)

lemma lose_ok:
  assumes "system_ok rand s" "R \<subseteq># sys_resting s" "sys_draws s \<le> k"
  shows "system_ok rand (s\<lparr>sys_resting := R, sys_draws := k\<rparr>)" (is "system_ok rand ?t")
proof -
  have sub: "sys_ids ?t \<subseteq># sys_ids s" unfolding sys_ids_def using assms(2) by (simp add: image_mset_subseteq_mono)
  show ?thesis
  proof (rule system_okI, goal_cases one known resting running attempts fresh)
    case (one i)
    show ?case by (rule count_sub [OF sub system_okD(1) [OF assms(1)]])
  next
    case (known i)
    then have "drawn rand s i" using mset_subset_eqD [OF sub] system_okD(2) [OF assms(1)] by blast
    from drawn_more [OF this, of ?t] show ?case using assms(3) by simp
  next
    case (resting j)
    then show ?case using mset_subset_eqD [OF assms(2)] system_okD(3) [OF assms(1), of j] by simp
  next
    case (running j)
    then show ?case using system_okD(4) [OF assms(1), of j] by simp
  next
    case (attempts i)
    show ?case using system_okD(5) [OF assms(1), of i] by simp
  next
    case (fresh i)
    have "\<not> drawn rand s i" using fresh drawn_more [of rand s i ?t] assms(3) by auto
    then show ?case using system_okD(6) [OF assms(1)] by simp
  qed
qed

lemma enter_ok:
  assumes "system_ok rand s" "distinct_draws rand" "good_job j" "job_attempt j = 0"
    and "rand (sys_draws s) = Inr (job_id j)" "sys_draws s < k"
  shows "system_ok rand (s\<lparr>sys_resting := add_mset j (sys_resting s), sys_draws := k\<rparr>)" (is "system_ok rand ?t")
proof -
  have new: "\<not> drawn rand s (job_id j)" using assms(2,5) by (auto simp: drawn_def distinct_draws_def)
  then have out: "job_id j \<notin># sys_ids s" using system_okD(2) [OF assms(1)] by blast
  have ids: "sys_ids ?t = add_mset (job_id j) (sys_ids s)" by (simp add: sys_ids_def)
  have j: "drawn rand ?t (job_id j)" using assms(5,6) by (auto simp: drawn_def)
  have keep: "drawn rand ?t i" if "drawn rand s i" for i using drawn_more [OF that, of ?t] assms(6) by simp
  show ?thesis
  proof (rule system_okI, goal_cases one known resting running attempts fresh)
    case (one i)
    show ?case using system_okD(1) [OF assms(1), of i] out ids by (auto simp: not_in_iff)
  next
    case (known i)
    then show ?case using ids j keep system_okD(2) [OF assms(1)] by auto
  next
    case (resting k)
    then show ?case using system_okD(3) [OF assms(1), of k] system_okD(6) [OF assms(1) new] assms(3,4) by auto
  next
    case (running k)
    then show ?case using system_okD(4) [OF assms(1), of k] by simp
  next
    case (attempts i)
    show ?case using system_okD(5) [OF assms(1), of i] by simp
  next
    case (fresh i)
    then show ?case using keep system_okD(6) [OF assms(1), of i] by auto
  qed
qed

lemma start_ok:
  assumes "system_ok rand s" "sys_resting s = add_mset j R"
  shows "system_ok rand (s\<lparr>sys_resting := R, sys_running := add_mset j (sys_running s),
    sys_starts := one_more j (sys_starts s)\<rparr>)" (is "system_ok rand ?t")
proof -
  have ids: "sys_ids ?t = sys_ids s" "job_id j \<in># sys_ids s" using assms(2) by (simp_all add: sys_ids_def)
  have dr: "drawn rand ?t = drawn rand s" by (simp add: drawn_def fun_eq_iff)
  have j: "good_job j" "begun (sys_starts s) (job_id j) (job_attempt j)" using system_okD(3) [OF assms(1), of j] assms(2) by simp_all
  then have at: "0 \<le> job_attempt j" "job_attempt j \<le> 100" by (simp_all add: good_job_def)
  note b = begun_more [OF j(2) at(1)]
  have other: "begun (sys_starts ?t) (job_id k) n = begun (sys_starts s) (job_id k) n" if "k \<in># R + sys_running s" for k n
  proof -
    have "job_id k \<in># image_mset job_id (R + sys_running s)" using that by auto
    moreover have "job_id j \<notin># image_mset job_id (R + sys_running s)"
      using system_okD(1) [OF assms(1), of "job_id j"] assms(2) unfolding sys_ids_def not_in_iff by simp
    ultimately have "job_id k \<noteq> job_id j" by metis
    then show ?thesis by (simp add: begun_other)
  qed
  show ?thesis
  proof (rule system_okI, goal_cases one known resting running attempts fresh)
    case (one i)
    show ?case using system_okD(1) [OF assms(1), of i] ids by simp
  next
    case (known i)
    then show ?case using ids dr system_okD(2) [OF assms(1)] by simp
  next
    case (resting k)
    then show ?case using system_okD(3) [OF assms(1), of k] other [of k] assms(2) by simp
  next
    case (running k)
    then show ?case using system_okD(4) [OF assms(1), of k] other [of k] j b by auto
  next
    case (attempts i)
    show ?case
    proof (cases "i = job_id j")
      case True
      then show ?thesis using b at by (intro exI [of _ "job_attempt j + 1"]) simp
    next
      case False
      then show ?thesis using system_okD(5) [OF assms(1), of i] begun_other [OF False] by simp
    qed
  next
    case (fresh i)
    then have "\<not> drawn rand s i" using dr by simp
    moreover from this have "i \<noteq> job_id j" using system_okD(2) [OF assms(1) ids(2)] by auto
    ultimately show ?case using system_okD(6) [OF assms(1)] begun_other by simp
  qed
qed

lemma finish_ok:
  assumes "system_ok rand s" "sys_running s = add_mset j A"
  shows "system_ok rand (s\<lparr>sys_running := A\<rparr>)" (is "system_ok rand ?t")
proof -
  have sub: "sys_ids ?t \<subseteq># sys_ids s" using assms(2) by (simp add: sys_ids_def)
  have "\<forall>i. count (sys_ids ?t) i \<le> 1" using count_sub [OF sub system_okD(1) [OF assms(1)]] by simp
  then show ?thesis using assms set_mset_mono [OF sub] unfolding system_ok_def by (auto simp: drawn_def)
qed

lemma again_ok:
  assumes "system_ok rand s" "sys_running s = add_mset j A" "good_job j'" "job_id j' = job_id j"
    and "job_attempt j' = job_attempt j + 1"
  shows "system_ok rand (s\<lparr>sys_resting := add_mset j' (sys_resting s), sys_running := A\<rparr>)" (is "system_ok rand ?t")
proof -
  have "sys_ids ?t = sys_ids s" using assms(2,4) by (simp add: sys_ids_def)
  then show ?thesis using assms unfolding system_ok_def by (auto simp: drawn_def)
qed

theorem system_step_ok:
  "system_step rand s s' \<Longrightarrow> system_ok rand s \<Longrightarrow> distinct_draws rand \<Longrightarrow> system_ok rand s'"
proof (induction rule: system_step.induct)
  case (enter R j s k)
  have "system_ok rand ((s\<lparr>sys_resting := add_mset j (sys_resting s), sys_draws := k\<rparr>)\<lparr>sys_resting := R, sys_draws := k\<rparr>)"
    by (rule lose_ok [OF enter_ok [OF enter(6,7,2-5)]]) (use enter(1) in simp_all)
  then show ?case by simp
qed (blast intro: lose_ok start_ok finish_ok again_ok)+

lemma system_reach_ok:
  assumes "(system_step rand)\<^sup>*\<^sup>* start_system s" "distinct_draws rand"
  shows "system_ok rand s"
  using assms(1)
proof (induction rule: rtranclp_induct)
  case base
  show ?case by (rule start_system_ok)
next
  case (step y z)
  then show ?case using system_step_ok assms(2) by blast
qed

end
