(* ===== verification/Job_Moves.thy ===== *)
theory Job_Moves
  imports Gauges Job_System
begin

text \<open>
  Which jobs each operation of the dispatcher adds to the ready queue and the delay heap and which it
  removes, as multisets: at most the submitted job comes in, a handler that failed brings its job back
  with the next attempt, and no operation but the end of a handler forgets a cancel function.
\<close>

section \<open>The jobs an operation moves\<close>

definition occ :: "'s disp \<Rightarrow> job multiset" where
  "occ d = mset (rq_items (d_ready d)) + mset (d_delay d)"

definition exec_ids :: "'s disp \<Rightarrow> string set" where
  "exec_ids d = fst ` set (d_executing d)"

text \<open>An operation adds at most the jobs \<open>a\<close>, and forgets no cancel function.\<close>

definition moved :: "job multiset \<Rightarrow> 's disp \<Rightarrow> 's disp \<Rightarrow> bool" where
  "moved a d d' \<longleftrightarrow> occ d' \<subseteq># occ d + a \<and> exec_ids d \<subseteq> exec_ids d'"

lemma moved_same:
  assumes "rq_items (d_ready d') = rq_items (d_ready d)" "d_delay d' = d_delay d" "d_executing d' = d_executing d"
  shows "moved {#} d d'"
  using assms by (simp add: moved_def occ_def exec_ids_def)

lemma moved_trans: "moved a d d1 \<Longrightarrow> moved b d1 d2 \<Longrightarrow> moved (a + b) d d2"
  unfolding moved_def by (auto intro: subset_mset.order_trans simp: ac_simps subset_mset.add_mono)

lemma moved_step: "moved {#} d d1 \<Longrightarrow> moved a d1 d2 \<Longrightarrow> moved a d d2"
  using moved_trans [of "{#}" d d1 a d2] by simp

lemma moved_more: "moved {#} d d' \<Longrightarrow> moved a d d'"
  unfolding moved_def using subset_mset.add_increasing2 [of "occ d'" "occ d" a] by (auto intro: subset_mset.order_trans)

lemma moved_refl: "moved {#} d d"
  by (simp add: moved_def)

section \<open>Cancellation and submission\<close>

lemma rq_remove_sub: "mset (rq_items (fst (rq_remove q i))) \<subseteq># mset (rq_items q)"
proof (cases "remove_first i (rq_items q)")
  case (Some es)
  from remove_first_Some [OF Some] obtain xs e ys where
    "rq_items q = xs @ e # ys" "es = xs @ ys" by (elim exE conjE)
  then show ?thesis using Some by (simp add: rq_remove_def)
qed (simp add: rq_remove_def)

lemma heap_remove_id_sub:
  assumes "is_heap h"
  shows "mset (heap_remove_id h i) \<subseteq># mset h"
proof (cases "i \<in> job_id ` set h")
  case True
  then obtain j where "mset h = add_mset j (mset (heap_remove_id h i))"
    using heap_remove_id_spec [OF assms, of i] by auto
  then show ?thesis by simp
qed (use heap_remove_id_spec [OF assms, of i] in simp)

lemma in_delete_fst: "fst ` set (AList.delete k al) = fst ` set al - {k}"
  by (induction al) auto

lemma update_keys: "fst ` set (AList.update k v al) = insert k (fst ` set al)"
  by (induction al) auto

lemma cancel_by_id_moved:
  assumes "disp_ok b d"
  shows "moved {#} d (cancel_by_id i d)"
proof -
  note e = cancel_by_id_effect [of i d]
  have h: "is_heap (d_delay d)" using assms by (simp add: disp_ok_def delay_fits_def)
  have "occ (cancel_by_id i d) \<subseteq># occ d"
    unfolding occ_def using e rq_remove_sub [of "d_ready d" i] heap_remove_id_sub [OF h, of i]
    by (intro subset_mset.add_mono) simp_all
  moreover have "exec_ids (cancel_by_id i d) = exec_ids d"
  proof (cases "map_of (d_executing d) i")
    case None
    then show ?thesis using e by (simp add: exec_ids_def)
  next
    case (Some c)
    then have "i \<in> fst ` set (d_executing d)" by (force dest: map_of_SomeD)
    then show ?thesis using e Some by (auto simp: exec_ids_def update_keys)
  qed
  ultimately show ?thesis by (simp add: moved_def)
qed

lemma fold_cancel_moved: "disp_ok b d \<Longrightarrow> moved {#} d (fold cancel_by_id is d)"
proof (induction "is" arbitrary: d)
  case Nil
  then show ?case by (simp add: moved_refl)
next
  case (Cons i "is")
  have "moved {#} (cancel_by_id i d) (fold cancel_by_id is (cancel_by_id i d))"
    by (rule Cons.IH [OF cancel_by_id_ok [OF Cons.prems]])
  then show ?case using moved_step [OF cancel_by_id_moved [OF Cons.prems]] by simp
qed

lemma cancel_moved: "disp_ok b d \<Longrightarrow> cancel jid d = (d', e) \<Longrightarrow> moved {#} d d'"
  using cancel_by_id_moved moved_refl by (auto simp: cancel_def split: sum.splits if_splits)

lemma apply_conflict_moved:
  assumes "disp_ok b d" "apply_conflict j d = (d', r)"
  shows "moved {#} d d'"
proof -
  have f: "moved {#} d (fold cancel_by_id is (d\<lparr>d_in_flight := add_in_flight f (job_name j) (job_id j)\<rparr>))"
    if "cfg_conflict (d_cfg d) \<noteq> ConflictAllow" "flight_fits (d_cfg d) f" for "is" f
  proof (rule moved_step [OF _ fold_cancel_moved])
    show "disp_ok b (d\<lparr>d_in_flight := add_in_flight f (job_name j) (job_id j)\<rparr>)"
      using assms(1) that flight_fits_add [of "d_cfg d" f] by (simp add: disp_ok_def)
  qed (rule moved_same; simp)
  have l: "moved {#} x (log_replaced j (metric_replaced n x))" "moved {#} x (log_skipped j (metric_skipped n x))"
    for n and x :: "'a disp" by (rule moved_same; simp add: disp_simps)+
  have a: "moved {#} d (d\<lparr>d_in_flight := g\<rparr>)" for g by (rule moved_same) simp_all
  have "flight_fits (d_cfg d) (d_in_flight d)" using assms(1) by (simp add: disp_ok_def)
  then show ?thesis using assms(2) f moved_step [OF f l(1)] l(2) moved_refl a
    by (auto simp: apply_conflict_def Let_def flight_fits_clear split: if_splits)
qed

lemma submit_push_moved:
  assumes "submit_push ctx j d = (d', r)"
  shows "moved (case r of Ok u \<Rightarrow> {#j#} | _ \<Rightarrow> {#}) d d'"
proof -
  obtain d1 r1 where e: "enqueue_ready ctx j d = (d1, r1)" by fastforce
  note f = enqueue_effect [OF e]
  have x: "d_executing d1 = d_executing d"
    using e by (auto simp: enqueue_ready_def disp_simps split: prod.splits outcome.splits if_splits)
  have rel: "moved {#} y (release_job n i (store_delete i y))" for n i and y :: "'a disp"
    by (rule moved_same) (simp_all add: disp_simps)
  show ?thesis
  proof (cases r1)
    case (Ok u)
    then have "d' = submit_accepted j d1" "r = Ok (job_id j)" using assms e by (simp_all add: submit_push_def)
    then show ?thesis using f x Ok by (simp add: moved_def occ_def exec_ids_def submit_accepted_def disp_simps)
  next
    case (Err err)
    then have "moved {#} d d1" by (intro moved_same) (use f x in simp_all)
    from moved_step [OF this rel] show ?thesis using assms e Err by (auto simp: submit_push_def)
  qed (use assms e f x moved_same [of d1 d] in \<open>auto simp: submit_push_def\<close>)
qed

lemma persist_moved: "persist j d = (d', r) \<Longrightarrow> moved {#} d d'"
  using persist_frame [of j d d' r] moved_same [of d' d] by auto

lemma release_moved: "moved {#} d (release_job n i d)"
  by (rule moved_same) (simp_all add: disp_simps)

lemma submit_now_moved:
  assumes "submit_now ctx j d = (d', r)"
  shows "moved (case r of Ok u \<Rightarrow> {#j#} | _ \<Rightarrow> {#}) d d'"
proof -
  obtain d1 e where p: "persist j d = (d1, e)" by fastforce
  show ?thesis
    using assms p moved_step [OF persist_moved [OF p]] submit_push_moved [of ctx j d1 d' r] release_moved [of d1]
    by (cases e) (auto simp: submit_now_def)
qed

lemma submit_later_moved:
  assumes "submit_later j d = (d', r)"
  shows "moved (case r of Ok u \<Rightarrow> {#j#} | _ \<Rightarrow> {#}) d d'"
proof -
  obtain d1 e where p: "persist j d = (d1, e)" by fastforce
  have "moved {#j#} d1 (log_submit j (set_status (job_id j) StatusDelayed (push_delayed j d1)))"
    by (simp add: moved_def occ_def exec_ids_def disp_simps push_delayed_def mset_heap_push)
  then show ?thesis
    using assms p moved_step [OF persist_moved [OF p]] release_moved [of d1]
    by (cases e) (auto simp: submit_later_def)
qed

lemma submit_entry_moved:
  assumes "disp_ok b d" "submit_entry ctx j d = (d', r)"
  shows "moved (case r of Ok u \<Rightarrow> {#j#} | _ \<Rightarrow> {#}) d d'"
proof -
  obtain d1 c where ac: "apply_conflict j d = (d1, c)" by fastforce
  let ?d2 = "d1\<lparr>d_job_names := (d_job_names d1)(job_id j \<mapsto> job_name j)\<rparr>"
  obtain t d3 where cl: "clock_read ?d2 = (t, d3)" by fastforce
  note m1 = apply_conflict_moved [OF assms(1) ac]
  have m2: "moved {#} d ?d2" by (rule moved_step [OF m1 moved_same]) simp_all
  have m3: "moved {#} d d3" by (rule moved_step [OF m2 moved_same]) (simp_all add: clock_read_frame(2) [OF cl])
  show ?thesis
    using assms(2) ac cl m1 moved_step [OF m2 release_moved] moved_step [OF m2 submit_now_moved]
      moved_step [OF m3 submit_now_moved] moved_step [OF m3 submit_later_moved]
    by (cases c) (auto simp: submit_entry_def Let_def split: if_splits)
qed

lemma persist_draws: "persist j d = (d', r) \<Longrightarrow> d_draws d' = d_draws d"
  using persist_frame [of j d d' r] by auto

lemma submit_push_draws: "submit_push ctx j d = (d', r) \<Longrightarrow> d_draws d' = d_draws d"
  by (auto simp: submit_push_def enqueue_ready_def submit_accepted_def disp_simps
      split: prod.splits outcome.splits if_splits)

lemma cancel_by_id_draws [disp_simps]: "d_draws (cancel_by_id i d) = d_draws d"
  by (auto simp: cancel_by_id_def Let_def disp_simps call_cancel_def split: option.splits)

lemma fold_cancel_draws: "d_draws (fold cancel_by_id is d) = d_draws d"
  by (induction "is" arbitrary: d) (simp_all add: disp_simps)

lemma submit_entry_draws:
  assumes "submit_entry ctx j d = (d', r)"
  shows "d_draws d \<le> d_draws d'"
proof -
  obtain d1 c where ac: "apply_conflict j d = (d1, c)" by fastforce
  let ?d2 = "d1\<lparr>d_job_names := (d_job_names d1)(job_id j \<mapsto> job_name j)\<rparr>"
  obtain t d3 where cl: "clock_read ?d2 = (t, d3)" by fastforce
  have d1: "d_draws d1 = d_draws d"
    using ac by (auto simp: apply_conflict_def Let_def disp_simps fold_cancel_draws split: if_splits)
  have d3: "d_draws d3 = d_draws d" using clock_read_frame(2) [OF cl] d1 by simp
  have now: "d_draws x' = d_draws x" if "submit_now ctx j x = (x', y)" for x x' y
    using that persist_draws submit_push_draws by (fastforce simp: submit_now_def disp_simps split: prod.splits option.splits)
  have later: "d_draws x' = d_draws x" if "submit_later j x = (x', y)" for x x' y
    using that persist_draws by (fastforce simp: submit_later_def disp_simps push_delayed_def split: prod.splits option.splits)
  show ?thesis
    using assms ac cl d1 d3 now [of ?d2] now [of d3] later [of d3]
    by (cases c) (auto simp: submit_entry_def Let_def disp_simps split: if_splits)
qed

text \<open>A submission draws one identifier and puts its job into at most one place.\<close>

lemma submit_moved:
  assumes "disp_ok b d" "submit_with_options rand ctx name payload opts d = (d', r)"
  shows "case built_job rand name payload opts d of
      None \<Rightarrow> moved {#} d d' \<and> r \<noteq> NoReturn
    | Some j \<Rightarrow> moved (case r of Ok u \<Rightarrow> {#j#} | _ \<Rightarrow> {#}) d d' \<and>
        rand (d_draws d) = Inr (job_id j) \<and> Suc (d_draws d) \<le> d_draws d'"
proof (cases "apply_opts opts empty_spec")
  case (Inl e)
  then show ?thesis using assms by (auto simp: submit_with_options_def built_job_def moved_refl)
next
  case (Inr spec)
  obtain d1 x where b: "build_entry rand name payload spec d = (d1, x)" by fastforce
  have m: "moved {#} d d1"
    by (rule moved_same; use b in \<open>auto simp: build_entry_def new_job_id_def clock_read_def
      split: option.splits if_splits sum.splits\<close>)
  show ?thesis
  proof (cases x)
    case (Inl e)
    then show ?thesis using assms Inr b m by (auto simp: submit_with_options_def built_job_def)
  next
    case x: (Inr j)
    have e: "submit_entry ctx j d1 = (d', r)" using assms(2) Inr b x by (simp add: submit_with_options_def)
    have d1: "disp_ok b d1" using build_entry_ok [OF assms(1) b] by simp
    have dr: "rand (d_draws d) = Inr (job_id j) \<and> d_draws d1 = Suc (d_draws d)"
      using b x by (auto simp: build_entry_def new_job_id_def clock_read_def split: option.splits if_splits sum.splits)
    have "d_draws d1 \<le> d_draws d'" by (rule submit_entry_draws [OF e])
    then show ?thesis using Inr b x dr moved_step [OF m submit_entry_moved [OF d1 e]] by (simp add: built_job_def)
  qed
qed

section \<open>The delay loop\<close>

definition held_mset :: "job option \<Rightarrow> job multiset" where
  "held_mset h = (case h of None \<Rightarrow> {#} | Some j \<Rightarrow> {#j#})"

definition held_moved :: "job multiset \<Rightarrow> 's disp \<Rightarrow> 's disp \<times> job option \<Rightarrow> bool" where
  "held_moved a d p \<longleftrightarrow> occ (fst p) + held_mset (snd p) \<subseteq># occ d + a \<and> exec_ids d \<subseteq> exec_ids (fst p)"

lemma held_moved_step: "moved a d d1 \<Longrightarrow> held_moved {#} d1 p \<Longrightarrow> held_moved a d p"
  unfolding moved_def held_moved_def by (auto intro: subset_mset.order_trans)

lemma pop_occ:
  assumes "disp_ok b d" "d_delay d \<noteq> []"
  shows "mset (d_delay d) = add_mset (snd (heap_pop (d_delay d))) (mset (fst (heap_pop (d_delay d))))"
proof -
  have "is_heap (d_delay d)" using assms(1) by (simp add: disp_ok_def delay_fits_def)
  from heap_pop_spec [OF this assms(2)] show ?thesis by simp
qed

lemma due_push_moved:
  assumes "rq_push None (d_ready d) j False = (q', r)"
  shows "moved {#j#} d (metric_queued (job_name j) 1 (set_status (job_id j) StatusQueued (d\<lparr>d_ready := q'\<rparr>)))"
  using rq_push_items [OF assms] by (simp add: moved_def occ_def exec_ids_def disp_simps)

lemma pop_due_moved_from:
  assumes "disp_ok b d" "moved {#} d0 d"
  shows "held_moved {#} d0 (pop_due now d)"
proof -
  have "disp_ok b d \<and> moved {#} d0 d" using assms by simp
  then show ?thesis
  proof (induction rule: pop_due_rule)
    case (over x)
    then show ?case by (simp add: held_moved_def held_mset_def moved_def)
  next
    case (cancelled x h j)
    then have "moved {#} x (release_job (job_name j) (job_id j) (set_status (job_id j) StatusCancelled (x\<lparr>d_delay := h\<rparr>)))"
      using pop_occ [of b x] by (auto simp: moved_def occ_def exec_ids_def disp_simps)
    then show ?case using cancelled due_cancelled_ok moved_step by blast
  next
    case (pushed x h j q r)
    have "occ x = add_mset j (occ (x\<lparr>d_delay := h\<rparr>))" "exec_ids (x\<lparr>d_delay := h\<rparr>) = exec_ids x"
      using pushed pop_occ [of b x] by (auto simp: occ_def exec_ids_def)
    then have "moved {#} x (metric_queued (job_name j) 1 (set_status (job_id j) StatusQueued (x\<lparr>d_delay := h, d_ready := q\<rparr>)))"
      using due_push_moved [of "x\<lparr>d_delay := h\<rparr>" j q r] pushed by (simp add: moved_def)
    then show ?case using pushed due_pushed_ok moved_step by blast
  next
    case (held x h j q)
    then have "rq_items q = rq_items (d_ready x)" "mset (d_delay x) = add_mset j (mset h)"
      using rq_push_items pop_occ [of b x] by fastforce+
    then show ?case using held by (auto simp: held_moved_def held_mset_def moved_def occ_def exec_ids_def)
  qed
qed

lemma pop_due_moved: "disp_ok b d \<Longrightarrow> held_moved {#} d (pop_due now d)"
  by (rule pop_due_moved_from [OF _ moved_refl])

lemma pop_due_resume_moved:
  assumes "disp_ok b d" "good_job j"
  shows "held_moved {#j#} d (pop_due_resume now j d)"
proof -
  obtain q' r where p: "rq_push None (d_ready d) j False = (q', r)" by fastforce
  have ok: "disp_ok b (d\<lparr>d_ready := q'\<rparr>)" by (rule set_ready_ok [OF assms p])
  show ?thesis
  proof (cases "r = NoReturn")
    case True
    then show ?thesis using p rq_push_items [OF p]
      by (simp add: pop_due_resume_def held_moved_def held_mset_def occ_def exec_ids_def)
  next
    case False
    have "disp_ok b (metric_queued (job_name j) 1 (set_status (job_id j) StatusQueued (d\<lparr>d_ready := q'\<rparr>)))"
      using ok by (simp add: metrics_ok set_status_disp_ok)
    from held_moved_step [OF due_push_moved [OF p] pop_due_moved [OF this, of now]] False p
    show ?thesis by (simp add: pop_due_resume_def Let_def)
  qed
qed

lemma drain_delayed_exec: "d_executing (drain_delayed d) = d_executing d"
proof -
  have "d_executing d = d_executing d" ..
  then show ?thesis by (induction rule: drain_rule) (simp add: disp_simps)
qed

lemma drain_delayed_moved: "moved {#} d (drain_delayed d)"
  using drain_run [of d] drain_delayed_exec [of d] by (auto simp: moved_def occ_def exec_ids_def)

lemma popped_moved: "held_moved a d p \<Longrightarrow> popped now p = (d', r) \<Longrightarrow> held_moved a d (d', loop_holds r)"
  by (auto simp: popped_def held_moved_def split: option.splits)

lemma delay_turn_moved:
  assumes "disp_ok b d" "delay_turn wk d = Some (d', r)"
  shows "held_moved {#} d (d', loop_holds r)"
proof (cases wk)
  case (TimerFired now)
  then have "popped now (pop_due now d) = (d', r)" using assms(2) by (auto simp: delay_turn_def split: if_splits)
  then show ?thesis by (rule popped_moved [OF pop_due_moved [OF assms(1)]])
next
  case Signalled
  then have "d' = d\<lparr>d_signal := False\<rparr>" "r = LoopAgain" using assms(2) by (auto simp: delay_turn_def split: if_splits)
  then show ?thesis by (simp add: held_moved_def held_mset_def occ_def exec_ids_def)
next
  case StopClosed
  then have "d' = drain_delayed d" "r = LoopExit" using assms(2) by (auto simp: delay_turn_def split: if_splits)
  then show ?thesis using drain_delayed_moved [of d] by (simp add: moved_def held_moved_def held_mset_def)
qed

section \<open>Workers\<close>

lemma run_begin_moved:
  assumes "run_begin j d = (d', r)"
  shows "occ d' = occ d \<and> exec_ids d - {job_id j} \<subseteq> exec_ids d' \<and>
    (r \<noteq> None \<longrightarrow> insert (job_id j) (exec_ids d) \<subseteq> exec_ids d')"
proof (cases "is_cancelled (job_id j) d")
  case True
  then show ?thesis using assms
    by (auto simp: run_begin_def Let_def is_cancelled_def disp_simps occ_def exec_ids_def)
next
  case nc: False
  have del: "fst ` set (AList.delete k (AList.update k v al)) = fst ` set al - {k}" for k v and al :: "(string \<times> bool) list"
    by (simp add: in_delete_fst update_keys)
  show ?thesis
  proof (cases "d_handlers d (job_name j)")
    case None
    then show ?thesis using assms nc
      by (force simp: run_begin_def Let_def is_cancelled_def disp_simps occ_def exec_ids_def del)
  next
    case (Some h)
    then show ?thesis using assms nc
      by (force simp: run_begin_def Let_def is_cancelled_def disp_simps occ_def exec_ids_def clock_read_def update_keys
          split: if_splits)
  qed
qed

lemma run_end_executing:
  assumes "run_end j start res d = (d', r)"
  shows "d_executing d' = AList.delete (job_id j) (d_executing d)"
proof -
  have retry: "d_executing x' = d_executing x" if "schedule_retry j e x = (x', y)" for e x x' y
    using that by (auto simp: schedule_retry_def clock_read_def Let_def disp_simps push_delayed_def split: if_splits option.splits)
  have verdict: "d_executing x' = d_executing x" if "run_verdict j start err x = (x', y)" for err x x' y
    using that retry
    by (auto simp: run_verdict_def clock_read_def disp_simps split: if_splits option.splits)
  show ?thesis
  proof (cases res)
    case (Returned e)
    then show ?thesis using assms
      by (auto simp: run_end_def Let_def disp_simps split: prod.splits if_splits dest!: verdict)
  next
    case (Panicked n)
    then show ?thesis using assms by (auto simp: run_end_def Let_def disp_simps split: prod.splits dest!: verdict)
  qed
qed

lemma run_end_moved:
  assumes "run_end j start res d = (d', r)" "good_job j"
  shows "(occ d' = occ d \<or>
      (\<exists>now. occ d' = add_mset (retry_job j now) (occ d) \<and> job_attempt j < job_max_retries j)) \<and>
    exec_ids d - {job_id j} \<subseteq> exec_ids d'"
proof -
  have a: "0 \<le> job_attempt j" using assms(2) by (simp add: good_job_def)
  have "will_retry j" if "end_status (is_cancelled (job_id j) d) j res = StatusDelayed"
    using that by (simp add: end_status_def split: if_splits)
  then have "occ d' = occ d \<or> (\<exists>now. occ d' = add_mset (retry_job j now) (occ d) \<and> job_attempt j < job_max_retries j)"
    using run_end_effect [OF assms(1) a] by (auto simp: occ_def mset_heap_push will_retry_def)
  moreover have "d_executing d' = AList.delete (job_id j) (d_executing d)"
    by (rule run_end_executing [OF assms(1)])
  ultimately show ?thesis by (auto simp: exec_ids_def in_delete_fst)
qed

lemma run_begin_draws:
  assumes "run_begin j d = (d', r)"
  shows "d_draws d' = d_draws d"
  using assms by (cases "d_handlers d (job_name j)")
    (auto simp: run_begin_def Let_def is_cancelled_def run_cleanup_def clock_read_def disp_simps split: if_splits)

lemma run_end_draws:
  assumes "run_end j start res d = (d', r)"
  shows "d_draws d' = d_draws d"
proof -
  have retry: "d_draws x' = d_draws x" if "schedule_retry j e x = (x', y)" for e x x' y
    using that by (auto simp: schedule_retry_def clock_read_def Let_def disp_simps push_delayed_def split: if_splits option.splits)
  have verdict: "d_draws x' = d_draws x" if "run_verdict j start err x = (x', y)" for err x x' y
    using that retry by (auto simp: run_verdict_def clock_read_def disp_simps split: if_splits option.splits)
  show ?thesis
    using assms by (cases res) (auto simp: run_end_def run_cleanup_def Let_def disp_simps split: prod.splits if_splits dest!: verdict)
qed

text \<open>A job that is built is new.\<close>

lemma built_job_first: "built_job rand name payload opts d = Some j \<Longrightarrow> job_attempt j = 0"
  by (auto simp: built_job_def build_entry_def Let_def split: sum.splits prod.splits option.splits if_splits)

end
