(* ===== verification/Job_Once.thy ===== *)
theory Job_Once
  imports Job_Moves
begin

text \<open>
  A dispatcher without a store refines the abstract job system: each of its steps is one of the steps
  lose, enter, start, finish and again. So a job is in one place at a time and each attempt of it is started
  at most once, in order. (\<open>Restore\<close> can bring back a job that is still there, which a dispatcher
  without a store never does.)
\<close>

section \<open>The job system of a dispatcher\<close>

definition jobs_of :: "'s world \<Rightarrow> job_system" where
  "jobs_of w = \<lparr>
     sys_resting = occ (w_disp w) + held_mset (delay_holds (w_delay w)) + mset (w_waiting w),
     sys_running = mset (map fst (w_active w)),
     sys_starts = (\<lambda>i a. gauge (start_delta i a) (w_disp w)),
     sys_draws = d_draws (w_disp w)\<rparr>"

text \<open>Every running handler has its cancel function registered.\<close>

definition exec_ok :: "'s world \<Rightarrow> bool" where
  "exec_ok w \<longleftrightarrow> job_id ` fst ` set (w_active w) \<subseteq> exec_ids (w_disp w)"

lemma mset_remove_nth: "i < length xs \<Longrightarrow> mset xs = add_mset (xs ! i) (mset (remove_nth i xs))"
  unfolding remove_nth_def by (subst id_take_nth_drop) simp_all

lemma mset_sub_add: "a \<subseteq># b \<Longrightarrow> a \<subseteq># add_mset x b"
  by (metis add_mset_add_single mset_subset_eq_add_left subset_mset.order_trans)

lemma starts_still:
  assumes "starts_follow w w'" "length (w_active w') \<le> length (w_active w)"
  shows "gauge (start_delta i a) (w_disp w') = gauge (start_delta i a) (w_disp w)"
  using assms by (auto simp: starts_follow_def)

text \<open>A step that starts and ends no handler.\<close>

lemma lose_step:
  assumes "world_step rand w w'" "world_ok b w" "w_active w' = w_active w"
    and "sys_resting (jobs_of w') \<subseteq># sys_resting (jobs_of w)"
  shows "system_step rand (jobs_of w) (jobs_of w')"
proof -
  have "world_ok (w_disp w) w'" using world_step_ok [OF assms(1)] world_ok_refl [OF assms(2)] by blast
  then have "sys_draws (jobs_of w) \<le> sys_draws (jobs_of w')" by (simp add: world_ok_def disp_ok_def jobs_of_def)
  from system_step.lose [OF assms(4) this, of rand]
  show ?thesis using starts_still [of w w'] world_step_gauges [OF assms(1)] assms(3) by (simp add: jobs_of_def)
qed

lemma enter_step:
  assumes "world_step rand w w'" "w_active w' = w_active w" "good_job j" "job_attempt j = 0"
    and "sys_resting (jobs_of w') \<subseteq># add_mset j (sys_resting (jobs_of w))"
    and "rand (d_draws (w_disp w)) = Inr (job_id j)" "d_draws (w_disp w) < d_draws (w_disp w')"
  shows "system_step rand (jobs_of w) (jobs_of w')"
proof -
  have "rand (sys_draws (jobs_of w)) = Inr (job_id j)" "sys_draws (jobs_of w) < sys_draws (jobs_of w')"
    using assms(6,7) by (simp_all add: jobs_of_def)
  from system_step.enter [where j = j and s = "jobs_of w" and rand = rand, OF assms(5,3,4) this]
  show ?thesis using starts_still [of w w'] world_step_gauges [OF assms(1)] assms(2) by (simp add: jobs_of_def)
qed

lemma start_step:
  assumes "rq_pop (d_ready (w_disp w)) = (q', Ok (Some j))" "run_begin j ((w_disp w)\<lparr>d_ready := q'\<rparr>) = (d', Some x)"
    and "w' = w\<lparr>w_disp := d', w_active := w_active w @ [(j, start)]\<rparr>"
  shows "system_step rand (jobs_of w) (jobs_of w')"
proof -
  have "occ (w_disp w) = add_mset j (occ d')"
    using run_begin_moved [OF assms(2)] rq_pop_items [OF assms(1)] by (simp add: occ_def)
  then have "sys_resting (jobs_of w) = add_mset j (sys_resting (jobs_of w'))" by (simp add: jobs_of_def assms(3))
  moreover have "sys_starts (jobs_of w') = one_more j (sys_starts (jobs_of w))"
    using run_begin_starts [OF assms(2)]
    by (simp add: jobs_of_def assms(3) fun_eq_iff one_more_def beat_def disp_simps)
  moreover have "d_draws d' = d_draws (w_disp w)" using run_begin_draws [OF assms(2)] by simp
  ultimately show ?thesis using system_step.start [of "jobs_of w" j _ rand] by (simp add: jobs_of_def assms(3))
qed

lemma end_step:
  assumes "world_step rand w w'" "i < length (w_active w)" "w_active w ! i = (j, start)" "good_job j"
    and "run_end j start res (w_disp w) = (d', r)"
    and "w' = w\<lparr>w_disp := d', w_active := remove_nth i (w_active w), w_crashed := c\<rparr>"
  shows "system_step rand (jobs_of w) (jobs_of w')"
proof -
  have A: "sys_running (jobs_of w) = add_mset j (sys_running (jobs_of w'))"
    using mset_remove_nth [OF assms(2)] assms(3) by (simp add: jobs_of_def assms(6))
  have same: "sys_starts (jobs_of w') = sys_starts (jobs_of w)" "sys_draws (jobs_of w') = sys_draws (jobs_of w)"
    using starts_still [of w w'] world_step_gauges [OF assms(1)] run_end_draws [OF assms(5)]
    by (simp_all add: jobs_of_def assms(6) length_remove_nth)
  from run_end_moved [OF assms(5,4)] consider "occ d' = occ (w_disp w)"
    | now where "occ d' = add_mset (retry_job j now) (occ (w_disp w))" "job_attempt j < job_max_retries j" by blast
  then show ?thesis
  proof cases
    case 1
    from system_step.finish [OF A, of rand] show ?thesis using 1 same by (simp add: jobs_of_def assms(6))
  next
    case 2
    have "good_job (retry_job j now)" by (rule good_retry [OF assms(4) 2(2)])
    moreover have "job_attempt (retry_job j now) = job_attempt j + 1"
      using assms(4) 2(2) by (simp add: retry_job_def good_job_def wrap64_def)
    ultimately show ?thesis
      using system_step.again [OF A, of "retry_job j now" rand] 2 same by (simp add: jobs_of_def assms(6) retry_job_def)
  qed
qed

lemma mset_context:
  assumes "a \<subseteq># b + c" "c + e \<subseteq># f"
  shows "a + x + y + (z + e) \<subseteq># b + x + y + z + f"
proof -
  have "a + (x + y + z + e) \<subseteq># (b + c) + (x + y + z + e)" using assms(1) by (rule subset_mset.add_right_mono)
  also have "\<dots> = (b + x + y + z) + (c + e)" by (simp add: ac_simps)
  also have "\<dots> \<subseteq># (b + x + y + z) + f" using assms(2) by (rule subset_mset.add_left_mono)
  finally show ?thesis by (simp add: ac_simps)
qed

text \<open>Every step of a dispatcher without a store is a step of its job system.\<close>

lemma world_step_system:
  assumes "world_step rand w w'" "world_ok b w" "cfg_store (d_cfg b) = None"
  shows "system_step rand (jobs_of w) (jobs_of w')"
proof -
  have d: "disp_ok b (w_disp w)" and a: "list_all (good_job \<circ> fst) (w_active w)"
    using assms(2) by (simp_all add: world_ok_def)
  note lose = lose_step [OF assms(1,2)]
  note rest = jobs_of_def moved_def held_moved_def
  have keep: "system_step rand (jobs_of w) (jobs_of w')" if "moved {#} (w_disp w) (w_disp w')" "w_delay w' = w_delay w"
      "w_active w' = w_active w" "w_waiting w' = w_waiting w"
    by (rule lose) (use that in \<open>auto simp: rest subset_mset.add_mono\<close>)
  show ?thesis using assms(1)
  proof (cases rule: world_stepE)
    case (register name h d' e)
    then have "moved {#} (w_disp w) d'"
      by (intro moved_same) (auto simp: register_handler_def split: option.splits if_splits)
    then show ?thesis using keep register(1) by simp
  next
    case (submit opts ctx name payload d' r)
    note m = submit_moved [OF d submit(3)]
    show ?thesis
    proof (cases "built_job rand name payload opts (w_disp w)")
      case None
      then show ?thesis using m keep submit(1) by (simp split: outcome.splits)
    next
      case (Some j)
      let ?a = "case r of Ok u \<Rightarrow> {#j#} | _ \<Rightarrow> {#}" and ?b = "if r = NoReturn then {#j#} else {#}"
      have o: "occ d' \<subseteq># occ (w_disp w) + ?a" using m Some by (simp add: moved_def)
      have wt: "mset (w_waiting w') = mset (w_waiting w) + ?b" using submit(1) Some by (cases r) simp_all
      have one: "?a + ?b \<subseteq># {#j#}" by (cases r) simp_all
      have "sys_resting (jobs_of w') = occ d' + held_mset (delay_holds (w_delay w)) + {#} + (mset (w_waiting w) + ?b)"
        using submit(1) wt by (simp add: jobs_of_def)
      also have "\<dots> \<subseteq># occ (w_disp w) + held_mset (delay_holds (w_delay w)) + {#} + mset (w_waiting w) + {#j#}"
        by (rule mset_context [OF o one])
      finally have "sys_resting (jobs_of w') \<subseteq># add_mset j (sys_resting (jobs_of w))" by (simp add: jobs_of_def)
      then show ?thesis
        using enter_step [OF assms(1) _ built_job_good [OF submit(2) Some d] built_job_first [OF Some]] m Some submit(1)
        by simp
    qed
  next
    case (resume i ctx d' r)
    have "sys_resting (jobs_of w') \<subseteq># sys_resting (jobs_of w)"
      using resume(1) submit_push_moved [OF resume(3)] mset_remove_nth [OF resume(2)]
      by (cases r) (auto simp: rest mset_sub_add)
    then show ?thesis using lose resume(1) by simp
  next
    case (cancel jid d' e)
    then show ?thesis using keep cancel_moved [OF d cancel(2)] by simp
  next
    case (restore ops s' l)
    have "cfg_store (d_cfg (w_disp w)) = None" using d assms(3) by (simp add: disp_ok_def)
    then show ?thesis using restore(2) by simp
  next
    case (restore_next i waited j js ctx d' r)
    have "w_restores w = []" using assms(2,3) by (simp add: world_ok_def)
    then show ?thesis using restore_next(2) by simp
  next
    case (delay wk d' r)
    then show ?thesis using lose delay_turn_moved [OF d delay(3)] by (auto simp: rest held_mset_def)
  next
    case (delay_resume j now d' r)
    have "good_job j" using assms(2) delay_resume(2) by (auto simp: world_ok_def)
    note m = popped_moved [OF pop_due_resume_moved [OF d this] delay_resume(3)]
    show ?thesis using lose delay_resume(1,2) m by (auto simp: rest held_mset_def)
  next
    case (worker_take q' j d' r)
    show ?thesis
    proof (cases r)
      case None
      have "occ d' \<subseteq># occ (w_disp w)"
        using run_begin_moved [OF worker_take(4)] rq_pop_items [OF worker_take(3)] by (simp add: occ_def mset_sub_add)
      then show ?thesis using lose worker_take(1) None by (simp add: jobs_of_def)
    next
      case (Some x)
      then show ?thesis using start_step [OF worker_take(3)] worker_take(1,4) by (cases x) auto
    qed
  next
    case (handler_end i j start res d' r)
    have "good_job j" using a handler_end(2,3) by (metis comp_apply fst_conv list_all_length)
    then show ?thesis by (rule end_step [OF assms(1) handler_end(2,3) _ handler_end(4,1)])
  next
    case shut
    then show ?thesis using keep [OF moved_same] by (simp add: shutdown_begin_def Let_def rq_close_def rq_signal_def)
  next
    case (shut_timeout c d' e)
    then have "moved {#} (w_disp w) d'" by (force simp: wait_workers_def moved_def occ_def exec_ids_def image_image split_def)
    then show ?thesis using keep shut_timeout(1) by simp
  next
    case (draw d' r)
    then have "moved {#} (w_disp w) d'" by (intro moved_same) (auto simp: new_job_id_def)
    then show ?thesis using keep draw(1) by simp
  qed
qed

definition no_store_ok :: "'s world \<Rightarrow> bool" where
  "no_store_ok w \<longleftrightarrow> world_ok (w_disp w) w \<and> cfg_store (d_cfg (w_disp w)) = None"

interpretation jobs: simulation "world_step rand" no_store_ok "system_step rand" jobs_of for rand
proof
  fix w w' :: "'a world"
  assume s: "world_step rand w w'" "no_store_ok w"
  then have ok: "world_ok (w_disp w) w" and no: "cfg_store (d_cfg (w_disp w)) = None" by (simp_all add: no_store_ok_def)
  have "world_ok (w_disp w) w'" by (rule world_step_ok [OF s(1) ok])
  moreover from this have "cfg_store (d_cfg (w_disp w')) = None" using no by (simp add: world_ok_def disp_ok_def)
  ultimately show "no_store_ok w'" using world_ok_refl by (auto simp: no_store_ok_def)
  show "(system_step rand)\<^sup>*\<^sup>* (jobs_of w) (jobs_of w')" using world_step_system [OF s(1) ok no] by blast
qed

lemma reach_no_store:
  assumes "world_reach rand time_now st opts w" "cfg_store (d_cfg (w_disp w)) = None"
  shows "\<exists>d. new_dispatcher time_now st opts = Inr d \<and> no_store_ok (start_world d) \<and> (world_step rand)\<^sup>*\<^sup>* (start_world d) w"
proof -
  obtain d where d: "set opts \<subseteq> known_options" "new_dispatcher time_now st opts = Inr d" "(world_step rand)\<^sup>*\<^sup>* (start_world d) w"
    using world_reach_run [OF assms(1)] by blast
  have ok: "world_ok d (start_world d)"
    using new_dispatcher_ok [OF d(1,2)] by (simp add: world_ok_def start_world_def)
  have "world_ok d w" by (rule world_steps_ok [OF d(3) ok])
  then have "cfg_store (d_cfg d) = None" using assms(2) by (simp add: world_ok_def disp_ok_def)
  then show ?thesis using d ok by (auto simp: no_store_ok_def start_world_def)
qed

lemma start_jobs:
  assumes "new_dispatcher time_now st opts = Inr d"
  shows "jobs_of (start_world d) = start_system"
proof -
  have "rq_items (d_ready d) = [] \<and> d_delay d = [] \<and> d_obs d = [] \<and> d_draws d = 0"
    using assms by (auto simp: new_dispatcher_def new_ready_queue_def Let_def split: sum.splits)
  then show ?thesis
    by (simp add: jobs_of_def start_system_def start_world_def occ_def held_mset_def gauge_def)
qed

lemma world_reach_system:
  assumes "world_reach rand time_now st opts w" "cfg_store (d_cfg (w_disp w)) = None"
  shows "(system_step rand)\<^sup>*\<^sup>* start_system (jobs_of w)"
proof -
  obtain d where "new_dispatcher time_now st opts = Inr d" "no_store_ok (start_world d)" "(world_step rand)\<^sup>*\<^sup>* (start_world d) w"
    using reach_no_store [OF assms] by blast
  then show ?thesis using jobs.run [of rand "start_world d" w] start_jobs by metis
qed

section \<open>The running handlers\<close>

lemma sys_id_once:
  assumes "system_ok rand s" "add_mset (job_id j) (image_mset job_id A) \<subseteq># sys_ids s" "k \<in># A"
  shows "job_id k \<noteq> job_id j"
proof
  assume "job_id k = job_id j"
  then have "job_id j \<in># image_mset job_id A" using assms(3) by force
  then have "Suc 0 < count (add_mset (job_id j) (image_mset job_id A)) (job_id j)" by simp
  also have "\<dots> \<le> count (sys_ids s) (job_id j)" by (rule mset_subset_eq_count [OF assms(2)])
  finally show False using system_okD(1) [OF assms(1), of "job_id j"] by simp
qed

lemma subset_without: "x \<notin> S \<Longrightarrow> E - {x} \<subseteq> E' \<Longrightarrow> S \<subseteq> E \<Longrightarrow> S \<subseteq> E'"
  by blast

lemma world_step_exec:
  assumes "world_step rand w w'" "world_ok b w" "cfg_store (d_cfg b) = None" "system_ok rand (jobs_of w)" "exec_ok w"
  shows "exec_ok w'"
proof -
  have d: "disp_ok b (w_disp w)" and a: "list_all (good_job \<circ> fst) (w_active w)"
    using assms(2) by (simp_all add: world_ok_def)
  have keep: "exec_ok w'" if "exec_ids (w_disp w) \<subseteq> exec_ids (w_disp w')" "w_active w' = w_active w"
    using assms(5) that by (auto simp: exec_ok_def)
  show ?thesis using assms(1)
  proof (cases rule: world_stepE)
    case (register name h d' e)
    then have "d_executing d' = d_executing (w_disp w)"
      by (auto simp: register_handler_def split: option.splits if_splits)
    then show ?thesis using keep register(1) by (simp add: exec_ids_def)
  next
    case (submit opts ctx name payload d' r)
    then show ?thesis using keep submit_moved [OF d submit(3)] by (auto simp: moved_def split: option.splits)
  next
    case (resume i ctx d' r)
    then show ?thesis using keep submit_push_moved [OF resume(3)] by (simp add: moved_def)
  next
    case (cancel jid d' e)
    then show ?thesis using keep cancel_moved [OF d cancel(2)] by (simp add: moved_def)
  next
    case (restore ops s' l)
    then show ?thesis using keep by (simp add: exec_ids_def)
  next
    case (restore_next i waited j js ctx d' r)
    then show ?thesis using assms(2,3) by (simp add: world_ok_def)
  next
    case (delay wk d' r)
    then show ?thesis using keep delay_turn_moved [OF d delay(3)] by (simp add: held_moved_def)
  next
    case (delay_resume j now d' r)
    have "good_job j" using assms(2) delay_resume(2) by (auto simp: world_ok_def)
    from popped_moved [OF pop_due_resume_moved [OF d this] delay_resume(3)]
    show ?thesis using keep delay_resume(1) by (simp add: held_moved_def)
  next
    case (worker_take q' j d' r)
    note m = run_begin_moved [OF worker_take(4)]
    have e0: "exec_ids ((w_disp w)\<lparr>d_ready := q'\<rparr>) = exec_ids (w_disp w)" by (simp add: exec_ids_def)
    show ?thesis
    proof (cases r)
      case None
      have "add_mset (job_id j) (image_mset job_id (mset (map fst (w_active w)))) \<subseteq># sys_ids (jobs_of w)"
        using rq_pop_items [OF worker_take(3)] by (simp add: jobs_of_def sys_ids_def occ_def)
      then have "job_id j \<notin> job_id ` fst ` set (w_active w)" using sys_id_once [OF assms(4)] by fastforce
      moreover have "exec_ids (w_disp w) - {job_id j} \<subseteq> exec_ids d'" using m e0 by simp
      ultimately have "job_id ` fst ` set (w_active w) \<subseteq> exec_ids d'"
        using assms(5) unfolding exec_ok_def by (rule subset_without)
      then show ?thesis using worker_take(1) None by (simp add: exec_ok_def)
    next
      case (Some x)
      then show ?thesis using worker_take(1) m e0 assms(5) by (cases x) (auto simp: exec_ok_def)
    qed
  next
    case (handler_end i j start res d' r)
    have j: "good_job j" using a handler_end(2,3) by (metis comp_apply fst_conv list_all_length)
    have ids: "job_id ` fst ` set (w_active w) = insert (job_id j) (job_id ` fst ` set (remove_nth i (w_active w)))"
      using mset_remove_nth [OF handler_end(2)] handler_end(3) by (metis set_mset_mset set_mset_add_mset_insert image_insert fst_conv)
    have "sys_running (jobs_of w) = add_mset j (mset (map fst (remove_nth i (w_active w))))"
      using mset_remove_nth [OF handler_end(2)] handler_end(3) by (simp add: jobs_of_def)
    then have "job_id j \<notin> job_id ` fst ` set (remove_nth i (w_active w))"
      using sys_id_once [OF assms(4), of j "mset (map fst (remove_nth i (w_active w)))"] by (force simp: sys_ids_def)
    moreover have "exec_ids (w_disp w) - {job_id j} \<subseteq> exec_ids d'" using run_end_moved [OF handler_end(4) j] by blast
    moreover have "job_id ` fst ` set (remove_nth i (w_active w)) \<subseteq> exec_ids (w_disp w)"
      using assms(5) ids by (simp add: exec_ok_def)
    ultimately have "job_id ` fst ` set (remove_nth i (w_active w)) \<subseteq> exec_ids d'" by (rule subset_without)
    then show ?thesis using handler_end(1) by (simp add: exec_ok_def)
  next
    case shut
    then show ?thesis using keep by (simp add: exec_ids_def shutdown_begin_def Let_def rq_close_def rq_signal_def split_def image_image)
  next
    case (shut_timeout c d' e)
    then have "exec_ids d' = exec_ids (w_disp w)" by (force simp: wait_workers_def exec_ids_def image_image split_def)
    then show ?thesis using keep shut_timeout(1) by simp
  next
    case (draw d' r)
    then show ?thesis using keep draw by (auto simp: exec_ids_def new_job_id_def)
  qed
qed

lemma world_system_ok:
  assumes "world_reach rand time_now st opts w" "distinct_draws rand" "cfg_store (d_cfg (w_disp w)) = None"
  shows "system_ok rand (jobs_of w)"
  by (rule system_reach_ok [OF world_reach_system [OF assms(1,3)] assms(2)])

lemma world_reach_exec:
  "world_reach rand time_now st opts w \<Longrightarrow> distinct_draws rand \<Longrightarrow> cfg_store (d_cfg (w_disp w)) = None \<Longrightarrow> exec_ok w"
proof (induction rule: world_reach.induct)
  case (start d)
  then show ?case by (simp add: exec_ok_def start_world_def)
next
  case (step w w')
  obtain b where b: "world_ok b w" using world_reach_ok [OF step(1)] by blast
  have "world_ok b w'" by (rule world_step_ok [OF step(2) b])
  then have c: "cfg_store (d_cfg b) = None" "cfg_store (d_cfg (w_disp w)) = None"
    using step(5) b by (simp_all add: world_ok_def disp_ok_def)
  show ?case
    by (rule world_step_exec [OF step(2) b c(1) world_system_ok [OF step(1,4) c(2)] step(3) [OF step(4) c(2)]])
qed

lemma distinct_mset_count: "\<forall>i. count (mset xs) i \<le> 1 \<Longrightarrow> distinct xs"
proof (induction xs)
  case (Cons x xs)
  have "count (mset xs) i \<le> 1" for i
  proof -
    have "count (mset xs) i \<le> count (mset (x # xs)) i" by simp
    also have "\<dots> \<le> 1" using Cons.prems by blast
    finally show ?thesis .
  qed
  moreover have "count (mset xs) x = 0" using Cons.prems [rule_format, of x] by simp
  ultimately show ?case using Cons.IH by simp
qed simp

lemma sample_no_store: "cfg_store (d_cfg (w_disp sample_w2)) = None"
proof -
  have "Option.is_none (cfg_store (d_cfg (w_disp sample_w2)))" by code_simp
  then show ?thesis by (simp add: Option.is_none_def)
qed

section \<open>Properties\<close>



end
