(* ===== verification/Attempts.thy ===== *)
theory Attempts
  imports Observability Job_Once
begin

text \<open>
  What the refinement of the abstract job system gives: the histories of a dispatcher without a store are
  histories of the system, and each attempt of a job is started at most once, in order.
\<close>

text \<open>The run of \<open>Observability\<close> while its handler runs.\<close>

definition watched_w4 :: "unit world" where
  "watched_w4 = (calm (fst watched_begun) DelayIdle)\<lparr>w_active := [(watched_job, 1001)]\<rparr>"

lemma watched_w4_reach: "world_reach sample_rand sample_clock () watched_options watched_w4"
  unfolding watched_w4_def by (rule watched_running)

lemma watched_no_store: "cfg_store (d_cfg (w_disp watched_w4)) = None"
proof -
  have "Option.is_none (cfg_store (d_cfg (fst watched_begun)))" by code_simp
  then show ?thesis by (simp add: Option.is_none_def watched_w4_def calm_def)
qed

lemma watched_first: "job_id watched_job = ''a''" "job_attempt watched_job = 0"
  by code_simp+

text \<open>
  C4: The dispatcher refines the abstract job system. Every history of a dispatcher without a store, whatever
  the calls, the wake-ups of the delay loop, the workers and the handlers do and in whatever order, is a
  history of the system in which jobs only enter with a fresh identifier, are lost, start, and finish with
  or without the next attempt.
\<close>
theorem dispatcher_refines_job_system:
  assumes "world_reach rand time_now st opts w" "cfg_store (d_cfg (w_disp w)) = None"
  shows "(system_step rand)\<^sup>*\<^sup>* start_system (jobs_of w)"
  using assms by (rule world_reach_system)

theorem dispatcher_refines_job_system_witness:
  "(system_step sample_rand)\<^sup>*\<^sup>* start_system (jobs_of watched_w4)"
  by (rule dispatcher_refines_job_system [OF watched_w4_reach watched_no_store])



end
