(* ===== verification/Scheduler.thy ===== *)
theory Scheduler
  imports Submit_Props Cron_Triggers Cron_Syntax
begin

text \<open>
  \<open>internal/core/scheduler.go\<close>: entries that submit a job at intervals, at the instants of a cron
  expression, or once. The entries are objects shared between the table of the scheduler and their
  goroutines, so they live in a store and the table holds references. A turn of a goroutine is one
  pass from one wait of its loop to the next.
\<close>

section \<open>State\<close>

text \<open>
  \<open>Every\<close>, \<open>Cron\<close> and \<open>OneShot\<close> start different goroutines. \<open>LoopNew\<close> is an entry in the table
  whose goroutine is not yet started and counted, \<open>LoopStart\<close> is before the timer is set,
  \<open>LoopWait\<close> in the \<open>select\<close> on the timer and the stop channel; \<open>LoopFiring\<close> a submission that waits
  for room in the ready queue.
\<close>

datatype loop_kind = EveryLoop duration | CronLoop expr | OneShotLoop time

datatype loop_state = LoopNew | LoopStart | LoopWait | LoopFiring | LoopEnded

text \<open>\<open>se_stop\<close> and \<open>se_done\<close>: whether the two channels of the entry are closed.\<close>

record sched_entry =
  se_id :: string
  se_name :: string
  se_next :: time
  se_stop :: bool
  se_done :: bool
  se_kind :: loop_kind
  se_state :: loop_state

datatype sched_log = LogSchedStopped string go_err | LogSchedNoNext string go_err

record 's sched =
  s_disp :: "'s disp"
  s_loc :: zone
  s_logger :: logger
  s_heap :: "sched_entry list"
  s_entries :: "(string \<times> nat) list"
  s_stopped :: bool
  s_log :: "sched_log list"

record schedule =
  sn_id :: string
  sn_name :: string
  sn_next :: time
  sn_bound :: bool

section \<open>Options and construction\<close>

record sched_config =
  sc_loc :: zone
  sc_logger :: logger

type_synonym sched_option = "sched_config \<Rightarrow> go_err + sched_config"

definition with_location :: "zone option \<Rightarrow> sched_option" where
  "with_location loc c =
     (case loc of None \<Rightarrow> Inl ErrInvalidConfig | Some z \<Rightarrow> Inr (c\<lparr>sc_loc := z\<rparr>))"

definition with_scheduler_logger :: "logger \<Rightarrow> sched_option" where
  "with_scheduler_logger l c = Inr (c\<lparr>sc_logger := l\<rparr>)"

text \<open>\<open>local\<close> is \<open>time.Local\<close>.\<close>

definition new_scheduler :: "zone \<Rightarrow> 's disp option \<Rightarrow> sched_option list \<Rightarrow> go_err + 's sched" where
  "new_scheduler loc dispatcher opts =
     (case dispatcher of
        None \<Rightarrow> Inl ErrInvalidConfig
      | Some d \<Rightarrow>
          (case apply_opts opts \<lparr>sc_loc = loc, sc_logger = NilLogger\<rparr> of
             Inl e \<Rightarrow> Inl e
           | Inr cfg \<Rightarrow>
               Inr \<lparr>s_disp = d, s_loc = sc_loc cfg, s_logger = normalize_logger (sc_logger cfg),
                 s_heap = [], s_entries = [], s_stopped = False, s_log = []\<rparr>))"

section \<open>Parts of the operations\<close>

definition check_handler :: "string \<Rightarrow> 's sched \<Rightarrow> go_err option" where
  "check_handler name s =
     (case validate_name name of
        Some e \<Rightarrow> Some e
      | None \<Rightarrow> if d_handlers (s_disp s) name = None then Some ErrHandlerNotFound else None)"

definition new_entry ::
  "(nat \<Rightarrow> go_err + string) \<Rightarrow> string \<Rightarrow> loop_kind \<Rightarrow> 's sched \<Rightarrow> 's sched \<times> (go_err + sched_entry)" where
  "new_entry rand name kind s =
     (case new_job_id rand (s_disp s) of
        (d, Inl e) \<Rightarrow> (s\<lparr>s_disp := d\<rparr>, Inl (Wrapped CodeIDGenerateFailed e))
      | (d, Inr eid) \<Rightarrow>
          (s\<lparr>s_disp := d\<rparr>,
           Inr \<lparr>se_id = eid, se_name = name, se_next = zero_time, se_stop = False, se_done = False,
             se_kind = kind, se_state = LoopNew\<rparr>))"

text \<open>\<open>register\<close> puts a reference to the entry into the table; the entry becomes an object of the store.\<close>

definition register :: "sched_entry \<Rightarrow> 's sched \<Rightarrow> 's sched \<times> go_err option" where
  "register e s =
     (if s_stopped s then (s, Some ErrSchedulerStopped)
      else (s\<lparr>s_entries := AList.update (se_id e) (length (s_heap s)) (s_entries s),
              s_heap := s_heap s @ [e]\<rparr>, None))"

definition next_time :: "sched_entry \<Rightarrow> time" where
  "next_time e = se_next e"

definition snapshot :: "sched_entry \<Rightarrow> schedule" where
  "snapshot e = \<lparr>sn_id = se_id e, sn_name = se_name e, sn_next = next_time e, sn_bound = True\<rparr>"

definition add_entry ::
  "(nat \<Rightarrow> go_err + string) \<Rightarrow> string \<Rightarrow> loop_kind \<Rightarrow> 's sched \<Rightarrow> 's sched \<times> (go_err, schedule) outcome" where
  "add_entry rand name kind s =
     (case check_handler name s of
        Some e \<Rightarrow> (s, Err e)
      | None \<Rightarrow>
          (case new_entry rand name kind s of
             (s1, Inl e) \<Rightarrow> (s1, Err e)
           | (s1, Inr e) \<Rightarrow>
               (case register e s1 of
                  (s2, Some err) \<Rightarrow> (s2, Err err)
                | (s2, None) \<Rightarrow> (s2, Ok (snapshot e)))))"

definition update_entry :: "nat \<Rightarrow> (sched_entry \<Rightarrow> sched_entry) \<Rightarrow> 's sched \<Rightarrow> 's sched" where
  "update_entry p f s = s\<lparr>s_heap := (s_heap s)[p := f (s_heap s ! p)]\<rparr>"

definition set_next :: "nat \<Rightarrow> time \<Rightarrow> 's sched \<Rightarrow> 's sched" where
  "set_next p t = update_entry p (\<lambda>e. e\<lparr>se_next := t\<rparr>)"

definition set_state :: "nat \<Rightarrow> loop_state \<Rightarrow> 's sched \<Rightarrow> 's sched" where
  "set_state p st = update_entry p (\<lambda>e. e\<lparr>se_state := st\<rparr>)"

section \<open>Registration\<close>

definition every :: "(nat \<Rightarrow> go_err + string) \<Rightarrow> duration \<Rightarrow> string \<Rightarrow> 's sched \<Rightarrow> 's sched \<times> (go_err, schedule) outcome" where
  "every rand interval name s =
     (if interval < second then (s, Err ErrJobInvalid) else add_entry rand name (EveryLoop interval) s)"

definition cron_schedule :: "(nat \<Rightarrow> go_err + string) \<Rightarrow> string \<Rightarrow> string \<Rightarrow> 's sched \<Rightarrow> 's sched \<times> (go_err, schedule) outcome" where
  "cron_schedule rand ex name s =
     (case parse ex of
        Err e \<Rightarrow> (s, Err (CronFailed e))
      | Panic \<Rightarrow> (s, Panic)
      | NoReturn \<Rightarrow> (s, NoReturn)
      | Ok e \<Rightarrow> add_entry rand name (CronLoop e) s)"

text \<open>
  \<open>OneShot\<close> sets \<open>next\<close> after the registration and before the snapshot; \<open>now\<close> is what \<open>time.Now\<close> gives.
\<close>

definition one_shot :: "(nat \<Rightarrow> go_err + string) \<Rightarrow> time \<Rightarrow> time \<Rightarrow> string \<Rightarrow> 's sched \<Rightarrow> 's sched \<times> (go_err, schedule) outcome" where
  "one_shot rand now at name s =
     (if \<not> now < at then (s, Err ErrJobInvalid)
      else
        (case add_entry rand name (OneShotLoop at) s of
           (s1, Ok sn) \<Rightarrow> (set_next (length (s_heap s1) - 1) at s1, Ok (sn\<lparr>sn_next := at\<rparr>))
         | (s1, r) \<Rightarrow> (s1, r)))"

definition minute_expr :: "int \<Rightarrow> string" where
  "minute_expr sec = show_int sec @ '' * * * * *''"

definition hour_expr :: "int \<Rightarrow> string" where
  "hour_expr mi = ''0 '' @ show_int mi @ '' * * * *''"

definition daily_expr :: "int \<Rightarrow> int \<Rightarrow> int \<Rightarrow> string" where
  "daily_expr h mi sec = show_int sec @ '' '' @ show_int mi @ '' '' @ show_int h @ '' * * *''"

definition weekly_expr :: "int \<Rightarrow> int \<Rightarrow> int \<Rightarrow> int \<Rightarrow> string" where
  "weekly_expr wd h mi sec =
     show_int sec @ '' '' @ show_int mi @ '' '' @ show_int h @ '' * * '' @ show_int wd"

definition every_minute_at where
  "every_minute_at rand sec name s = cron_schedule rand (minute_expr sec) name s"

definition every_hour_at where
  "every_hour_at rand mi name s = cron_schedule rand (hour_expr mi) name s"

definition daily_at where
  "daily_at rand h mi sec name s = cron_schedule rand (daily_expr h mi sec) name s"

definition weekly_at where
  "weekly_at rand wd h mi sec name s = cron_schedule rand (weekly_expr wd h mi sec) name s"

definition list_schedules :: "'s sched \<Rightarrow> schedule list" where
  "list_schedules s = map (\<lambda>(i, p). snapshot (s_heap s ! p)) (s_entries s)"

section \<open>The goroutines\<close>

definition remove_entry :: "string \<Rightarrow> 's sched \<Rightarrow> 's sched" where
  "remove_entry eid s = s\<lparr>s_entries := AList.delete eid (s_entries s)\<rparr>"

text \<open>The deferred calls: the entry leaves the table, then its \<open>done\<close> channel is closed.\<close>

definition loop_exit :: "nat \<Rightarrow> 's sched \<Rightarrow> 's sched" where
  "loop_exit p s =
     update_entry p (\<lambda>e. e\<lparr>se_done := True, se_state := LoopEnded\<rparr>) (remove_entry (se_id (s_heap s ! p)) s)"

text \<open>\<open>logWarn\<close>, the fields kept as the name and the error; a nil logger was replaced by one that drops.\<close>

definition log_warn :: "sched_log \<Rightarrow> 's sched \<Rightarrow> 's sched" where
  "log_warn l s = s\<lparr>s_log := s_log s @ [l]\<rparr>"

text \<open>\<open>fire\<close>: \<open>None\<close> is a submission that waits, otherwise whether the entry goes on.\<close>

definition fire_result :: "string \<Rightarrow> (go_err, string) outcome \<Rightarrow> 's sched \<Rightarrow> 's sched \<times> bool option" where
  "fire_result name r s =
     (case r of
        Ok jid \<Rightarrow> (s, Some True)
      | Err e \<Rightarrow> (log_warn (LogSchedStopped name e) s, Some False)
      | _ \<Rightarrow> (s, None))"

definition fire :: "(nat \<Rightarrow> go_err + string) \<Rightarrow> string \<Rightarrow> 's sched \<Rightarrow> 's sched \<times> bool option" where
  "fire rand name s =
     (case submit rand None name [] [] (s_disp s) of (d, r) \<Rightarrow> fire_result name r (s\<lparr>s_disp := d\<rparr>))"

text \<open>
  What can wake a goroutine: it is started, it sets its timer, the timer ends, or it sees its stop
  channel closed. When both can be taken, the \<open>select\<close> takes either.
\<close>

datatype loop_event = Spawn | Arm | TimerTick | StopSeen

text \<open>
  Setting the timer in the loop of \<open>Cron\<close>; a search for the next instant that does not end leaves the
  goroutine where it is.
\<close>

definition cron_arm :: "expr \<Rightarrow> nat \<Rightarrow> time \<Rightarrow> 's sched \<Rightarrow> 's sched" where
  "cron_arm e p now s =
     (case cron_next e (s_loc s) now of
        None \<Rightarrow> s
      | Some (Inl err) \<Rightarrow>
          loop_exit p (log_warn (LogSchedNoNext (se_name (s_heap s ! p)) (CronFailed err)) s)
      | Some (Inr t) \<Rightarrow> set_state p LoopWait (set_next p t s))"

text \<open>What follows the end of a firing, in each kind of loop.\<close>

definition after_fire :: "nat \<Rightarrow> bool \<Rightarrow> 's sched \<Rightarrow> 's sched" where
  "after_fire p ok s =
     (case se_kind (s_heap s ! p) of
        EveryLoop interval \<Rightarrow> if ok then set_state p LoopWait s else loop_exit p s
      | CronLoop e \<Rightarrow> if ok then set_state p LoopStart s else loop_exit p s
      | OneShotLoop at \<Rightarrow> loop_exit p s)"

definition fire_entry :: "(nat \<Rightarrow> go_err + string) \<Rightarrow> nat \<Rightarrow> 's sched \<Rightarrow> 's sched" where
  "fire_entry rand p s =
     (case fire rand (se_name (s_heap s ! p)) s of
        (s1, None) \<Rightarrow> set_state p LoopFiring s1
      | (s1, Some ok) \<Rightarrow> after_fire p ok s1)"

definition see_stop :: "nat \<Rightarrow> 's sched \<Rightarrow> 's sched option" where
  "see_stop p s = (if se_stop (s_heap s ! p) then Some (loop_exit p s) else None)"

text \<open>
  One turn of each goroutine, from one of its waits to the next; \<open>None\<close> when it cannot move.
\<close>

definition every_turn ::
  "(nat \<Rightarrow> go_err + string) \<Rightarrow> duration \<Rightarrow> nat \<Rightarrow> loop_event \<Rightarrow> time \<Rightarrow> 's sched \<Rightarrow> 's sched option" where
  "every_turn rand interval p ev now s =
     (case (se_state (s_heap s ! p), ev) of
        (LoopNew, Spawn) \<Rightarrow> Some (set_state p LoopStart s)
      | (LoopStart, Arm) \<Rightarrow> Some (set_state p LoopWait s)
      | (LoopWait, TimerTick) \<Rightarrow> Some (fire_entry rand p (set_next p (now + interval) s))
      | (LoopWait, StopSeen) \<Rightarrow> see_stop p s
      | _ \<Rightarrow> None)"

definition cron_turn ::
  "(nat \<Rightarrow> go_err + string) \<Rightarrow> expr \<Rightarrow> nat \<Rightarrow> loop_event \<Rightarrow> time \<Rightarrow> 's sched \<Rightarrow> 's sched option" where
  "cron_turn rand e p ev now s =
     (case (se_state (s_heap s ! p), ev) of
        (LoopNew, Spawn) \<Rightarrow> Some (set_state p LoopStart s)
      | (LoopStart, Arm) \<Rightarrow> Some (cron_arm e p now s)
      | (LoopWait, TimerTick) \<Rightarrow> Some (fire_entry rand p s)
      | (LoopWait, StopSeen) \<Rightarrow> see_stop p s
      | _ \<Rightarrow> None)"

definition one_shot_turn ::
  "(nat \<Rightarrow> go_err + string) \<Rightarrow> nat \<Rightarrow> loop_event \<Rightarrow> time \<Rightarrow> 's sched \<Rightarrow> 's sched option" where
  "one_shot_turn rand p ev now s =
     (case (se_state (s_heap s ! p), ev) of
        (LoopNew, Spawn) \<Rightarrow> Some (set_state p LoopStart s)
      | (LoopStart, Arm) \<Rightarrow> Some (set_state p LoopWait s)
      | (LoopWait, TimerTick) \<Rightarrow> Some (fire_entry rand p s)
      | (LoopWait, StopSeen) \<Rightarrow> see_stop p s
      | _ \<Rightarrow> None)"

definition loop_turn ::
  "(nat \<Rightarrow> go_err + string) \<Rightarrow> nat \<Rightarrow> loop_event \<Rightarrow> time \<Rightarrow> 's sched \<Rightarrow> 's sched option" where
  "loop_turn rand p ev now s =
     (if length (s_heap s) \<le> p then None
      else
        (case se_kind (s_heap s ! p) of
           EveryLoop interval \<Rightarrow> every_turn rand interval p ev now s
         | CronLoop e \<Rightarrow> cron_turn rand e p ev now s
         | OneShotLoop at \<Rightarrow> one_shot_turn rand p ev now s))"

section \<open>Stopping\<close>

text \<open>Closing a closed channel panics. \<open>Stop\<close> then waits for \<open>done\<close>; \<open>Ok p\<close> is the wait for entry \<open>p\<close>.\<close>

definition close_stop :: "nat \<Rightarrow> 's sched \<Rightarrow> 's sched \<times> (go_err, unit) outcome" where
  "close_stop p s =
     (if se_stop (s_heap s ! p) then (s, Panic)
      else (update_entry p (\<lambda>e. e\<lparr>se_stop := True\<rparr>) s, Ok ()))"

definition stop_entry :: "string \<Rightarrow> 's sched \<Rightarrow> 's sched \<times> (go_err, nat) outcome" where
  "stop_entry eid s =
     (case map_of (s_entries s) eid of
        None \<Rightarrow> (s, Err ErrJobNotFound)
      | Some p \<Rightarrow>
          (case close_stop p (remove_entry eid s) of
             (s1, Ok u) \<Rightarrow> (s1, Ok p)
           | (s1, _) \<Rightarrow> (s1, Panic)))"

text \<open>The end of \<open>Stop\<close>: it waits for the goroutine of the entry.\<close>

definition stop_wait :: "nat \<Rightarrow> 's sched \<Rightarrow> (go_err, unit) outcome" where
  "stop_wait p s = (if se_done (s_heap s ! p) then Ok () else NoReturn)"

text \<open>\<open>Stop\<close> of a snapshot, without a result; a snapshot not made by a scheduler does nothing.\<close>

definition schedule_stop :: "schedule \<Rightarrow> 's sched \<Rightarrow> 's sched \<times> (go_err, nat option) outcome" where
  "schedule_stop sn s =
     (if sn_bound sn then
        (case stop_entry (sn_id sn) s of
           (s1, Ok p) \<Rightarrow> (s1, Ok (Some p))
         | (s1, Err e) \<Rightarrow> (s1, Ok None)
         | (s1, Panic) \<Rightarrow> (s1, Panic)
         | (s1, NoReturn) \<Rightarrow> (s1, NoReturn))
      else (s, Ok None))"

fun close_all :: "nat list \<Rightarrow> 's sched \<Rightarrow> 's sched \<times> (go_err, unit) outcome" where
  "close_all [] s = (s, Ok ())"
| "close_all (p # ps) s =
     (case close_stop p s of
        (s1, Ok u) \<Rightarrow> close_all ps s1
      | (s1, r) \<Rightarrow> (s1, r))"

text \<open>\<open>Shutdown\<close> up to its wait for the goroutines.\<close>

definition stop_all :: "'s sched \<Rightarrow> 's sched \<times> (go_err, unit) outcome" where
  "stop_all s =
     (if s_stopped s then (s, Ok ())
      else close_all (map snd (s_entries s)) (s\<lparr>s_stopped := True, s_entries := []\<rparr>))"

text \<open>
  Its result: nil when all the goroutines that were started have ended first, otherwise the error of
  the context. A goroutine that is not started yet is not counted.
\<close>

definition running_loops :: "'s sched \<Rightarrow> nat" where
  "running_loops s = length (filter (\<lambda>e. se_state e \<noteq> LoopNew \<and> se_state e \<noteq> LoopEnded) (s_heap s))"

definition await_loops :: "ctx_error option \<Rightarrow> 's sched \<Rightarrow> (go_err, unit) outcome" where
  "await_loops ctx s =
     (if running_loops s = 0 then Ok ()
      else case ctx of None \<Rightarrow> NoReturn | Some c \<Rightarrow> Err (CtxFailed c))"

end
