(* ===== verification/Scheduler_Inv.thy ===== *)
theory Scheduler_Inv
  imports Scheduler
begin

text \<open>
  The scheduler as a step relation, and what holds in every state it reaches: the entries of the table
  are live and listed once, no stop channel is closed twice, and no live entry is out of reach of
  \<open>Shutdown\<close>.
\<close>

section \<open>Steps\<close>

text \<open>
  A step is a registration, a turn of a goroutine, the end of a firing that had to wait, a stop, a
  shutdown, or anything the dispatcher does by itself.
\<close>

inductive sched_step :: "(nat \<Rightarrow> go_err + string) \<Rightarrow> 's sched \<Rightarrow> 's sched \<Rightarrow> bool" for rand where
  reg_every: "every rand interval name s = (s', r) \<Longrightarrow> sched_step rand s s'"
| reg_cron: "cron_schedule rand ex name s = (s', r) \<Longrightarrow> sched_step rand s s'"
| reg_once: "one_shot rand now at name s = (s', r) \<Longrightarrow> sched_step rand s s'"
| turn: "loop_turn rand p ev now s = Some s' \<Longrightarrow> sched_step rand s s'"
| fired: "p < length (s_heap s) \<Longrightarrow> se_state (s_heap s ! p) = LoopFiring \<Longrightarrow> disp_ok (s_disp s) d' \<Longrightarrow>
    fire_result (se_name (s_heap s ! p)) r (s\<lparr>s_disp := d'\<rparr>) = (s1, Some ok) \<Longrightarrow> sched_step rand s (after_fire p ok s1)"
| stop_one: "stop_entry eid s = (s', r) \<Longrightarrow> sched_step rand s s'"
| stop_every: "stop_all s = (s', r') \<Longrightarrow> sched_step rand s s'"
| dispatcher: "disp_ok (s_disp s) d' \<Longrightarrow> sched_step rand s (s\<lparr>s_disp := d'\<rparr>)"

definition sched_reach :: "(nat \<Rightarrow> go_err + string) \<Rightarrow> 's sched \<Rightarrow> bool" where
  "sched_reach rand s \<longleftrightarrow>
     (\<exists>loc d opts s0. disp_ok d d \<and> new_scheduler loc (Some d) opts = Inr s0 \<and> (sched_step rand)\<^sup>*\<^sup>* s0 s)"

section \<open>The invariant\<close>

text \<open>The identifiers of the entries were drawn before.\<close>

definition drawn_ids :: "(nat \<Rightarrow> go_err + string) \<Rightarrow> nat \<Rightarrow> sched_entry list \<Rightarrow> bool" where
  "drawn_ids rand n h \<longleftrightarrow> (\<forall>i\<in>set (map se_id h). \<exists>k<n. rand k = Inr i)"

text \<open>The entries of the table are there once each, with open stop channels and live goroutines.\<close>

definition entries_ok :: "sched_entry list \<Rightarrow> (string \<times> nat) list \<Rightarrow> bool" where
  "entries_ok h al \<longleftrightarrow> distinct (map fst al) \<and> distinct (map snd al) \<and>
     (\<forall>(i, p)\<in>set al. p < length h \<and> se_id (h ! p) = i \<and> \<not> se_stop (h ! p) \<and> se_state (h ! p) \<noteq> LoopEnded)"

definition done_ok :: "sched_entry list \<Rightarrow> bool" where
  "done_ok h \<longleftrightarrow> list_all (\<lambda>e. se_done e = (se_state e = LoopEnded)) h"

text \<open>When the identifiers drawn all differ, a live entry is in the table or its stop channel is closed.\<close>

definition entries_live :: "sched_entry list \<Rightarrow> (string \<times> nat) list \<Rightarrow> bool" where
  "entries_live h al \<longleftrightarrow> distinct (map se_id h) \<and>
     (\<forall>p<length h. se_state (h ! p) = LoopEnded \<or> se_stop (h ! p) \<or> (se_id (h ! p), p) \<in> set al)"

definition sched_ok :: "(nat \<Rightarrow> go_err + string) \<Rightarrow> 's sched \<Rightarrow> bool" where
  "sched_ok rand s \<longleftrightarrow> disp_ok (s_disp s) (s_disp s) \<and> drawn_ids rand (d_draws (s_disp s)) (s_heap s) \<and>
     entries_ok (s_heap s) (s_entries s) \<and> done_ok (s_heap s) \<and> (s_stopped s \<longrightarrow> s_entries s = []) \<and>
     (distinct_draws rand \<longrightarrow> entries_live (s_heap s) (s_entries s))"

section \<open>Heap and table\<close>

lemma map_update_same: "f e = f (xs ! p) \<Longrightarrow> map f (xs[p := e]) = map f xs"
  by (metis list_update_id map_update)

lemma in_delete: "x \<in> set (AList.delete k al) \<longleftrightarrow> x \<in> set al \<and> fst x \<noteq> k"
  by (induction al) auto

lemma distinct_delete: "distinct (map f al) \<Longrightarrow> distinct (map f (AList.delete k al))"
  by (induction al) (auto simp: in_delete)

lemma in_update: "distinct (map fst al) \<Longrightarrow> x \<in> set (AList.update k v al) \<longleftrightarrow> x = (k, v) \<or> x \<in> set al \<and> fst x \<noteq> k"
  by (induction al) (auto simp: image_iff)

lemma distinct_update_snd: "distinct (map fst al) \<Longrightarrow> distinct (map snd al) \<Longrightarrow> v \<notin> snd ` set al \<Longrightarrow>
    distinct (map snd (AList.update k v al))"
  by (induction al) (auto simp: in_update)

lemma entries_okD:
  assumes "entries_ok h al" "(i, p) \<in> set al"
  shows "p < length h \<and> se_id (h ! p) = i \<and> \<not> se_stop (h ! p) \<and> se_state (h ! p) \<noteq> LoopEnded"
  using assms unfolding entries_ok_def by auto

lemma entries_ok_distinct: "entries_ok h al \<Longrightarrow> distinct (map fst al) \<and> distinct (map snd al)"
  by (simp add: entries_ok_def)

lemma entries_okI:
  assumes "distinct (map fst al)" "distinct (map snd al)"
    "\<And>i p. (i, p) \<in> set al \<Longrightarrow>
      p < length h \<and> se_id (h ! p) = i \<and> \<not> se_stop (h ! p) \<and> se_state (h ! p) \<noteq> LoopEnded"
  shows "entries_ok h al"
  using assms unfolding entries_ok_def by auto

lemma done_update: "done_ok h \<Longrightarrow> se_done e = (se_state e = LoopEnded) \<Longrightarrow> done_ok (h[p := e])"
  unfolding done_ok_def list_all_iff using set_update_subset_insert by fastforce

text \<open>An entry that changes but stays live.\<close>

lemma entries_change:
  assumes "se_id e = se_id (h ! p)" "se_stop e = se_stop (h ! p)" "se_state e \<noteq> LoopEnded" "se_state (h ! p) \<noteq> LoopEnded"
  shows "entries_ok h al \<Longrightarrow> entries_ok (h[p := e]) al" and "entries_live h al \<Longrightarrow> entries_live (h[p := e]) al"
proof -
  have n: "(h[p := e]) ! q = (if q = p then e else h ! q)" if "q < length h" for q using that by (simp add: nth_list_update)
  show "entries_ok (h[p := e]) al" if ok: "entries_ok h al"
  proof (rule entries_okI)
    fix i q assume "(i, q) \<in> set al"
    note e = entries_okD [OF ok this]
    show "q < length (h[p := e]) \<and> se_id ((h[p := e]) ! q) = i \<and> \<not> se_stop ((h[p := e]) ! q) \<and>
        se_state ((h[p := e]) ! q) \<noteq> LoopEnded"
      using e n [OF conjunct1 [OF e]] assms by (cases "q = p") simp_all
  qed (use ok in \<open>simp_all add: entries_ok_def\<close>)
  show "entries_live (h[p := e]) al" if "entries_live h al"
    using that assms unfolding entries_live_def by (auto simp: n map_update_same)
qed

text \<open>An entry that leaves the table and stops or ends.\<close>

lemma entries_drop:
  assumes "se_id e = se_id (h ! p)" "se_stop e \<or> se_state e = LoopEnded" "p < length h"
  shows "entries_ok h al \<Longrightarrow> entries_ok (h[p := e]) (AList.delete (se_id (h ! p)) al)"
    and "entries_live h al \<Longrightarrow> entries_live (h[p := e]) (AList.delete (se_id (h ! p)) al)"
proof -
  have n: "(h[p := e]) ! q = (if q = p then e else h ! q)" if "q < length h" for q using that by (simp add: nth_list_update)
  show "entries_ok (h[p := e]) (AList.delete (se_id (h ! p)) al)" if ok: "entries_ok h al"
  proof (rule entries_okI)
    fix i q assume "(i, q) \<in> set (AList.delete (se_id (h ! p)) al)"
    then have m: "(i, q) \<in> set al" and "i \<noteq> se_id (h ! p)" by (auto simp: in_delete)
    then have "q \<noteq> p" using entries_okD [OF ok m] by auto
    then show "q < length (h[p := e]) \<and> se_id ((h[p := e]) ! q) = i \<and> \<not> se_stop ((h[p := e]) ! q) \<and>
        se_state ((h[p := e]) ! q) \<noteq> LoopEnded" using entries_okD [OF ok m] by simp
  qed (use ok in \<open>simp_all add: entries_ok_def distinct_delete\<close>)
  assume live: "entries_live h al"
  have "se_id (h ! q) \<noteq> se_id (h ! p)" if "q < length h" "q \<noteq> p" for q
    using live that assms(3) by (simp add: entries_live_def distinct_conv_nth)
  then show "entries_live (h[p := e]) (AList.delete (se_id (h ! p)) al)"
    using live assms unfolding entries_live_def by (auto simp: n map_update_same in_delete)
qed

text \<open>A new entry with a fresh identifier.\<close>

lemma entries_add:
  assumes "\<not> se_stop e" "se_state e \<noteq> LoopEnded" "entries_ok h al"
  shows "entries_ok (h @ [e]) (AList.update (se_id e) (length h) al)"
    and "entries_live h al \<Longrightarrow> se_id e \<notin> set (map se_id h) \<Longrightarrow>
      entries_live (h @ [e]) (AList.update (se_id e) (length h) al)"
proof -
  let ?al = "AList.update (se_id e) (length h) al"
  have d: "distinct (map fst al)" "distinct (map snd al)" using assms(3) by (simp_all add: entries_ok_def)
  have new: "length h \<notin> snd ` set al" using entries_okD [OF assms(3)] by force
  show "entries_ok (h @ [e]) ?al"
  proof (rule entries_okI)
    show "distinct (map fst ?al)" using d(1) by (rule distinct_update)
    show "distinct (map snd ?al)" using d new by (rule distinct_update_snd)
    fix i q assume "(i, q) \<in> set ?al"
    then have "(i, q) = (se_id e, length h) \<or> (i, q) \<in> set al" using in_update [OF d(1)] by blast
    then show "q < length (h @ [e]) \<and> se_id ((h @ [e]) ! q) = i \<and> \<not> se_stop ((h @ [e]) ! q) \<and>
        se_state ((h @ [e]) ! q) \<noteq> LoopEnded"
      using assms(1,2) entries_okD [OF assms(3), of i q] by (auto simp: nth_append)
  qed
  show "entries_live (h @ [e]) ?al" if "entries_live h al" "se_id e \<notin> set (map se_id h)"
  proof -
    have "se_id (h ! q) \<noteq> se_id e" if "q < length h" for q
      using \<open>se_id e \<notin> set (map se_id h)\<close> nth_mem [OF that] by (metis length_map nth_map nth_mem that)
    then show ?thesis
      using that unfolding entries_live_def by (auto simp: in_update [OF d(1)] nth_append less_Suc_eq)
  qed
qed

section \<open>Operations keep the invariant\<close>

lemma change_ok:
  assumes "sched_ok rand s" "p < length (s_heap s)" "se_state (s_heap s ! p) \<noteq> LoopEnded"
    and "\<And>e. se_id (f e) = se_id e \<and> se_stop (f e) = se_stop e \<and> se_done (f e) = se_done e"
    and "se_state (f (s_heap s ! p)) \<noteq> LoopEnded"
  shows "sched_ok rand (update_entry p f s)"
proof -
  have "\<not> se_done (s_heap s ! p)" using assms(1-3) by (simp add: sched_ok_def done_ok_def list_all_length)
  then show ?thesis using assms entries_change [of "f (s_heap s ! p)" "s_heap s" p "s_entries s"]
    by (simp add: sched_ok_def update_entry_def done_update drawn_ids_def map_update_same del: set_map)
qed

lemma set_next_ok: "sched_ok rand s \<Longrightarrow> p < length (s_heap s) \<Longrightarrow> se_state (s_heap s ! p) \<noteq> LoopEnded \<Longrightarrow>
    sched_ok rand (set_next p t s)"
  unfolding set_next_def by (rule change_ok) auto

lemma set_state_ok: "sched_ok rand s \<Longrightarrow> p < length (s_heap s) \<Longrightarrow> se_state (s_heap s ! p) \<noteq> LoopEnded \<Longrightarrow>
    st \<noteq> LoopEnded \<Longrightarrow> sched_ok rand (set_state p st s)"
  unfolding set_state_def by (rule change_ok) auto

lemma drop_ok:
  assumes "sched_ok rand s" "p < length (s_heap s)"
    and "\<And>e. se_id (f e) = se_id e" "se_stop (f (s_heap s ! p)) \<or> se_state (f (s_heap s ! p)) = LoopEnded"
    and "se_done (f (s_heap s ! p)) = (se_state (f (s_heap s ! p)) = LoopEnded)"
  shows "sched_ok rand (update_entry p f (remove_entry (se_id (s_heap s ! p)) s))"
  using assms entries_drop [of "f (s_heap s ! p)" "s_heap s" p "s_entries s"]
  by (simp add: sched_ok_def update_entry_def remove_entry_def done_update drawn_ids_def map_update_same del: set_map)

lemma loop_exit_ok: "sched_ok rand s \<Longrightarrow> p < length (s_heap s) \<Longrightarrow> sched_ok rand (loop_exit p s)"
  unfolding loop_exit_def by (rule drop_ok) auto

lemma log_warn_ok [simp]: "sched_ok rand (log_warn l s) = sched_ok rand s"
  by (simp add: sched_ok_def log_warn_def)

lemma sched_frames [simp]:
  "s_heap (log_warn l s) = s_heap s" "s_heap (s\<lparr>s_disp := d\<rparr>) = s_heap s"
  "length (s_heap (update_entry p f s)) = length (s_heap s)"
  "length (s_heap (set_next p t s)) = length (s_heap s)"
  "length (s_heap (set_state p st s)) = length (s_heap s)"
  by (simp_all add: log_warn_def set_next_def set_state_def update_entry_def)

lemma set_next_state [simp]: "p < length (s_heap s) \<Longrightarrow> se_state (s_heap (set_next p t s) ! p) = se_state (s_heap s ! p)"
  by (simp add: set_next_def update_entry_def)

lemma disp_evolve_ok:
  assumes "sched_ok rand s" "disp_ok (s_disp s) d'"
  shows "sched_ok rand (s\<lparr>s_disp := d'\<rparr>)"
proof -
  have "d_draws (s_disp s) \<le> d_draws d'" using assms(2) by (simp add: disp_ok_def)
  then have "drawn_ids rand (d_draws d') (s_heap s)"
    using assms(1) unfolding sched_ok_def drawn_ids_def by (meson order_less_le_trans)
  then show ?thesis using assms(1) disp_ok_refl [OF assms(2)] by (simp add: sched_ok_def)
qed

lemma fire_result_ok:
  "sched_ok rand s \<Longrightarrow> fire_result name r s = (s', res) \<Longrightarrow> sched_ok rand s' \<and> s_heap s' = s_heap s"
  by (auto simp: fire_result_def split: outcome.splits)

lemma fire_ok:
  assumes "sched_ok rand s" "fire rand name s = (s', r)"
  shows "sched_ok rand s' \<and> s_heap s' = s_heap s"
proof -
  obtain d' r' where sub: "submit rand None name [] [] (s_disp s) = (d', r')" by fastforce
  have "disp_ok (s_disp s) (s_disp s)" using assms(1) by (simp add: sched_ok_def)
  then have "disp_ok (s_disp s) d'"
    using submit_with_options_ok [of "s_disp s" "s_disp s" "[]"] sub by (simp add: submit_def)
  then have "sched_ok rand (s\<lparr>s_disp := d'\<rparr>)" using assms(1) disp_evolve_ok by blast
  then show ?thesis using assms(2) sub fire_result_ok [of rand "s\<lparr>s_disp := d'\<rparr>" name r'] by (simp add: fire_def)
qed

lemma after_fire_ok:
  assumes "sched_ok rand s" "p < length (s_heap s)" "se_state (s_heap s ! p) \<noteq> LoopEnded"
  shows "sched_ok rand (after_fire p ok s)"
  using assms by (simp add: after_fire_def loop_exit_ok set_state_ok split: loop_kind.split)

lemma fire_entry_ok:
  assumes "sched_ok rand s" "p < length (s_heap s)" "se_state (s_heap s ! p) \<noteq> LoopEnded"
  shows "sched_ok rand (fire_entry rand p s)"
proof -
  obtain s1 r where f: "fire rand (se_name (s_heap s ! p)) s = (s1, r)" by fastforce
  with fire_ok [OF assms(1) f] assms(2,3) show ?thesis
    by (auto simp: fire_entry_def set_state_ok after_fire_ok split: option.split)
qed

lemma cron_arm_ok:
  assumes "sched_ok rand s" "p < length (s_heap s)" "se_state (s_heap s ! p) \<noteq> LoopEnded"
  shows "sched_ok rand (cron_arm e p now s)"
  using assms by (auto simp: cron_arm_def set_next_ok set_state_ok loop_exit_ok split: option.split sum.split)

lemma loop_turn_ok:
  assumes "sched_ok rand s" "loop_turn rand p ev now s = Some s'"
  shows "sched_ok rand s'"
  using assms
  by (auto simp: loop_turn_def every_turn_def cron_turn_def one_shot_turn_def see_stop_def
      set_state_ok set_next_ok fire_entry_ok cron_arm_ok loop_exit_ok
      split: if_splits loop_kind.splits loop_state.splits loop_event.splits)

text \<open>Registration.\<close>

lemma add_entry_ok:
  assumes "sched_ok rand s" "add_entry rand name kind s = (s', r)"
  shows "sched_ok rand s' \<and> (\<forall>sn. r = Ok sn \<longrightarrow> s_heap s' \<noteq> [] \<and> se_state (last (s_heap s')) = LoopNew)"
proof (cases "check_handler name s")
  case (Some e)
  then show ?thesis using assms by (auto simp: add_entry_def)
next
  case None
  let ?n = "d_draws (s_disp s)"
  let ?s1 = "s\<lparr>s_disp := (s_disp s)\<lparr>d_draws := Suc ?n\<rparr>\<rparr>"
  have "disp_ok (s_disp s) ((s_disp s)\<lparr>d_draws := Suc ?n\<rparr>)" using assms(1) by (simp add: sched_ok_def disp_ok_def)
  then have ok1: "sched_ok rand ?s1" using assms(1) disp_evolve_ok by blast
  show ?thesis
  proof (cases "rand ?n")
    case (Inl e)
    then show ?thesis using assms None ok1 by (auto simp: add_entry_def new_entry_def new_job_id_def)
  next
    case (Inr eid)
    let ?e = "\<lparr>se_id = eid, se_name = name, se_next = zero_time, se_stop = False, se_done = False,
       se_kind = kind, se_state = LoopNew\<rparr>"
    show ?thesis
    proof (cases "s_stopped s")
      case True
      then show ?thesis using assms None Inr ok1
        by (auto simp: add_entry_def new_entry_def new_job_id_def register_def)
    next
      case False
      have fresh: "eid \<notin> set (map se_id (s_heap s))" if "distinct_draws rand"
      proof
        assume "eid \<in> set (map se_id (s_heap s))"
        then obtain k where "k < ?n" "rand k = Inr eid" using assms(1) unfolding sched_ok_def drawn_ids_def by blast
        then show False using that Inr unfolding distinct_draws_def by blast
      qed
      have eq: "s' = ?s1\<lparr>s_entries := AList.update eid (length (s_heap s)) (s_entries s), s_heap := s_heap s @ [?e]\<rparr>"
        using assms(2) None Inr False by (simp add: add_entry_def new_entry_def new_job_id_def register_def)
      have "drawn_ids rand (Suc ?n) (s_heap s @ [?e])"
        using ok1 Inr unfolding sched_ok_def drawn_ids_def by auto
      then have "sched_ok rand s'"
        using ok1 False fresh entries_add [of ?e "s_heap s" "s_entries s"]
        by (simp add: eq sched_ok_def done_ok_def)
      then show ?thesis by (simp add: eq)
    qed
  qed
qed

lemma every_ok: "sched_ok rand s \<Longrightarrow> every rand interval name s = (s', r) \<Longrightarrow> sched_ok rand s'"
  using add_entry_ok by (fastforce simp: every_def split: if_splits)

lemma cron_schedule_ok: "sched_ok rand s \<Longrightarrow> cron_schedule rand ex name s = (s', r) \<Longrightarrow> sched_ok rand s'"
  using add_entry_ok by (fastforce simp: cron_schedule_def split: outcome.splits)

lemma one_shot_ok:
  assumes "sched_ok rand s" "one_shot rand now at name s = (s', r)"
  shows "sched_ok rand s'"
proof (cases "now < at")
  case False
  then show ?thesis using assms by (simp add: one_shot_def)
next
  case True
  obtain s1 r1 where a: "add_entry rand name (OneShotLoop at) s = (s1, r1)" by fastforce
  show ?thesis
  proof (cases r1)
    case (Ok sn)
    have "s_heap s1 \<noteq> []" "se_state (last (s_heap s1)) = LoopNew" "sched_ok rand s1"
      using add_entry_ok [OF assms(1) a] Ok by auto
    then show ?thesis using assms(2) True a Ok by (auto simp: one_shot_def last_conv_nth intro!: set_next_ok)
  qed (use assms(2) True a add_entry_ok [OF assms(1) a] in \<open>auto simp: one_shot_def\<close>)
qed

section \<open>Stopping\<close>

lemma stop_entry_effect:
  assumes "sched_ok rand s" "stop_entry eid s = (s', r)"
  shows "sched_ok rand s' \<and> r = (case map_of (s_entries s) eid of None \<Rightarrow> Err ErrJobNotFound | Some p \<Rightarrow> Ok p)"
proof (cases "map_of (s_entries s) eid")
  case None
  then show ?thesis using assms by (simp add: stop_entry_def)
next
  case (Some p)
  have "entries_ok (s_heap s) (s_entries s)" using assms(1) by (simp add: sched_ok_def)
  from entries_okD [OF this map_of_SomeD [OF Some]]
  have p: "p < length (s_heap s)" "se_id (s_heap s ! p) = eid" "\<not> se_stop (s_heap s ! p)"
    "se_state (s_heap s ! p) \<noteq> LoopEnded" by auto
  have "\<not> se_done (s_heap s ! p)" using assms(1) p by (simp add: sched_ok_def done_ok_def list_all_length)
  then have "sched_ok rand (update_entry p (\<lambda>e. e\<lparr>se_stop := True\<rparr>) (remove_entry (se_id (s_heap s ! p)) s))"
    using p by (intro drop_ok [OF assms(1)]) auto
  then show ?thesis using assms(2) Some p
    by (auto simp: stop_entry_def close_stop_def remove_entry_def)
qed

text \<open>\<open>Shutdown\<close> closes exactly the stop channels of the entries in the table.\<close>

lemma close_all_run:
  assumes "distinct ps" "\<And>p. p \<in> set ps \<Longrightarrow> p < length (s_heap s) \<and> \<not> se_stop (s_heap s ! p)"
  shows "close_all ps s =
    (s\<lparr>s_heap := map (\<lambda>p. (s_heap s ! p)\<lparr>se_stop := se_stop (s_heap s ! p) \<or> p \<in> set ps\<rparr>) [0..<length (s_heap s)]\<rparr>, Ok ())"
  using assms
proof (induction ps arbitrary: s)
  case Nil
  have "map (\<lambda>p. (s_heap s ! p)\<lparr>se_stop := se_stop (s_heap s ! p) \<or> p \<in> set []\<rparr>) [0..<length (s_heap s)] = s_heap s"
    by (rule nth_equalityI) simp_all
  then show ?case by simp
next
  case (Cons p ps)
  let ?s1 = "update_entry p (\<lambda>e. e\<lparr>se_stop := True\<rparr>) s"
  have c: "close_stop p s = (?s1, Ok ())" using Cons.prems(2) [of p] by (simp add: close_stop_def)
  have len: "length (s_heap ?s1) = length (s_heap s)" by simp
  have other: "s_heap ?s1 ! q = (if q = p then (s_heap s ! p)\<lparr>se_stop := True\<rparr> else s_heap s ! q)"
    if "q < length (s_heap s)" for q using that by (simp add: update_entry_def nth_list_update)
  have "close_all ps ?s1 =
      (?s1\<lparr>s_heap := map (\<lambda>q. (s_heap ?s1 ! q)\<lparr>se_stop := se_stop (s_heap ?s1 ! q) \<or> q \<in> set ps\<rparr>) [0..<length (s_heap ?s1)]\<rparr>, Ok ())"
  proof (rule Cons.IH)
    show "distinct ps" using Cons.prems(1) by simp
    show "q < length (s_heap ?s1) \<and> \<not> se_stop (s_heap ?s1 ! q)" if "q \<in> set ps" for q
      using that Cons.prems other [of q] by auto
  qed
  moreover have "map (\<lambda>q. (s_heap ?s1 ! q)\<lparr>se_stop := se_stop (s_heap ?s1 ! q) \<or> q \<in> set ps\<rparr>) [0..<length (s_heap ?s1)] =
      map (\<lambda>q. (s_heap s ! q)\<lparr>se_stop := se_stop (s_heap s ! q) \<or> q \<in> set (p # ps)\<rparr>) [0..<length (s_heap s)]"
    unfolding len by (rule map_cong [OF refl]) (simp add: other)
  moreover have "?s1\<lparr>s_heap := x\<rparr> = s\<lparr>s_heap := x\<rparr>" for x by (simp add: update_entry_def)
  ultimately show ?case by (simp add: c)
qed

lemma stop_all_effect:
  assumes "sched_ok rand s" "stop_all s = (s', r)"
  shows "sched_ok rand s' \<and> r = Ok () \<and> s_stopped s'"
proof (cases "s_stopped s")
  case True
  then show ?thesis using assms by (auto simp: stop_all_def)
next
  case False
  let ?ps = "map snd (s_entries s)"
  let ?s1 = "s\<lparr>s_stopped := True, s_entries := []\<rparr>"
  define h where "h = map (\<lambda>p. (s_heap s ! p)\<lparr>se_stop := se_stop (s_heap s ! p) \<or> p \<in> set ?ps\<rparr>) [0..<length (s_heap s)]"
  have eo: "entries_ok (s_heap s) (s_entries s)" using assms(1) by (simp add: sched_ok_def)
  have open_stop: "p < length (s_heap s) \<and> \<not> se_stop (s_heap s ! p)" if "p \<in> set ?ps" for p
    using that entries_okD [OF eo] by auto
  have "close_all ?ps ?s1 = (?s1\<lparr>s_heap := h\<rparr>, Ok ())"
    unfolding h_def using close_all_run [of ?ps ?s1] entries_ok_distinct [OF eo] open_stop by simp
  then have eq: "s' = ?s1\<lparr>s_heap := h\<rparr>" "r = Ok ()" using assms(2) False by (auto simp: stop_all_def)
  have nth: "h ! p = (s_heap s ! p)\<lparr>se_stop := se_stop (s_heap s ! p) \<or> p \<in> set ?ps\<rparr>" if "p < length (s_heap s)" for p
    using that by (simp add: h_def)
  have len: "length h = length (s_heap s)" by (simp add: h_def)
  have ids: "map se_id h = map se_id (s_heap s)"
    by (rule nth_equalityI) (simp_all add: len nth)
  have "done_ok h" using assms(1) by (simp add: sched_ok_def done_ok_def list_all_length len nth)
  moreover have "entries_live h []" if "entries_live (s_heap s) (s_entries s)"
    using that unfolding entries_live_def by (force simp: ids len nth image_iff)
  ultimately have "sched_ok rand s'"
    using assms(1) by (simp add: eq sched_ok_def drawn_ids_def ids entries_ok_def del: set_map)
  then show ?thesis by (simp add: eq)
qed

section \<open>Every reachable state\<close>

lemma sched_step_ok:
  assumes "sched_step rand s s'" "sched_ok rand s"
  shows "sched_ok rand s'"
  using assms(1)
proof cases
  case reg_every then show ?thesis using every_ok assms(2) by blast
next
  case reg_cron then show ?thesis using cron_schedule_ok assms(2) by blast
next
  case reg_once then show ?thesis using one_shot_ok assms(2) by blast
next
  case turn then show ?thesis using loop_turn_ok assms(2) by blast
next
  case (fired p d' r s1 ok)
  have "sched_ok rand s1 \<and> s_heap s1 = s_heap s"
    using fire_result_ok [OF disp_evolve_ok [OF assms(2) fired(4)] fired(5)] by simp
  then show ?thesis using fired(1-3) after_fire_ok [of rand s1 p ok] by simp
next
  case stop_one then show ?thesis using stop_entry_effect assms(2) by blast
next
  case stop_every then show ?thesis using stop_all_effect assms(2) by blast
next
  case dispatcher then show ?thesis using disp_evolve_ok assms(2) by blast
qed

lemma new_scheduler_ok:
  assumes "disp_ok d d" "new_scheduler loc (Some d) opts = Inr s"
  shows "sched_ok rand s"
  using assms by (auto simp: new_scheduler_def sched_ok_def drawn_ids_def entries_ok_def entries_live_def done_ok_def
      split: sum.splits)

lemma sched_reach_step: "sched_reach rand s \<Longrightarrow> sched_step rand s s' \<Longrightarrow> sched_reach rand s'"
  unfolding sched_reach_def by (meson rtranclp.rtrancl_into_rtrancl)

lemma sched_reach_ok:
  assumes "sched_reach rand s"
  shows "sched_ok rand s"
proof -
  obtain loc d opts s0 where s0: "disp_ok d d" "new_scheduler loc (Some d) opts = Inr s0" "(sched_step rand)\<^sup>*\<^sup>* s0 s"
    using assms unfolding sched_reach_def by blast
  from s0(3) new_scheduler_ok [OF s0(1,2)] show ?thesis by induction (auto intro: sched_step_ok)
qed

lemma stopped_entry_closed:
  assumes "sched_ok rand s" "distinct_draws rand" "s_stopped s" "p < length (s_heap s)" "se_state (s_heap s ! p) \<noteq> LoopEnded"
  shows "se_stop (s_heap s ! p)"
  using assms by (auto simp: sched_ok_def entries_live_def)

text \<open>
  C16: In every state a scheduler reaches by registrations, turns of its goroutines, stops, shutdowns and
  any activity of its dispatcher: the table lists each entry once, under its identifier, with an open
  stop channel and a goroutine that has not ended; the \<open>done\<close> channel is closed exactly when the
  goroutine has ended; the table of a stopped scheduler is empty; and neither \<open>Stop\<close> nor
  \<open>Shutdown\<close> closes a channel twice: \<open>Stop\<close> finds the entry or reports that it is unknown,
  and \<open>Shutdown\<close> closes all of them.
\<close>
theorem scheduler_invariant:
  assumes "sched_reach rand s"
  shows "entries_ok (s_heap s) (s_entries s) \<and> done_ok (s_heap s) \<and> (s_stopped s \<longrightarrow> s_entries s = []) \<and>
    disp_ok (s_disp s) (s_disp s) \<and>
    snd (stop_entry eid s) = (case map_of (s_entries s) eid of None \<Rightarrow> Err ErrJobNotFound | Some p \<Rightarrow> Ok p) \<and>
    snd (stop_all s) = Ok ()"
proof -
  have ok: "sched_ok rand s" using assms by (rule sched_reach_ok)
  moreover from stop_entry_effect [OF ok, of eid "fst (stop_entry eid s)" "snd (stop_entry eid s)"]
  have "snd (stop_entry eid s) = (case map_of (s_entries s) eid of None \<Rightarrow> Err ErrJobNotFound | Some p \<Rightarrow> Ok p)" by simp
  moreover from stop_all_effect [OF ok, of "fst (stop_all s)" "snd (stop_all s)"] have "snd (stop_all s) = Ok ()" by simp
  ultimately show ?thesis by (simp add: sched_ok_def)
qed

text \<open>
  C23: After \<open>Shutdown\<close> has begun, with identifiers that are all different: no schedule is added any
  more, every goroutine that has not ended has its stop channel closed, and one that waits on its timer
  can end in its next turn, which closes its \<open>done\<close> channel. So the wait of \<open>Shutdown\<close> is for
  goroutines that are between two waits only.
\<close>
theorem stopped_scheduler_winds_down:
  assumes "sched_reach rand s" "distinct_draws rand" "s_stopped s"
    and "p < length (s_heap s)" "se_state (s_heap s ! p) \<noteq> LoopEnded"
  shows "se_stop (s_heap s ! p) \<and> (\<nexists>sn. snd (add_entry rand name kind s) = Ok sn) \<and>
    (if se_state (s_heap s ! p) = LoopWait
     then \<exists>s'. loop_turn rand p StopSeen now s = Some s' \<and> se_state (s_heap s' ! p) = LoopEnded \<and>
       stop_wait p s' = Ok ()
     else se_state (s_heap s ! p) \<in> {LoopNew, LoopStart, LoopFiring})"
proof -
  have stop: "se_stop (s_heap s ! p)"
    using stopped_entry_closed [OF sched_reach_ok [OF assms(1)] assms(2-5)] .
  have "\<nexists>sn. snd (add_entry rand name kind s) = Ok sn"
    using assms(3) by (auto simp: add_entry_def new_entry_def new_job_id_def register_def split: option.splits sum.splits)
  moreover have "loop_turn rand p StopSeen now s = Some (loop_exit p s)" if "se_state (s_heap s ! p) = LoopWait"
    using that stop assms(4) by (simp add: loop_turn_def every_turn_def cron_turn_def one_shot_turn_def see_stop_def
        split: loop_kind.split)
  moreover have "se_state (s_heap (loop_exit p s) ! p) = LoopEnded" "stop_wait p (loop_exit p s) = Ok ()"
    using assms(4) by (simp_all add: loop_exit_def update_entry_def remove_entry_def stop_wait_def)
  ultimately show ?thesis using stop assms(5) by (cases "se_state (s_heap s ! p)") auto
qed

section \<open>A trigger that is refused\<close>

lemma submit_skipped:
  assumes "cfg_conflict (d_cfg d) = ConflictSkip" "flying (d_in_flight d) name \<noteq> []"
  shows "\<exists>e. snd (submit rand ctx name payload [] d) = Err e"
  using assms
  by (auto simp: submit_def submit_with_options_def build_entry_def new_job_id_def clock_read_def submit_entry_def
      apply_conflict_def Let_def ConflictSkip_def ConflictReplace_def ConflictAllow_def log_skipped_def metric_skipped_def
      split: option.split sum.split)

text \<open>
  C37: A schedule ends for good when one of its triggers is refused. Under the policy \<open>Skip\<close>, a job of
  the name that is still in flight when the timer of an \<open>Every\<close> or \<open>Cron\<close> entry ends makes the
  submission fail, and the goroutine then takes this for the end of the dispatcher: it leaves the table
  and closes \<open>done\<close>, and the entry never fires again.
\<close>
theorem skipped_trigger_ends_schedule:
  assumes "p < length (s_heap s)" "se_state (s_heap s ! p) = LoopWait"
    and "cfg_conflict (d_cfg (s_disp s)) = ConflictSkip"
    and "flying (d_in_flight (s_disp s)) (se_name (s_heap s ! p)) \<noteq> []"
  shows "\<exists>s'. loop_turn rand p TimerTick now s = Some s' \<and> se_state (s_heap s' ! p) = LoopEnded \<and>
    stop_wait p s' = Ok () \<and> map_of (s_entries s') (se_id (s_heap s ! p)) = None \<and>
    (\<forall>ev now'. loop_turn rand p ev now' s' = None)"
proof -
  let ?n = "se_name (s_heap s ! p)"
  have fire: "\<exists>s2. fire rand ?n s1 = (s2, Some False) \<and> s_heap s2 = s_heap s1 \<and> s_entries s2 = s_entries s1"
    if eq: "s_disp s1 = s_disp s" for s1 :: "'a sched"
  proof -
    obtain d e where "submit rand None ?n [] [] (s_disp s1) = (d, Err e)"
      using submit_skipped [OF assms(3,4), of rand None "[]"] eq
      by (cases "submit rand None ?n [] [] (s_disp s)") auto
    then show ?thesis by (simp add: fire_def fire_result_def log_warn_def)
  qed
  have ended: "se_state (s_heap (loop_exit p t) ! p) = LoopEnded \<and> stop_wait p (loop_exit p t) = Ok () \<and>
      map_of (s_entries (loop_exit p t)) (se_id (s_heap t ! p)) = None \<and>
      (\<forall>ev now'. loop_turn rand p ev now' (loop_exit p t) = None)" if "p < length (s_heap t)" for t :: "'a sched"
    using that by (simp add: loop_exit_def update_entry_def remove_entry_def stop_wait_def loop_turn_def every_turn_def
        cron_turn_def one_shot_turn_def delete_conv' split: loop_kind.split)
  have fe: "\<exists>t. fire_entry rand p s1 = loop_exit p t \<and> s_heap t = s_heap s1"
    if s1: "s_disp s1 = s_disp s" "se_name (s_heap s1 ! p) = ?n" for s1
    using fire [OF s1(1)] s1(2) by (auto simp: fire_entry_def after_fire_def split: loop_kind.split)
  obtain s1 where s1: "loop_turn rand p TimerTick now s = Some (fire_entry rand p s1)" "s_disp s1 = s_disp s"
    "se_name (s_heap s1 ! p) = ?n" "se_id (s_heap s1 ! p) = se_id (s_heap s ! p)" "length (s_heap s1) = length (s_heap s)"
  proof (cases "se_kind (s_heap s ! p)")
    case (EveryLoop i)
    show ?thesis
      by (rule that [of "set_next p (now + i) s"])
        (use assms(1,2) EveryLoop in \<open>simp_all add: loop_turn_def every_turn_def set_next_def update_entry_def\<close>)
  qed (use assms(1,2) that [of s] in \<open>simp_all add: loop_turn_def cron_turn_def one_shot_turn_def\<close>)
  obtain t where t: "fire_entry rand p s1 = loop_exit p t" "s_heap t = s_heap s1" using fe [OF s1(2,3)] by blast
  show ?thesis using s1(1,4,5) t ended [of t] assms(1) by auto
qed

text \<open>
  The goroutine of an entry is counted after the registration has given up the lock. A shutdown that
  falls in between does not wait for it: it returns without an error, and the goroutine starts later.
\<close>
theorem shutdown_misses_starting_entry:
  assumes "every rand interval name s = (s1, Ok sn)" "s_heap s = []"
  shows "await_loops ctx (fst (stop_all s1)) = Ok () \<and> length (s_heap s1) = 1 \<and>
    (\<exists>s2. loop_turn rand 0 Spawn now (fst (stop_all s1)) = Some s2 \<and> se_state (s_heap s2 ! 0) = LoopStart)"
proof -
  obtain eid d where s1: "s_heap s1 = [\<lparr>se_id = eid, se_name = name, se_next = zero_time, se_stop = False, se_done = False,
       se_kind = EveryLoop interval, se_state = LoopNew\<rparr>]" "s_stopped s1 = s_stopped s" "\<not> s_stopped s"
    "s_entries s1 = AList.update eid 0 (s_entries s)"
    using assms by (auto simp: every_def add_entry_def new_entry_def new_job_id_def register_def
        split: if_splits option.splits sum.splits)
  have len: "length (s_heap (fst (close_all ps t))) = length (s_heap t) \<and>
      map se_state (s_heap (fst (close_all ps t))) = map se_state (s_heap t) \<and>
      map se_kind (s_heap (fst (close_all ps t))) = map se_kind (s_heap t)" for ps and t :: "'a sched"
    by (induction ps arbitrary: t) (simp_all add: close_stop_def update_entry_def map_update_same)
  obtain e where e: "s_heap (fst (stop_all s1)) = [e]" "se_state e = LoopNew" "se_kind e = EveryLoop interval"
    using s1 len [of "map snd (s_entries s1)" "s1\<lparr>s_stopped := True, s_entries := []\<rparr>"]
    by (auto simp: stop_all_def length_Suc_conv)
  then show ?thesis
    using s1(1) by (simp add: await_loops_def running_loops_def loop_turn_def every_turn_def set_state_def update_entry_def)
qed

section \<open>Witnesses\<close>

text \<open>A scheduler with one entry that fires every ten seconds, and the states it goes through.\<close>

definition sample_s0 :: "unit sched" where
  "sample_s0 = projr (new_scheduler (fixed_zone 0) (Some sample_d1) [])"

definition sample_every :: "unit sched" where
  "sample_every = fst (every sample_rand (10 * second) ''n'' sample_s0)"

definition sample_wait :: "unit sched" where
  "sample_wait = set_state 0 LoopWait (set_state 0 LoopStart sample_every)"

definition sample_fired :: "unit sched" where
  "sample_fired = fire_entry sample_rand 0 (set_next 0 (30 * second) sample_wait)"

lemma sample_s0_new: "new_scheduler (fixed_zone 0) (Some sample_d1) [] = Inr sample_s0"
  by (simp add: sample_s0_def new_scheduler_def)

lemma sample_every_heap: "length (s_heap sample_every) = 1" "se_state (s_heap sample_every ! 0) = LoopNew"
  "se_kind (s_heap sample_every ! 0) = EveryLoop (10 * second)"
  by code_simp+

lemma sample_wait_reach: "sched_reach sample_rand sample_wait"
proof -
  let ?e = "set_state 0 LoopStart sample_every"
  have "sched_step sample_rand sample_s0 sample_every"
    by (rule sched_step.reg_every [where interval = "10 * second" and name = "''n''"
        and r = "snd (every sample_rand (10 * second) ''n'' sample_s0)"]) (simp add: sample_every_def)
  moreover have "sched_step sample_rand sample_every ?e"
    by (rule sched_step.turn [where p = 0 and ev = Spawn and now = 0])
      (simp add: loop_turn_def every_turn_def sample_every_heap)
  moreover have "sched_step sample_rand ?e sample_wait"
    by (rule sched_step.turn [where p = 0 and ev = Arm and now = 0])
      (simp add: loop_turn_def every_turn_def sample_every_heap sample_wait_def set_state_def update_entry_def)
  moreover have "sched_reach sample_rand sample_s0"
    unfolding sched_reach_def using sample_d1_ok sample_s0_new by blast
  ultimately show ?thesis by (blast intro: sched_reach_step)
qed

theorem scheduler_invariant_witness: "snd (stop_all sample_wait) = Ok ()"
  using scheduler_invariant [OF sample_wait_reach] by simp

theorem stopped_scheduler_winds_down_witness:
  "\<exists>s'. loop_turn sample_rand 0 StopSeen 0 (fst (stop_all sample_wait)) = Some s' \<and> stop_wait 0 s' = Ok ()"
proof -
  let ?t = "fst (stop_all sample_wait)"
  have "sched_step sample_rand sample_wait ?t"
    by (rule sched_step.stop_every [where r' = "snd (stop_all sample_wait)"]) simp
  then have r: "sched_reach sample_rand ?t" by (rule sched_reach_step [OF sample_wait_reach])
  have "s_stopped ?t" "length (s_heap ?t) = 1" "se_state (s_heap ?t ! 0) = LoopWait" by code_simp+
  then show ?thesis
    using stopped_scheduler_winds_down [OF r sample_distinct, of 0, where now = 0 and name = "''n''" and kind = "OneShotLoop 0"]
    by auto
qed

definition next_skipped :: "'s sched \<Rightarrow> bool" where
  "next_skipped s \<longleftrightarrow> length (s_heap s) = 1 \<and> se_state (s_heap s ! 0) = LoopWait \<and>
     cfg_conflict (d_cfg (s_disp s)) = ConflictSkip \<and>
     flying (d_in_flight (s_disp s)) (se_name (s_heap s ! 0)) \<noteq> []"

theorem skipped_trigger_ends_schedule_witness:
  "\<exists>s'. loop_turn sample_rand 0 TimerTick (40 * second) sample_fired = Some s' \<and> stop_wait 0 s' = Ok ()"
proof -
  have "next_skipped sample_fired" by code_simp
  then have a: "length (s_heap sample_fired) = 1" "se_state (s_heap sample_fired ! 0) = LoopWait"
    "cfg_conflict (d_cfg (s_disp sample_fired)) = ConflictSkip"
    "flying (d_in_flight (s_disp sample_fired)) (se_name (s_heap sample_fired ! 0)) \<noteq> []"
    by (simp_all add: next_skipped_def)
  from a(1) have "0 < length (s_heap sample_fired)" by simp
  from skipped_trigger_ends_schedule [OF this a(2-4), where rand = sample_rand and now = "40 * second"]
  show ?thesis by blast
qed

end
