(* ===== verification/Scheduler_Ends.thy ===== *)
theory Scheduler_Ends
  imports Scheduler_Inv
begin

text \<open>
  The life of an entry: its goroutine goes through its states in a fixed order, and its end is final. So a
  stopped schedule fires no more, and one that is to fire once does.
\<close>

section \<open>The life of an entry\<close>

inductive loop_moves :: "loop_kind \<Rightarrow> loop_state \<Rightarrow> loop_state \<Rightarrow> bool" where
  spawn: "loop_moves k LoopNew LoopStart"
| arm: "loop_moves k LoopStart LoopWait"
| no_next: "loop_moves (CronLoop e) LoopStart LoopEnded"
| stopped: "loop_moves k LoopWait LoopEnded"
| waits: "loop_moves k LoopWait LoopFiring"
| again_every: "st \<in> {LoopWait, LoopFiring} \<Longrightarrow> loop_moves (EveryLoop i) st LoopWait"
| again_cron: "st \<in> {LoopWait, LoopFiring} \<Longrightarrow> loop_moves (CronLoop e) st LoopStart"
| ends: "loop_moves k LoopFiring LoopEnded"

inductive_simps loop_moves_ended: "loop_moves k LoopEnded st"
inductive_simps loop_moves_once: "loop_moves (OneShotLoop at) LoopFiring st"

definition entry_moves :: "sched_entry \<Rightarrow> sched_entry \<Rightarrow> bool" where
  "entry_moves e e' \<longleftrightarrow> se_id e' = se_id e \<and> se_name e' = se_name e \<and> se_kind e' = se_kind e \<and>
     (se_stop e \<longrightarrow> se_stop e') \<and> (se_state e' = se_state e \<or> loop_moves (se_kind e) (se_state e) (se_state e'))"

definition heap_moves :: "sched_entry list \<Rightarrow> sched_entry list \<Rightarrow> bool" where
  "heap_moves h h' \<longleftrightarrow> length h \<le> length h' \<and> (\<forall>p<length h. entry_moves (h ! p) (h' ! p))"

lemma entry_moves_refl: "entry_moves e e"
  by (simp add: entry_moves_def)

lemma heap_moves_refl: "heap_moves h h"
  by (simp add: heap_moves_def entry_moves_refl)

lemma heap_moves_update:
  assumes "entry_moves (h ! p) e"
  shows "heap_moves h (h[p := e])"
proof -
  have "entry_moves (h ! q) (h[p := e] ! q)" if "q < length h" for q
    by (cases "q = p") (use assms that entry_moves_refl in simp_all)
  then show ?thesis by (simp add: heap_moves_def)
qed

lemma heap_moves_append: "heap_moves h (h @ es)"
  by (simp add: heap_moves_def nth_append entry_moves_refl)

lemma add_entry_heap:
  assumes "add_entry rand name kind s = (s', r)"
  shows "\<exists>es. s_heap s' = s_heap s @ es \<and> ((\<exists>sn. r = Ok sn) \<longrightarrow> es \<noteq> [])"
  using assms by (auto simp: add_entry_def new_entry_def new_job_id_def register_def split: option.splits sum.splits if_splits)

lemma registration_moves:
  "every rand interval name s = (s', r) \<Longrightarrow> heap_moves (s_heap s) (s_heap s')"
  "cron_schedule rand ex name s = (s', r) \<Longrightarrow> heap_moves (s_heap s) (s_heap s')"
  "one_shot rand now at name s = (s', r) \<Longrightarrow> heap_moves (s_heap s) (s_heap s')"
proof -
  have add: "heap_moves (s_heap s) (s_heap s1)" if "add_entry rand name kind s = (s1, r1)" for kind s1 r1
    using add_entry_heap [OF that] heap_moves_append by metis
  show "every rand interval name s = (s', r) \<Longrightarrow> heap_moves (s_heap s) (s_heap s')"
    using add by (auto simp: every_def heap_moves_refl split: if_splits)
  show "cron_schedule rand ex name s = (s', r) \<Longrightarrow> heap_moves (s_heap s) (s_heap s')"
    using add by (auto simp: cron_schedule_def heap_moves_refl split: outcome.splits)
  assume o: "one_shot rand now at name s = (s', r)"
  obtain s1 r1 where a: "add_entry rand name (OneShotLoop at) s = (s1, r1)" by fastforce
  show "heap_moves (s_heap s) (s_heap s')"
  proof (cases "now < at \<and> (\<exists>sn. r1 = Ok sn)")
    case True
    then obtain es where es: "s_heap s1 = s_heap s @ es" "es \<noteq> []" using add_entry_heap [OF a] by blast
    then have "\<not> length (s_heap s) + length es - 1 < length (s_heap s)" by (cases es) auto
    then have "\<exists>fs. s_heap s' = s_heap s @ fs"
      using o a True es by (auto simp: one_shot_def set_next_def update_entry_def list_update_append)
    then show ?thesis using heap_moves_append by metis
  next
    case False
    then show ?thesis using o a add [OF a] by (auto simp: one_shot_def heap_moves_refl split: if_splits outcome.splits)
  qed
qed

lemma fire_heap: "fire rand name s = (s', r) \<Longrightarrow> s_heap s' = s_heap s"
  by (auto simp: fire_def fire_result_def split: prod.splits outcome.splits)

text \<open>One entry changes, and it moves as it may.\<close>

definition moves_at :: "nat \<Rightarrow> 's sched \<Rightarrow> 's sched \<Rightarrow> bool" where
  "moves_at p s s' \<longleftrightarrow> (\<exists>e. s_heap s' = (s_heap s)[p := e] \<and> entry_moves (s_heap s ! p) e)"

lemma moves_at_same: "s_heap s' = s_heap s \<Longrightarrow> moves_at p s s'"
  unfolding moves_at_def using entry_moves_refl [of "s_heap s ! p"] by (intro exI [of _ "s_heap s ! p"]) simp

lemma set_state_moves:
  assumes "loop_moves (se_kind (s_heap s ! p)) (se_state (s_heap s ! p)) st"
  shows "moves_at p s (set_state p st s)"
  unfolding moves_at_def set_state_def update_entry_def
  by (intro exI [of _ "(s_heap s ! p)\<lparr>se_state := st\<rparr>"]) (use assms in \<open>simp add: entry_moves_def\<close>)

lemma loop_exit_moves:
  assumes "loop_moves (se_kind (s_heap s ! p)) (se_state (s_heap s ! p)) LoopEnded"
  shows "moves_at p s (loop_exit p s)"
  unfolding moves_at_def loop_exit_def update_entry_def remove_entry_def
  by (intro exI [of _ "(s_heap s ! p)\<lparr>se_done := True, se_state := LoopEnded\<rparr>"]) (use assms in \<open>simp add: entry_moves_def\<close>)

lemma after_heap: "s_heap s1 = s_heap s \<Longrightarrow> moves_at p s1 s' = moves_at p s s'"
  by (simp add: moves_at_def)

lemma after_set_next:
  assumes "p < length (s_heap s)" "moves_at p (set_next p t s) s'"
  shows "moves_at p s s'"
proof -
  obtain e where e: "s_heap s' = (s_heap (set_next p t s))[p := e]" "entry_moves (s_heap (set_next p t s) ! p) e"
    using assms(2) by (auto simp: moves_at_def)
  then show ?thesis unfolding moves_at_def
    by (intro exI [of _ e]) (use assms(1) in \<open>simp add: set_next_def update_entry_def entry_moves_def\<close>)
qed

lemma after_fire_moves:
  assumes "se_state (s_heap s ! p) \<in> {LoopWait, LoopFiring}"
  shows "moves_at p s (after_fire p ok s)"
proof -
  have "moves_at p s (loop_exit p s)"
    by (rule loop_exit_moves) (use assms in \<open>auto intro: loop_moves.intros\<close>)
  moreover have "moves_at p s (set_state p LoopWait s)" if "se_kind (s_heap s ! p) = EveryLoop i" for i
    by (rule set_state_moves) (use assms that in \<open>auto intro: loop_moves.intros\<close>)
  moreover have "moves_at p s (set_state p LoopStart s)" if "se_kind (s_heap s ! p) = CronLoop e" for e
    by (rule set_state_moves) (use assms that in \<open>auto intro: loop_moves.intros\<close>)
  ultimately show ?thesis by (simp add: after_fire_def split: loop_kind.split)
qed

lemma fire_entry_moves:
  assumes "se_state (s_heap s ! p) = LoopWait"
  shows "moves_at p s (fire_entry rand p s)"
proof -
  obtain s1 r where f: "fire rand (se_name (s_heap s ! p)) s = (s1, r)" by fastforce
  have h: "s_heap s1 = s_heap s" by (rule fire_heap [OF f])
  have "moves_at p s1 (set_state p LoopFiring s1)"
    by (rule set_state_moves) (simp add: h assms loop_moves.waits)
  moreover have "moves_at p s1 (after_fire p ok s1)" for ok by (rule after_fire_moves) (simp add: h assms)
  ultimately show ?thesis using f after_heap [OF h] by (auto simp: fire_entry_def split: option.split)
qed

lemma cron_arm_moves:
  assumes "p < length (s_heap s)" "se_kind (s_heap s ! p) = CronLoop e" "se_state (s_heap s ! p) = LoopStart"
  shows "moves_at p s (cron_arm e p now s)"
proof -
  have "moves_at p (set_next p t s) (set_state p LoopWait (set_next p t s))" for t
    by (rule set_state_moves) (use assms in \<open>simp add: set_next_def update_entry_def loop_moves.arm\<close>)
  moreover have "moves_at p (log_warn l s) (loop_exit p (log_warn l s))" for l
    by (rule loop_exit_moves) (use assms in \<open>simp add: loop_moves.no_next\<close>)
  ultimately show ?thesis
    using after_set_next [OF assms(1)] after_heap [of "log_warn l s" s p for l] moves_at_same [of s s p]
    by (auto simp: cron_arm_def split: option.split sum.split)
qed

lemma loop_turn_moves:
  assumes "loop_turn rand p ev now s = Some s'"
  shows "moves_at p s s'"
proof -
  have p: "p < length (s_heap s)" using assms by (simp add: loop_turn_def split: if_splits)
  have spawn: "moves_at p s (set_state p LoopStart s)" if "se_state (s_heap s ! p) = LoopNew"
    by (rule set_state_moves) (simp add: that loop_moves.spawn)
  have arm: "moves_at p s (set_state p LoopWait s)" if "se_state (s_heap s ! p) = LoopStart"
    by (rule set_state_moves) (simp add: that loop_moves.arm)
  have stop: "moves_at p s (loop_exit p s)" if "se_state (s_heap s ! p) = LoopWait"
    by (rule loop_exit_moves) (simp add: that loop_moves.stopped)
  have tick: "moves_at p s (fire_entry rand p (set_next p t s))" if "se_state (s_heap s ! p) = LoopWait" for t
    by (rule after_set_next [OF p fire_entry_moves]) (use that p in simp)
  show ?thesis
    using assms p spawn arm stop tick fire_entry_moves [of s p rand] cron_arm_moves [OF p]
    by (auto simp: loop_turn_def every_turn_def cron_turn_def one_shot_turn_def see_stop_def
        split: if_splits loop_kind.splits loop_state.splits loop_event.splits)
qed

lemma moves_at_heap: "moves_at p s s' \<Longrightarrow> heap_moves (s_heap s) (s_heap s')"
  by (auto simp: moves_at_def heap_moves_update)

text \<open>Stopping closes stop channels and nothing else.\<close>

definition closes :: "'s sched \<Rightarrow> 's sched \<Rightarrow> bool" where
  "closes s s' \<longleftrightarrow> length (s_heap s') = length (s_heap s) \<and>
     (\<forall>p<length (s_heap s). s_heap s' ! p = s_heap s ! p \<or> s_heap s' ! p = (s_heap s ! p)\<lparr>se_stop := True\<rparr>)"

lemma closes_trans:
  assumes "closes s s1" "closes s1 s2"
  shows "closes s s2"
proof -
  have "s_heap s2 ! p = s_heap s ! p \<or> s_heap s2 ! p = (s_heap s ! p)\<lparr>se_stop := True\<rparr>" if "p < length (s_heap s)" for p
  proof -
    have "s_heap s1 ! p = s_heap s ! p \<or> s_heap s1 ! p = (s_heap s ! p)\<lparr>se_stop := True\<rparr>"
      "s_heap s2 ! p = s_heap s1 ! p \<or> s_heap s2 ! p = (s_heap s1 ! p)\<lparr>se_stop := True\<rparr>"
      using assms that by (simp_all add: closes_def)
    then show ?thesis by (elim disjE) simp_all
  qed
  then show ?thesis using assms by (simp add: closes_def)
qed

lemma closes_heap: "closes s s' \<Longrightarrow> heap_moves (s_heap s) (s_heap s')"
  unfolding closes_def heap_moves_def
  by (metis (no_types, lifting) entry_moves_def entry_moves_refl le_refl sched_entry.select_convs sched_entry.surjective sched_entry.update_convs(4))

lemma close_stop_closes:
  assumes "close_stop p s = (s', r)"
  shows "closes s s'"
proof -
  let ?e = "(s_heap s ! p)\<lparr>se_stop := True\<rparr>"
  have "(s_heap s)[p := ?e] ! q = s_heap s ! q \<or> (s_heap s)[p := ?e] ! q = (s_heap s ! q)\<lparr>se_stop := True\<rparr>"
    if "q < length (s_heap s)" for q using that by (cases "q = p") simp_all
  then have "closes s (update_entry p (\<lambda>e. e\<lparr>se_stop := True\<rparr>) s)" by (simp add: closes_def update_entry_def)
  moreover have "closes s s" by (simp add: closes_def)
  ultimately show ?thesis using assms by (auto simp: close_stop_def split: if_splits)
qed

lemma close_all_closes: "close_all ps s = (s', r) \<Longrightarrow> closes s s'"
proof (induction ps arbitrary: s)
  case Nil
  then show ?case by (simp add: closes_def)
next
  case (Cons p ps)
  obtain s1 r1 where c: "close_stop p s = (s1, r1)" by fastforce
  show ?case using Cons.prems Cons.IH [of s1] c close_stop_closes [OF c] closes_trans
    by (cases r1) auto
qed

lemma stopping_moves:
  "stop_entry eid s = (s', r) \<Longrightarrow> heap_moves (s_heap s) (s_heap s')"
  "stop_all s = (s', r') \<Longrightarrow> heap_moves (s_heap s) (s_heap s')"
proof -
  have h: "heap_moves (s_heap s) (s_heap t')" if "closes t t'" "s_heap t = s_heap s" for t t' :: "'a sched"
    using closes_heap [OF that(1)] that(2) by simp
  show "stop_entry eid s = (s', r) \<Longrightarrow> heap_moves (s_heap s) (s_heap s')"
    using h [OF close_stop_closes]
    by (fastforce simp: stop_entry_def remove_entry_def heap_moves_refl split: option.splits prod.splits outcome.splits)
  show "stop_all s = (s', r') \<Longrightarrow> heap_moves (s_heap s) (s_heap s')"
    using h [OF close_all_closes] by (fastforce simp: stop_all_def heap_moves_refl split: if_splits)
qed

section \<open>Every step\<close>

lemma sched_step_moves:
  assumes "sched_step rand s s'"
  shows "heap_moves (s_heap s) (s_heap s')"
  using assms
proof cases
  case reg_every then show ?thesis by (rule registration_moves)
next
  case reg_cron then show ?thesis by (rule registration_moves)
next
  case reg_once then show ?thesis by (rule registration_moves)
next
  case turn then show ?thesis using loop_turn_moves moves_at_heap by blast
next
  case (fired p d' r s1 ok)
  have h: "s_heap s1 = s_heap s" using fired(5) by (auto simp: fire_result_def split: outcome.splits)
  have "moves_at p s1 (after_fire p ok s1)" by (rule after_fire_moves) (simp add: h fired(3))
  then show ?thesis using fired(1) after_heap [OF h] moves_at_heap by blast
next
  case stop_one then show ?thesis by (rule stopping_moves)
next
  case stop_every then show ?thesis by (rule stopping_moves)
next
  case dispatcher then show ?thesis by (simp add: heap_moves_refl)
qed

text \<open>What an entry may not leave again.\<close>

lemma entry_stays:
  assumes "(sched_step rand)\<^sup>*\<^sup>* s s'" "p < length (s_heap s)" "P (s_heap s ! p)"
    and "\<And>e e'. P e \<Longrightarrow> entry_moves e e' \<Longrightarrow> P e'"
  shows "p < length (s_heap s') \<and> P (s_heap s' ! p)"
  using assms(1)
proof (induction rule: rtranclp_induct)
  case base
  then show ?case using assms(2,3) by simp
next
  case (step y z)
  have "heap_moves (s_heap y) (s_heap z)" by (rule sched_step_moves [OF step(2)])
  then have "length (s_heap y) \<le> length (s_heap z)" "entry_moves (s_heap y ! p) (s_heap z ! p)"
    using step(3) by (simp_all add: heap_moves_def)
  then show ?case using step(3) assms(4) by (meson order_less_le_trans)
qed

text \<open>
  C24: \<open>Stop\<close> is final. Once it has returned for an entry, that is once the \<open>done\<close> channel of the entry is
  closed, no turn of its goroutine is left in any continuation, so it submits nothing any more.
\<close>
theorem stop_is_final:
  assumes "sched_reach rand s" "p < length (s_heap s)" "stop_wait p s = Ok ()" "(sched_step rand)\<^sup>*\<^sup>* s s'"
  shows "loop_turn rand p ev now s' = None \<and> stop_wait p s' = Ok ()"
proof -
  have "se_state (s_heap s ! p) = LoopEnded" "se_done (s_heap s ! p)"
    using sched_reach_ok [OF assms(1)] assms(2,3)
    by (simp_all add: sched_ok_def done_ok_def list_all_length stop_wait_def split: if_splits)
  then have p: "p < length (s_heap s')" "se_state (s_heap s' ! p) = LoopEnded"
    using entry_stays [OF assms(4,2), of "\<lambda>e. se_state e = LoopEnded"] by (auto simp: entry_moves_def loop_moves_ended)
  have "sched_ok rand s'"
    using assms(4) sched_reach_ok [OF assms(1)] by induction (auto intro: sched_step_ok)
  then have "se_done (s_heap s' ! p)" using p by (simp add: sched_ok_def done_ok_def list_all_length)
  then show ?thesis using p
    by (simp add: stop_wait_def loop_turn_def every_turn_def cron_turn_def one_shot_turn_def split: loop_kind.split)
qed

text \<open>
  C25: A schedule of \<open>OneShot\<close> fires at most once: after a turn in which its timer ended, its timer does
  not end again in any continuation.
\<close>
theorem one_shot_fires_once:
  assumes "se_kind (s_heap s ! p) = OneShotLoop at" "loop_turn rand p TimerTick now s = Some s1"
    and "(sched_step rand)\<^sup>*\<^sup>* s1 s'"
  shows "loop_turn rand p TimerTick now' s' = None"
proof -
  let ?P = "\<lambda>e. se_kind e = OneShotLoop at \<and> se_state e \<in> {LoopFiring, LoopEnded}"
  have p: "p < length (s_heap s)" using assms(2) by (simp add: loop_turn_def split: if_splits)
  have t: "s1 = fire_entry rand p s" "se_state (s_heap s ! p) = LoopWait"
    using assms(1,2) by (auto simp: loop_turn_def one_shot_turn_def split: if_splits loop_state.splits)
  obtain s2 r where f: "fire rand (se_name (s_heap s ! p)) s = (s2, r)" by fastforce
  have "?P (s_heap s1 ! p)" "p < length (s_heap s1)"
    using t(1) f fire_heap [OF f] p assms(1)
    by (auto simp: fire_entry_def after_fire_def set_state_def loop_exit_def update_entry_def remove_entry_def split: option.split)
  then have "p < length (s_heap s') \<and> ?P (s_heap s' ! p)"
    by (intro entry_stays [OF assms(3)]) (auto simp: entry_moves_def loop_moves_ended loop_moves_once)
  then show ?thesis by (auto simp: loop_turn_def one_shot_turn_def)
qed

section \<open>Witnesses\<close>

definition sample_stopped :: "unit sched" where
  "sample_stopped = loop_exit 0 (fst (stop_entry ''a'' sample_wait))"

definition sample_once :: "unit sched" where
  "sample_once = set_state 0 LoopWait (fst (one_shot sample_rand 0 1000 ''n'' sample_s0))"

text \<open>The first goroutine waits for its timer, and whether its stop channel is closed.\<close>

definition waiting_first :: "bool \<Rightarrow> 's sched \<Rightarrow> bool" where
  "waiting_first stopped s \<longleftrightarrow> length (s_heap s) = 1 \<and> se_state (s_heap s ! 0) = LoopWait \<and> se_stop (s_heap s ! 0) = stopped"

theorem stop_is_final_witness:
  "loop_turn sample_rand 0 TimerTick 5 (sample_stopped\<lparr>s_disp := s_disp sample_stopped\<rparr>) = None"
proof -
  let ?s1 = "fst (stop_entry ''a'' sample_wait)"
  have w: "waiting_first True ?s1" "waiting_first False sample_wait" "se_kind (s_heap ?s1 ! 0) = EveryLoop (10 * second)" by code_simp+
  have "sched_step sample_rand sample_wait ?s1"
    by (rule sched_step.stop_one [where eid = "''a''" and r = "snd (stop_entry ''a'' sample_wait)"]) simp
  moreover have "loop_turn sample_rand 0 StopSeen 0 ?s1 = Some sample_stopped"
    using w by (simp add: loop_turn_def every_turn_def see_stop_def sample_stopped_def waiting_first_def)
  then have "sched_step sample_rand ?s1 sample_stopped" by (rule sched_step.turn)
  ultimately have r: "sched_reach sample_rand sample_stopped"
    using sched_reach_step [OF sched_reach_step [OF sample_wait_reach]] by blast
  have len: "0 < length (s_heap sample_stopped)" and "stop_wait 0 sample_stopped = Ok ()"
    using w(1) by (simp_all add: sample_stopped_def waiting_first_def loop_exit_def update_entry_def remove_entry_def stop_wait_def)
  moreover have "disp_ok (s_disp sample_stopped) (s_disp sample_stopped)" using sched_reach_ok [OF r] by (simp add: sched_ok_def)
  then have "(sched_step sample_rand)\<^sup>*\<^sup>* sample_stopped (sample_stopped\<lparr>s_disp := s_disp sample_stopped\<rparr>)"
    by (intro r_into_rtranclp sched_step.dispatcher)
  ultimately show ?thesis using stop_is_final [OF r len] by blast
qed

theorem one_shot_fires_once_witness:
  "\<exists>s1. loop_turn sample_rand 0 TimerTick 1000 sample_once = Some s1 \<and> loop_turn sample_rand 0 TimerTick 2000 s1 = None"
proof -
  have w: "waiting_first False sample_once" "se_kind (s_heap sample_once ! 0) = OneShotLoop 1000" by code_simp+
  then obtain s1 where "loop_turn sample_rand 0 TimerTick 1000 sample_once = Some s1"
    by (cases "s_heap sample_once") (auto simp: loop_turn_def one_shot_turn_def waiting_first_def)
  with one_shot_fires_once [OF w(2) this rtranclp.rtrancl_refl] show ?thesis by blast
qed

end
