(* ===== verification/Service.thy ===== *)
theory Service
  imports Scheduler_Inv Simulations
begin

text \<open>
  A scheduler and its dispatcher together. The turns of the scheduler's goroutines submit jobs to the
  dispatcher and draw identifiers from its source; the dispatcher moves on its own. A run of the two is
  a run of the dispatcher, for which the triggers are submissions like others, and a run of the
  scheduler, so what the other theories say of each holds of both together.
\<close>

section \<open>Steps\<close>

text \<open>
  \<open>sv_firing\<close> names the job of each entry whose submission waits for room in the ready queue. The
  scheduler's reference to its dispatcher is the state of the dispatcher in \<open>sv_world\<close>.
\<close>

record 's service =
  sv_sched :: "'s sched"
  sv_world :: "'s world"
  sv_firing :: "nat \<Rightarrow> string option"

definition follow :: "'s sched \<Rightarrow> 's world \<Rightarrow> 's world" where
  "follow s w = w\<lparr>w_disp := s_disp s\<rparr>"

inductive service_step :: "(nat \<Rightarrow> go_err + string) \<Rightarrow> 's service \<Rightarrow> 's service \<Rightarrow> bool" for rand where
  reg_every: "every rand interval name s = (s', r) \<Longrightarrow> sv_sched v = s \<Longrightarrow>
    service_step rand v (v\<lparr>sv_sched := s', sv_world := follow s' (sv_world v)\<rparr>)"
| reg_cron: "cron_schedule rand ex name s = (s', r) \<Longrightarrow> sv_sched v = s \<Longrightarrow>
    service_step rand v (v\<lparr>sv_sched := s', sv_world := follow s' (sv_world v)\<rparr>)"
| reg_once: "one_shot rand now at name s = (s', r) \<Longrightarrow> sv_sched v = s \<Longrightarrow>
    service_step rand v (v\<lparr>sv_sched := s', sv_world := follow s' (sv_world v)\<rparr>)"
| stop_one: "stop_entry eid s = (s', r) \<Longrightarrow> sv_sched v = s \<Longrightarrow> service_step rand v (v\<lparr>sv_sched := s'\<rparr>)"
| stop_every: "stop_all s = (s', r) \<Longrightarrow> sv_sched v = s \<Longrightarrow> service_step rand v (v\<lparr>sv_sched := s'\<rparr>)"
| turn: "loop_turn rand p ev now s = Some s' \<Longrightarrow> sv_sched v = s \<Longrightarrow> se_state (s_heap s' ! p) \<noteq> LoopFiring \<Longrightarrow>
    service_step rand v (v\<lparr>sv_sched := s', sv_world := follow s' (sv_world v)\<rparr>)"
| turn_waits: "loop_turn rand p ev now s = Some s' \<Longrightarrow> sv_sched v = s \<Longrightarrow> se_state (s_heap s' ! p) = LoopFiring \<Longrightarrow>
    built_job rand (se_name (s_heap s ! p)) [] [] (s_disp s) = Some j \<Longrightarrow>
    service_step rand v (v\<lparr>sv_sched := s',
      sv_world := (follow s' (sv_world v))\<lparr>w_waiting := w_waiting (sv_world v) @ [j]\<rparr>,
      sv_firing := (sv_firing v)(p \<mapsto> job_id j)\<rparr>)"
| fired: "sv_sched v = s \<Longrightarrow> sv_world v = w \<Longrightarrow> p < length (s_heap s) \<Longrightarrow> se_state (s_heap s ! p) = LoopFiring \<Longrightarrow>
    i < length (w_waiting w) \<Longrightarrow> sv_firing v p = Some (job_id (w_waiting w ! i)) \<Longrightarrow>
    submit_push None (w_waiting w ! i) (w_disp w) = (d', r) \<Longrightarrow>
    fire_result (se_name (s_heap s ! p)) r (s\<lparr>s_disp := d'\<rparr>) = (s1, Some ok) \<Longrightarrow>
    service_step rand v (v\<lparr>sv_sched := after_fire p ok s1,
      sv_world := w\<lparr>w_disp := d', w_waiting := remove_nth i (w_waiting w)\<rparr>,
      sv_firing := (sv_firing v)(p := None)\<rparr>)"
| dispatcher: "world_step rand (sv_world v) w' \<Longrightarrow>
    \<forall>p i. sv_firing v p = Some i \<longrightarrow> i \<in> job_id ` set (w_waiting w') \<Longrightarrow>
    service_step rand v (v\<lparr>sv_sched := (sv_sched v)\<lparr>s_disp := w_disp w'\<rparr>, sv_world := w'\<rparr>)"

text \<open>A scheduler is made for a dispatcher in any state; the two then go on together.\<close>

inductive service_reach ::
  "(nat \<Rightarrow> go_err + string) \<Rightarrow> clock \<Rightarrow> 's \<Rightarrow> 's dispatcher_option list \<Rightarrow> 's service \<Rightarrow> bool"
  for rand time_now st opts where
  start: "world_reach rand time_now st opts w \<Longrightarrow> new_scheduler loc (Some (w_disp w)) sopts = Inr s \<Longrightarrow>
    service_reach rand time_now st opts \<lparr>sv_sched = s, sv_world = w, sv_firing = Map.empty\<rparr>"
| step: "service_reach rand time_now st opts v \<Longrightarrow> service_step rand v v' \<Longrightarrow> service_reach rand time_now st opts v'"

section \<open>What a turn does to the dispatcher\<close>

lemma set_parts_disp [simp]:
  "s_disp (set_state p st s) = s_disp s" "s_disp (set_next p t s) = s_disp s" "s_disp (loop_exit p s) = s_disp s"
  "s_disp (log_warn l s) = s_disp s" "s_disp (after_fire p ok s) = s_disp s"
  by (simp_all add: set_state_def set_next_def loop_exit_def update_entry_def remove_entry_def log_warn_def after_fire_def
      split: loop_kind.split)

lemma stop_disp:
  "stop_entry eid s = (s', r) \<Longrightarrow> s_disp s' = s_disp s" "stop_all s = (s', r') \<Longrightarrow> s_disp s' = s_disp s"
proof -
  have "s_disp (fst (close_all ps t)) = s_disp t" for ps and t :: "'a sched"
    by (induction ps arbitrary: t) (auto simp: close_stop_def update_entry_def)
  from this [of "map snd (s_entries s)" "s\<lparr>s_stopped := True, s_entries := []\<rparr>"]
  show "stop_all s = (s', r') \<Longrightarrow> s_disp s' = s_disp s" by (auto simp: stop_all_def split: if_splits)
  show "stop_entry eid s = (s', r) \<Longrightarrow> s_disp s' = s_disp s"
    by (auto simp: stop_entry_def close_stop_def remove_entry_def update_entry_def split: option.splits if_splits)
qed

text \<open>A registration draws at most one identifier.\<close>

lemma add_entry_disp:
  assumes "add_entry rand name kind s = (s', r)"
  shows "s_disp s' = s_disp s \<or> (\<exists>x. new_job_id rand (s_disp s) = (s_disp s', x))"
  using assms by (auto simp: add_entry_def new_entry_def new_job_id_def register_def split: option.splits sum.splits if_splits)

lemma registration_disp:
  "every rand interval name s = (s', r) \<Longrightarrow> s_disp s' = s_disp s \<or> (\<exists>x. new_job_id rand (s_disp s) = (s_disp s', x))"
  "cron_schedule rand ex name s = (s', r) \<Longrightarrow> s_disp s' = s_disp s \<or> (\<exists>x. new_job_id rand (s_disp s) = (s_disp s', x))"
  "one_shot rand now at name s = (s', r) \<Longrightarrow> s_disp s' = s_disp s \<or> (\<exists>x. new_job_id rand (s_disp s) = (s_disp s', x))"
  using add_entry_disp by (fastforce simp: every_def cron_schedule_def one_shot_def split: if_splits outcome.splits prod.splits)+

text \<open>A turn submits one job or leaves the dispatcher alone; it waits exactly when its submission does.\<close>

definition submits :: "(nat \<Rightarrow> go_err + string) \<Rightarrow> nat \<Rightarrow> 's sched \<Rightarrow> 's sched \<Rightarrow> bool" where
  "submits rand p s s' \<longleftrightarrow>
     (\<exists>r. submit rand None (se_name (s_heap s ! p)) [] [] (s_disp s) = (s_disp s', r) \<and>
        (se_state (s_heap s' ! p) = LoopFiring \<longleftrightarrow> r = NoReturn \<or> r = Panic))"

lemma fire_entry_submits:
  assumes "p < length (s_heap s)"
  shows "submits rand p s (fire_entry rand p s)"
proof -
  obtain d r where d: "submit rand None (se_name (s_heap s ! p)) [] [] (s_disp s) = (d, r)" by fastforce
  have "se_state (s_heap (set_state p st t) ! p) = st" "se_state (s_heap (loop_exit p t) ! p) = LoopEnded"
    if "s_heap t = s_heap s" for st and t :: "'a sched"
    using that assms by (simp_all add: set_state_def loop_exit_def update_entry_def remove_entry_def)
  then show ?thesis using d
    by (cases r) (auto simp: submits_def fire_entry_def fire_def fire_result_def after_fire_def split: loop_kind.split)
qed

lemma loop_turn_disp:
  assumes "loop_turn rand p ev now s = Some s'"
  shows "(s_disp s' = s_disp s \<and> se_state (s_heap s' ! p) \<noteq> LoopFiring) \<or> submits rand p s s'"
proof -
  have p: "p < length (s_heap s)" using assms by (simp add: loop_turn_def split: if_splits)
  have calm: "se_state (s_heap (set_state p st t) ! p) = st" "se_state (s_heap (loop_exit p t) ! p) = LoopEnded"
    if "length (s_heap t) = length (s_heap s)" for st and t :: "'a sched"
    using that p by (simp_all add: set_state_def loop_exit_def update_entry_def remove_entry_def)
  have later: "submits rand p s x" if "submits rand p (set_next p t s) x" for t x
    using that p by (simp add: submits_def set_next_def update_entry_def)
  show ?thesis
    using assms p calm fire_entry_submits [OF p] later [OF fire_entry_submits]
    by (auto simp: loop_turn_def every_turn_def cron_turn_def one_shot_turn_def see_stop_def cron_arm_def
        split: if_splits loop_kind.splits loop_state.splits loop_event.splits option.splits sum.splits)
qed

lemma submit_push_no_panic: "submit_push ctx j d = (d', r) \<Longrightarrow> r \<noteq> Panic"
  by (auto simp: submit_push_def enqueue_ready_def rq_push_def push_attempt_def
      split: prod.splits outcome.splits if_splits option.splits)

lemma submit_no_panic:
  assumes "submit_with_options rand ctx name payload opts d = (d', r)"
  shows "r \<noteq> Panic"
proof -
  have now: "y \<noteq> Panic" if "submit_now ctx j x = (x', y)" for j x x' y
    using that submit_push_no_panic by (fastforce simp: submit_now_def split: prod.splits option.splits)
  have later: "y \<noteq> Panic" if "submit_later j x = (x', y)" for j x x' y
    using that by (auto simp: submit_later_def split: prod.splits option.splits)
  have entry: "y \<noteq> Panic" if e: "submit_entry ctx j x = (x', y)" for j x x' y
    using e now later by (fastforce simp: submit_entry_def Let_def split: prod.splits option.splits if_splits)
  show ?thesis using assms entry by (fastforce simp: submit_with_options_def split: sum.splits prod.splits)
qed

text \<open>Only a submission that has built its job waits.\<close>

lemma submit_waits_built:
  assumes "submit_with_options rand ctx name payload opts d = (d', NoReturn)"
  shows "\<exists>j. built_job rand name payload opts d = Some j"
  using assms by (auto simp: submit_with_options_def built_job_def split: sum.splits prod.splits)

section \<open>The two projections\<close>

definition service_ok :: "'s service \<Rightarrow> bool" where
  "service_ok v \<longleftrightarrow> world_ok (w_disp (sv_world v)) (sv_world v) \<and> s_disp (sv_sched v) = w_disp (sv_world v)"

lemma follow_same: "s_disp s = w_disp w \<Longrightarrow> follow s w = w"
  by (simp add: follow_def)

lemma follow_draw:
  assumes "s_disp s' = w_disp w \<or> (\<exists>x. new_job_id rand (w_disp w) = (s_disp s', x))"
  shows "(world_step rand)\<^sup>*\<^sup>* w (follow s' w)"
proof (cases "s_disp s' = w_disp w")
  case True
  then show ?thesis by (simp add: follow_same)
next
  case False
  then obtain x where "new_job_id rand (w_disp w) = (s_disp s', x)" using assms by blast
  then show ?thesis unfolding follow_def by (intro r_into_rtranclp world_step.draw)
qed

lemma turn_world:
  assumes "submits rand p s s'" "s_disp s = w_disp w"
  shows "se_state (s_heap s' ! p) \<noteq> LoopFiring \<Longrightarrow> world_step rand w (follow s' w)"
    and "se_state (s_heap s' ! p) = LoopFiring \<Longrightarrow> built_job rand (se_name (s_heap s ! p)) [] [] (s_disp s) = Some j \<Longrightarrow>
      world_step rand w ((follow s' w)\<lparr>w_waiting := w_waiting w @ [j]\<rparr>)"
proof -
  let ?n = "se_name (s_heap s ! p)"
  obtain r where r: "submit_with_options rand None ?n [] [] (w_disp w) = (s_disp s', r)"
    "se_state (s_heap s' ! p) = LoopFiring \<longleftrightarrow> r = NoReturn \<or> r = Panic"
    using assms by (auto simp: submits_def submit_def)
  have np: "r \<noteq> Panic" by (rule submit_no_panic [OF r(1)])
  have st: "world_step rand w (w\<lparr>w_disp := s_disp s', w_waiting :=
      (case (r, built_job rand ?n [] [] (w_disp w)) of (NoReturn, Some j) \<Rightarrow> w_waiting w @ [j] | _ \<Rightarrow> w_waiting w)\<rparr>)"
    by (rule world_step.submit [OF _ r(1)]) simp
  show "world_step rand w (follow s' w)" if "se_state (s_heap s' ! p) \<noteq> LoopFiring"
    using st that r(2) by (cases r) (simp_all add: follow_def)
  show "world_step rand w ((follow s' w)\<lparr>w_waiting := w_waiting w @ [j]\<rparr>)"
    if "se_state (s_heap s' ! p) = LoopFiring" "built_job rand ?n [] [] (s_disp s) = Some j"
    using st that r(2) np assms(2) by (simp add: follow_def)
qed

lemma service_step_parts:
  assumes "service_step rand v v'" "service_ok v"
  shows "(world_step rand)\<^sup>*\<^sup>* (sv_world v) (sv_world v') \<and> s_disp (sv_sched v') = w_disp (sv_world v') \<and>
    (disp_ok (w_disp (sv_world v)) (w_disp (sv_world v')) \<longrightarrow> sched_step rand (sv_sched v) (sv_sched v'))"
proof -
  have same: "s_disp (sv_sched v) = w_disp (sv_world v)" using assms(2) by (simp add: service_ok_def)
  show ?thesis using assms(1)
  proof cases
    case (reg_every interval name s s' r)
    then show ?thesis using follow_draw [of s' "sv_world v" rand] registration_disp(1) [OF reg_every(2)] same
      by (auto simp: follow_def intro: sched_step.reg_every)
  next
    case (reg_cron ex name s s' r)
    then show ?thesis using follow_draw [of s' "sv_world v" rand] registration_disp(2) [OF reg_cron(2)] same
      by (auto simp: follow_def intro: sched_step.reg_cron)
  next
    case (reg_once now at name s s' r)
    then show ?thesis using follow_draw [of s' "sv_world v" rand] registration_disp(3) [OF reg_once(2)] same
      by (auto simp: follow_def intro: sched_step.reg_once)
  next
    case (stop_one eid s s' r)
    then show ?thesis using stop_disp(1) [OF stop_one(2)] same by (auto intro: sched_step.stop_one)
  next
    case (stop_every s s' r)
    then show ?thesis using stop_disp(2) [OF stop_every(2)] same by (auto intro: sched_step.stop_every)
  next
    case (turn p ev now s s')
    have "(world_step rand)\<^sup>*\<^sup>* (sv_world v) (follow s' (sv_world v))"
      using loop_turn_disp [OF turn(2)] turn_world(1) [OF _ _ turn(4)] turn(3) same follow_same by (metis r_into_rtranclp rtranclp.rtrancl_refl)
    then show ?thesis using turn sched_step.turn [OF turn(2)] by (simp add: follow_def)
  next
    case (turn_waits p ev now s s' j)
    have "submits rand p s s'" using loop_turn_disp [OF turn_waits(2)] turn_waits(4) by simp
    from turn_world(2) [OF this _ turn_waits(4,5)] show ?thesis
      using turn_waits sched_step.turn [OF turn_waits(2)] same by (auto simp: follow_def)
  next
    case (fired s w p i d' r s1 ok)
    have "r \<noteq> NoReturn" using fired(9) by (auto simp: fire_result_def)
    then have "world_step rand w (w\<lparr>w_disp := d', w_waiting := remove_nth i (w_waiting w)\<rparr>)"
      using world_step.resume [OF fired(6,8), of rand] by simp
    moreover have "s_disp s1 = d'" using fired(9) by (auto simp: fire_result_def split: outcome.splits)
    ultimately show ?thesis using fired same sched_step.fired [OF fired(4,5) _ fired(9)] by auto
  next
    case (dispatcher w')
    then show ?thesis using same sched_step.dispatcher [of "sv_sched v" "w_disp w'" rand] by auto
  qed
qed

lemma service_step_kept:
  assumes "service_step rand v v'" "service_ok v"
  shows "service_ok v' \<and> sched_step rand (sv_sched v) (sv_sched v')"
proof -
  note parts = service_step_parts [OF assms]
  have ok: "world_ok (w_disp (sv_world v)) (sv_world v')"
    using world_steps_ok parts assms(2) unfolding service_ok_def by blast
  then have "disp_ok (w_disp (sv_world v)) (w_disp (sv_world v'))" by (simp add: world_ok_def)
  then show ?thesis using parts world_ok_refl [OF ok] by (simp add: service_ok_def)
qed

interpretation to_world: simulation "service_step rand" service_ok "world_step rand" sv_world for rand
  by unfold_locales (use service_step_kept service_step_parts in blast)+

interpretation to_sched: simulation "service_step rand" service_ok "sched_step rand" sv_sched for rand
  by unfold_locales (use service_step_kept in blast)+

lemma service_reach_ok:
  "service_reach rand time_now st opts v \<Longrightarrow>
    service_ok v \<and> world_reach rand time_now st opts (sv_world v) \<and> sched_reach rand (sv_sched v)"
proof (induction rule: service_reach.induct)
  case (start w loc sopts s)
  obtain b where "world_ok b w" using world_reach_ok [OF start(1)] by blast
  then have w: "world_ok (w_disp w) w" by (rule world_ok_refl)
  moreover have "s_disp s = w_disp w" using start(2) by (auto simp: new_scheduler_def split: sum.splits)
  moreover have "sched_reach rand s"
    unfolding sched_reach_def using w start(2) by (auto simp: world_ok_def)
  ultimately show ?case using start(1) by (simp add: service_ok_def)
next
  case (step v v')
  then have "service_ok v'" "sched_reach rand (sv_sched v')"
    using service_step_kept [OF step(2)] sched_reach_step by blast+
  moreover have "(world_step rand)\<^sup>*\<^sup>* (sv_world v) (sv_world v')"
    using service_step_parts [OF step(2)] step(3) by blast
  then have "world_reach rand time_now st opts (sv_world v')"
    by (induction rule: rtranclp_induct) (use step(3) in \<open>auto intro: world_reach.step\<close>)
  ultimately show ?case by simp
qed

section \<open>Property\<close>

text \<open>
  C7: A scheduler and its dispatcher work together as each does alone. Every state that the two reach,
  by registrations, triggers that submit at once or wait for room, stops, shutdowns and whatever the
  dispatcher does in between, holds a state that the dispatcher reaches by itself, the triggers being
  submissions, and a state that the scheduler reaches by itself, and the scheduler sees the dispatcher as
  it is. So the properties of each hold of both together.
\<close>
theorem service_refines_parts:
  assumes "service_reach rand time_now st opts v"
  shows "world_reach rand time_now st opts (sv_world v) \<and> sched_reach rand (sv_sched v) \<and>
    s_disp (sv_sched v) = w_disp (sv_world v)"
  using service_reach_ok [OF assms] by (simp add: service_ok_def)

text \<open>A schedule that has fired once.\<close>

definition sample_service :: "unit service" where
  "sample_service = \<lparr>sv_sched = sample_fired, sv_world = (start_world sample_d0)\<lparr>w_disp := s_disp sample_fired\<rparr>,
     sv_firing = Map.empty\<rparr>"

lemma sample_service_reach: "service_reach sample_rand sample_clock () [] sample_service"
proof -
  let ?w = "\<lambda>d. (start_world sample_d0)\<lparr>w_disp := d\<rparr>"
  let ?v = "\<lambda>s. \<lparr>sv_sched = s, sv_world = ?w (s_disp s), sv_firing = Map.empty\<rparr> :: unit service"
  let ?reach = "service_reach sample_rand sample_clock () []"
  have v: "follow s' (sv_world (?v s)) = ?w (s_disp s')" for s s' by (simp add: follow_def)
  have r0: "world_reach sample_rand sample_clock () [] (start_world sample_d0)"
    by (rule world_reach.start [OF _ sample_d0_new]) simp
  have "world_step sample_rand (start_world sample_d0) (?w sample_d1)"
    by (rule world_step.register [where name = "''n''" and h = "Some 7" and e = "snd (register_handler ''n'' (Some 7) sample_d0)"])
      (simp add: sample_d1_def start_world_def)
  with r0 have "world_reach sample_rand sample_clock () [] (?w sample_d1)" by (rule world_reach.step)
  moreover have d: "s_disp sample_s0 = sample_d1" by (simp add: sample_s0_def new_scheduler_def)
  ultimately have "?reach (?v sample_s0)"
    using service_reach.start [of sample_rand sample_clock "()" "[]" "?w sample_d1" "fixed_zone 0" "[]" sample_s0] sample_s0_new by simp
  moreover have "service_step sample_rand (?v sample_s0) (?v sample_every)"
    using service_step.reg_every [of sample_rand "10 * second" "''n''" sample_s0 sample_every _ "?v sample_s0"] v [of sample_every sample_s0]
    by (simp add: sample_every_def prod_eq_iff)
  ultimately have "?reach (?v sample_every)" by (rule service_reach.step)
  moreover have turn: "service_step sample_rand (?v s) (?v s')"
    if "loop_turn sample_rand 0 ev now s = Some s'" "se_state (s_heap s' ! 0) \<noteq> LoopFiring" for s s' ev now
    using service_step.turn [OF that(1), of "?v s"] that(2) v [of s' s] by simp
  let ?e = "set_state 0 LoopStart sample_every"
  have "service_step sample_rand (?v sample_every) (?v ?e)"
    by (rule turn [of Spawn 0]) (simp_all add: loop_turn_def every_turn_def sample_every_heap set_state_def update_entry_def)
  moreover have "service_step sample_rand (?v ?e) (?v sample_wait)"
    by (rule turn [of Arm 0])
      (simp_all add: loop_turn_def every_turn_def sample_every_heap sample_wait_def set_state_def update_entry_def)
  moreover have "loop_turn sample_rand 0 TimerTick (20 * second) sample_wait = Some sample_fired"
    by (simp add: loop_turn_def every_turn_def sample_every_heap sample_wait_def sample_fired_def set_state_def
        update_entry_def second_def)
  moreover have "se_state (s_heap sample_fired ! 0) \<noteq> LoopFiring" by code_simp
  ultimately show ?thesis
    unfolding sample_service_def using turn [of TimerTick "20 * second" sample_wait sample_fired] by (meson service_reach.step)
qed

theorem service_refines_parts_witness:
  "world_reach sample_rand sample_clock () [] (sv_world sample_service) \<and>
   length (rq_items (d_ready (w_disp (sv_world sample_service)))) = 1"
proof -
  have "length (rq_items (d_ready (w_disp (sv_world sample_service)))) = 1" by code_simp
  with service_refines_parts [OF sample_service_reach] show ?thesis by simp
qed

end
