(* ===== verification/Calendar.thy ===== *)
theory Calendar
  imports Scheduler
begin

text \<open>
  \<open>EveryMinuteAt\<close>, \<open>EveryHourAt\<close>, \<open>DailyAt\<close> and \<open>WeeklyAt\<close> print their arguments into a
  cron expression and give it to \<open>Cron\<close>. What the printed expression is read back as, and when the
  schedule fires.
\<close>

section \<open>Fields\<close>

lemma number_field:
  assumes "0 \<le> mn" "mx < 60" "mn \<le> n" "n \<le> mx"
  shows "\<exists>f. parse_field fld mn mx (show_int n) = Ok f \<and> (\<forall>k. 0 \<le> k \<and> k < 60 \<longrightarrow> (in_field f k \<longleftrightarrow> k = n)) \<and> \<not> f_all f"
proof -
  have ok: "\<forall>it\<in>set [Single n None]. item_ok mn mx it"
    using assms by (simp add: item_ok_def step_value_def int64_defs)
  have s: "show_items [Single n None] = show_int n" by (simp add: show_item_def)
  have h: "item_has mn mx (Single n None) k \<longleftrightarrow> k = n" for k by (auto simp: item_has_def step_value_def)
  show ?thesis
    using parse_items_back [OF _ ok assms(1,2), of fld] unfolding s by (auto simp: h item_star_def)
qed

lemma star_field:
  assumes "0 \<le> mn" "mn \<le> mx" "mx < 60"
  shows "\<exists>f. parse_field fld mn mx ''*'' = Ok f \<and> (\<forall>k. 0 \<le> k \<and> k < 60 \<longrightarrow> (in_field f k \<longleftrightarrow> mn \<le> k \<and> k \<le> mx)) \<and> f_all f"
proof -
  have ok: "\<forall>it\<in>set [Star None]. item_ok mn mx it"
    using assms by (simp add: item_ok_def step_value_def int64_defs)
  have s: "show_items [Star None] = ''*''" by (simp add: show_item_def)
  have h: "item_has mn mx (Star None) k \<longleftrightarrow> mn \<le> k \<and> k \<le> mx" for k by (auto simp: item_has_def step_value_def)
  show ?thesis
    using parse_items_back [OF _ ok assms(1,3), of fld] unfolding s by (auto simp: h item_star_def)
qed

text \<open>A number out of its bounds is refused; a negative one reads as a range without a start.\<close>

lemma number_range_error:
  assumes "\<not> (mn \<le> n \<and> n \<le> mx)"
  shows "\<exists>e. part_range fld mn mx (show_int n) = Err e"
proof (cases "n < 0")
  case True
  then have "show_int n = [] @ CHR ''-'' # show_nat (nat (- n))" by (simp add: show_int_def)
  then have "CHR ''-'' \<in> set (show_int n)" "before_char (CHR ''-'') (show_int n) = []"
    using before_char_append [of "CHR ''-''" "[]"] by auto
  then show ?thesis by (simp add: part_range_def show_int_not_star atoi_def)
next
  case False
  then have "atoi (show_int n) = None \<or> atoi (show_int n) = Some n"
    using atoi_show_nat_big [of "nat n"] atoi_show_int [of n] by (cases "in_int64 n") (auto simp: show_int_def)
  then show ?thesis using assms False by (auto simp: part_range_def show_int_not_star show_int_no)
qed

lemma number_field_error:
  assumes "\<not> (mn \<le> n \<and> n \<le> mx)"
  shows "\<exists>e. parse_field fld mn mx (show_int n) = Err e"
  using number_range_error [OF assms, of fld]
  by (auto simp: parse_field_def split_on_none show_int_no parse_part_def part_base_def part_step_def show_int_not_star)

section \<open>Expressions\<close>

lemma show_int_word:
  "go_fields (show_int n @ CHR '' '' # r) = show_int n # go_fields r" "go_fields (show_int n) = [show_int n]"
  by (rule go_fields_word go_fields_last; use show_int_not_space in auto)+

lemma expr_fields:
  "go_fields (minute_expr sec) = [show_int sec, ''*'', ''*'', ''*'', ''*'', ''*'']"
  "go_fields (hour_expr mi) = [show_int 0, show_int mi, ''*'', ''*'', ''*'', ''*'']"
  "go_fields (daily_expr h mi sec) = [show_int sec, show_int mi, show_int h, ''*'', ''*'', ''*'']"
  "go_fields (weekly_expr wd h mi sec) = [show_int sec, show_int mi, show_int h, ''*'', ''*'', show_int wd]"
proof -
  have z: "show_int 0 = ''0''" by code_simp
  have stars: "go_fields ''* * * * *'' = [''*'', ''*'', ''*'', ''*'', ''*'']" "go_fields ''* * * *'' = [''*'', ''*'', ''*'', ''*'']"
    "go_fields ''* * *'' = [''*'', ''*'', ''*'']" by code_simp+
  have week: "go_fields (''* * '' @ r) = ''*'' # ''*'' # go_fields r" for r
    by (simp add: is_space_def not_space_def)
  have hour: "go_fields (''0 '' @ r) = ''0'' # go_fields r" for r
    by (simp add: is_space_def not_space_def)
  show "go_fields (minute_expr sec) = [show_int sec, ''*'', ''*'', ''*'', ''*'', ''*'']"
    unfolding minute_expr_def using show_int_word(1) [of sec "''* * * * *''"] stars by simp
  show "go_fields (hour_expr mi) = [show_int 0, show_int mi, ''*'', ''*'', ''*'', ''*'']"
    unfolding hour_expr_def hour using show_int_word(1) [of mi "''* * * *''"] stars z by simp
  show "go_fields (daily_expr h mi sec) = [show_int sec, show_int mi, show_int h, ''*'', ''*'', ''*'']"
    unfolding daily_expr_def using show_int_word(1) stars by simp
  show "go_fields (weekly_expr wd h mi sec) = [show_int sec, show_int mi, show_int h, ''*'', ''*'', show_int wd]"
    unfolding weekly_expr_def using show_int_word week [of "show_int wd"] by simp
qed

lemma parse_six:
  assumes "go_fields s = [a, b, c, d, m, w]" "parse_field FSec 0 59 a = Ok fs" "parse_field FMin 0 59 b = Ok fm"
    "parse_field FHour 0 23 c = Ok fh" "parse_field FDom 1 31 d = Ok fd" "parse_field FMonth 1 12 m = Ok fo"
    "parse_field FDow 0 6 w = Ok fw"
  shows "parse s = Ok \<lparr>e_raw = s, e_sec = fs, e_min = fm, e_hour = fh, e_dom = fd, e_month = fo, e_dow = fw\<rparr>"
  using assms by (simp add: parse_def parse_tail_def)

definition decided :: "cron_field \<Rightarrow> int \<Rightarrow> int \<Rightarrow> string \<Rightarrow> bool" where
  "decided fld mn mx w \<longleftrightarrow> (\<exists>f. parse_field fld mn mx w = Ok f) \<or> (\<exists>e. parse_field fld mn mx w = Err e)"

lemma parse_six_error:
  assumes "go_fields s = [a, b, c, d, m, w]"
    and "decided FSec 0 59 a" "decided FMin 0 59 b" "decided FHour 0 23 c" "decided FDom 1 31 d"
      "decided FMonth 1 12 m" "decided FDow 0 6 w"
    and "(\<exists>e. parse_field FSec 0 59 a = Err e) \<or> (\<exists>e. parse_field FMin 0 59 b = Err e) \<or>
      (\<exists>e. parse_field FHour 0 23 c = Err e) \<or> (\<exists>e. parse_field FDow 0 6 w = Err e)"
  shows "\<exists>e. parse s = Err e"
  using assms unfolding decided_def by (auto simp: parse_def parse_tail_def)

lemma number_decided: "0 \<le> mn \<Longrightarrow> mx < 60 \<Longrightarrow> decided fld mn mx (show_int n)"
  using number_field [of mn mx n fld] number_field_error [of mn n mx fld] unfolding decided_def by blast

lemma star_decided: "0 \<le> mn \<Longrightarrow> mn \<le> mx \<Longrightarrow> mx < 60 \<Longrightarrow> decided fld mn mx ''*''"
  using star_field unfolding decided_def by blast

section \<open>When the schedules fire\<close>

lemma clock_bounds:
  "0 \<le> time_second z t \<and> time_second z t < 60" "0 \<le> time_minute z t \<and> time_minute z t < 60"
  "0 \<le> time_hour z t \<and> time_hour z t < 24" "1 \<le> time_month z t \<and> time_month z t \<le> 12"
  "0 \<le> time_weekday z t \<and> time_weekday z t < 60"
proof -
  note loc_bounds(1-4) [of "local_sec z t"]
  then show "0 \<le> time_second z t \<and> time_second z t < 60" "0 \<le> time_minute z t \<and> time_minute z t < 60"
    "0 \<le> time_hour z t \<and> time_hour z t < 24" "1 \<le> time_month z t \<and> time_month z t \<le> 12"
    by (simp_all add: time_second_def time_minute_def time_hour_def time_month_def month_of_day_bounds
        loc_minute_def loc_hour_def)
  show "0 \<le> time_weekday z t \<and> time_weekday z t < 60"
    using weekday_of_day_bounds [of "local_day z t"] unfolding time_weekday_def by linarith
qed

text \<open>A value a calendar method is given, or none for a star.\<close>

definition word_of :: "int option \<Rightarrow> string" where
  "word_of v = (case v of None \<Rightarrow> ''*'' | Some n \<Rightarrow> show_int n)"

definition hits :: "int option \<Rightarrow> int \<Rightarrow> bool" where
  "hits v k \<longleftrightarrow> (case v of None \<Rightarrow> True | Some n \<Rightarrow> k = n)"

definition within :: "int \<Rightarrow> int option \<Rightarrow> bool" where
  "within mx v \<longleftrightarrow> (case v of None \<Rightarrow> True | Some n \<Rightarrow> 0 \<le> n \<and> n \<le> mx)"

lemma word_field:
  assumes "0 \<le> mx" "mx < 60" "within mx v"
  shows "\<exists>f. parse_field fld 0 mx (word_of v) = Ok f \<and>
    (\<forall>k. 0 \<le> k \<and> k \<le> mx \<longrightarrow> (in_field f k \<longleftrightarrow> hits v k)) \<and> (f_all f \<longleftrightarrow> v = None)"
proof (cases v)
  case None
  then show ?thesis using star_field [of 0 mx fld] assms by (force simp: word_of_def hits_def)
next
  case (Some n)
  then show ?thesis using number_field [of 0 mx n fld] assms by (force simp: word_of_def hits_def within_def)
qed

lemma word_decided: "0 \<le> mx \<Longrightarrow> mx < 60 \<Longrightarrow> decided fld 0 mx (word_of v)"
  by (simp add: word_of_def number_decided star_decided split: option.split)

lemma word_error: "\<not> within mx v \<Longrightarrow> \<exists>e. parse_field fld 0 mx (word_of v) = Err e"
  using number_field_error [of 0 _ mx fld] by (auto simp: within_def word_of_def split: option.splits)

definition calendar_words :: "int option \<Rightarrow> int option \<Rightarrow> int option \<Rightarrow> int option \<Rightarrow> string list" where
  "calendar_words sec mi h wd = [word_of sec, word_of mi, word_of h, ''*'', ''*'', word_of wd]"

lemma calendar_parse:
  assumes f: "go_fields s = calendar_words sec mi h wd"
    and ok: "within 59 sec" "within 59 mi" "within 23 h" "within 6 wd"
  shows "\<exists>e. parse s = Ok e \<and> (\<forall>z t. cron_matches e z t \<longleftrightarrow>
    hits sec (time_second z t) \<and> hits mi (time_minute z t) \<and> hits h (time_hour z t) \<and> hits wd (time_weekday z t))"
proof -
  obtain fs where fs: "parse_field FSec 0 59 (word_of sec) = Ok fs" "\<And>k. 0 \<le> k \<and> k \<le> 59 \<Longrightarrow> in_field fs k \<longleftrightarrow> hits sec k"
    using word_field [OF _ _ ok(1), of FSec] by auto
  obtain fm where fm: "parse_field FMin 0 59 (word_of mi) = Ok fm" "\<And>k. 0 \<le> k \<and> k \<le> 59 \<Longrightarrow> in_field fm k \<longleftrightarrow> hits mi k"
    using word_field [OF _ _ ok(2), of FMin] by auto
  obtain fh where fh: "parse_field FHour 0 23 (word_of h) = Ok fh" "\<And>k. 0 \<le> k \<and> k \<le> 23 \<Longrightarrow> in_field fh k \<longleftrightarrow> hits h k"
    using word_field [OF _ _ ok(3), of FHour] by auto
  obtain fd where fd: "parse_field FDom 1 31 ''*'' = Ok fd" "f_all fd" using star_field [of 1 31 FDom] by auto
  obtain fo where fo: "parse_field FMonth 1 12 ''*'' = Ok fo" "\<And>k. 0 \<le> k \<and> k < 60 \<Longrightarrow> in_field fo k \<longleftrightarrow> 1 \<le> k \<and> k \<le> 12"
    using star_field [of 1 12 FMonth] by auto
  obtain fw where fw: "parse_field FDow 0 6 (word_of wd) = Ok fw" "\<And>k. 0 \<le> k \<and> k \<le> 6 \<Longrightarrow> in_field fw k \<longleftrightarrow> hits wd k"
    "f_all fw \<longleftrightarrow> wd = None"
    using word_field [OF _ _ ok(4), of FDow] by auto
  let ?e = "\<lparr>e_raw = s, e_sec = fs, e_min = fm, e_hour = fh, e_dom = fd, e_month = fo, e_dow = fw\<rparr>"
  have "parse s = Ok ?e"
    using f fs(1) fm(1) fh(1) fd(1) fo(1) fw(1) unfolding calendar_words_def by (rule parse_six)
  moreover have "cron_matches ?e z t \<longleftrightarrow>
      hits sec (time_second z t) \<and> hits mi (time_minute z t) \<and> hits h (time_hour z t) \<and> hits wd (time_weekday z t)" for z t
  proof -
    have w: "time_weekday z t \<le> 6" by (simp add: time_weekday_def weekday_of_day_bounds)
    have m: "time_month z t < 60" using clock_bounds(4) [of z t] by linarith
    have "day_ok ?e z t \<longleftrightarrow> hits wd (time_weekday z t)"
      using fd(2) fw(2) [of "time_weekday z t"] fw(3) clock_bounds(5) [of z t] w
      by (auto simp: day_ok_def day_match_def hits_def)
    then show ?thesis
      using fs(2) [of "time_second z t"] fm(2) [of "time_minute z t"] fh(2) [of "time_hour z t"]
        fo(2) [of "time_month z t"] clock_bounds [of z t] m by (simp add: cron_matches_def)
  qed
  ultimately show ?thesis by blast
qed

lemma calendar_parse_error:
  assumes f: "go_fields s = calendar_words sec mi h wd"
    and bad: "\<not> (within 59 sec \<and> within 59 mi \<and> within 23 h \<and> within 6 wd)"
  shows "\<exists>e. parse s = Err e"
proof (rule parse_six_error [OF f [unfolded calendar_words_def]])
  show "(\<exists>e. parse_field FSec 0 59 (word_of sec) = Err e) \<or> (\<exists>e. parse_field FMin 0 59 (word_of mi) = Err e) \<or>
      (\<exists>e. parse_field FHour 0 23 (word_of h) = Err e) \<or> (\<exists>e. parse_field FDow 0 6 (word_of wd) = Err e)"
    using bad word_error by blast
qed (simp_all add: word_decided star_decided)

text \<open>
  \<open>schedules_exactly\<close>: a call that is given values in range (\<open>ok\<close>) adds an entry whose expression
  matches exactly the instants of \<open>P\<close>; otherwise it returns the error of \<open>Parse\<close> and changes nothing.
\<close>

definition schedules_exactly ::
  "(nat \<Rightarrow> go_err + string) \<Rightarrow> string \<Rightarrow> 's sched \<Rightarrow> 's sched \<times> (go_err, schedule) outcome \<Rightarrow> bool \<Rightarrow>
   (zone \<Rightarrow> time \<Rightarrow> bool) \<Rightarrow> bool" where
  "schedules_exactly rand name s res ok P \<longleftrightarrow>
     (if ok then \<exists>e. res = add_entry rand name (CronLoop e) s \<and> (\<forall>z t. cron_matches e z t = P z t)
      else \<exists>err. res = (s, Err (CronFailed err)))"

lemma calendar_schedule:
  assumes f: "go_fields ex = calendar_words sec mi h wd"
    and ok: "ok \<longleftrightarrow> within 59 sec \<and> within 59 mi \<and> within 23 h \<and> within 6 wd"
    and P: "\<And>z t. P z t \<longleftrightarrow>
      hits sec (time_second z t) \<and> hits mi (time_minute z t) \<and> hits h (time_hour z t) \<and> hits wd (time_weekday z t)"
  shows "schedules_exactly rand name s (cron_schedule rand ex name s) ok P"
proof (cases ok)
  case True
  then obtain e where "parse ex = Ok e" "\<forall>z t. cron_matches e z t = P z t"
    using calendar_parse [OF f] ok P by blast
  with True show ?thesis unfolding schedules_exactly_def cron_schedule_def by auto
next
  case False
  then obtain e where "parse ex = Err e" using calendar_parse_error [OF f] ok by blast
  with False show ?thesis unfolding schedules_exactly_def cron_schedule_def by auto
qed


end
