(* ===== verification/Jobx_Api.thy ===== *)
theory Jobx_Api
  imports Scheduler Restore_Props
begin

text \<open>
  \<open>api.go\<close>: the public package gives the types, constants and functions of \<open>internal/core\<close> under its
  own name. The types and functions are stated here as the code states them, and that the constants
  are all there are. The enumeration instances let the simplifier run through all codes and statuses.
\<close>

section \<open>Types\<close>

type_synonym QueueFullPolicy = queue_full_policy
type_synonym ConflictPolicy = conflict_policy
type_synonym Metrics = metrics
type_synonym 's Option = "'s dispatcher_option"
type_synonym Job = job
type_synonym SubmitOption = submit_option
type_synonym Status = status
type_synonym 's Dispatcher = "'s disp"
type_synonym 's Store = "'s store_ops"
type_synonym 's Scheduler = "'s sched"
type_synonym Schedule = schedule
type_synonym SchedulerOption = sched_option

section \<open>Constants\<close>

definition Version :: string where
  "Version = ''v1.7.1''"

definition queue_policies :: "QueueFullPolicy list" where
  "queue_policies = [QueueFullBlock, QueueFullDrop]"

definition conflict_policies :: "ConflictPolicy list" where
  "conflict_policies = [ConflictSkip, ConflictReplace, ConflictAllow]"

definition statuses_exported :: "Status list" where
  "statuses_exported = [StatusQueued, StatusDelayed, StatusRunning, StatusSucceeded, StatusFailed, StatusCancelled]"

definition codes_exported :: "err_code list" where
  "codes_exported =
     [CodeInvalidConfig, CodeHandlerNotFound, CodeHandlerConflict, CodeJobInvalid, CodeJobNotFound, CodeQueueFull,
      CodeShuttingDown, CodeTimeout, CodeRetryExhausted, CodeExecutionFailed, CodeSkipped, CodeReplaced,
      CodeCronInvalid, CodeSchedulerStopped, CodeStoreInvalid, CodeIDGenerateFailed, CodeJobCancelled]"

instantiation err_code :: enum
begin

definition "enum_class.enum = codes_exported"
definition "enum_class.enum_all P \<longleftrightarrow> list_all P codes_exported"
definition "enum_class.enum_ex P \<longleftrightarrow> list_ex P codes_exported"

instance
proof
  have u: "c \<in> set codes_exported" for c by (cases c) (simp_all add: codes_exported_def)
  then show "(UNIV :: err_code set) = set enum_class.enum" by (auto simp: enum_err_code_def)
  show "distinct (enum_class.enum :: err_code list)" by (simp add: enum_err_code_def codes_exported_def)
  show "enum_class.enum_all P \<longleftrightarrow> Ball UNIV P" "enum_class.enum_ex P \<longleftrightarrow> Bex UNIV P" for P :: "err_code \<Rightarrow> bool"
    using u by (auto simp: enum_all_err_code_def enum_ex_err_code_def list_all_iff list_ex_iff)
qed

end

instantiation status :: enum
begin

definition "enum_class.enum = statuses_exported"
definition "enum_class.enum_all P \<longleftrightarrow> list_all P statuses_exported"
definition "enum_class.enum_ex P \<longleftrightarrow> list_ex P statuses_exported"

instance
proof
  have u: "s \<in> set statuses_exported" for s by (cases s) (simp_all add: statuses_exported_def)
  then show "(UNIV :: status set) = set enum_class.enum" by (auto simp: enum_status_def)
  show "distinct (enum_class.enum :: status list)" by (simp add: enum_status_def statuses_exported_def)
  show "enum_class.enum_all P \<longleftrightarrow> Ball UNIV P" "enum_class.enum_ex P \<longleftrightarrow> Bex UNIV P" for P :: "status \<Rightarrow> bool"
    using u by (auto simp: enum_all_status_def enum_ex_status_def list_all_iff list_ex_iff)
qed

end

section \<open>Functions\<close>

definition NewDispatcher :: "clock \<Rightarrow> 's \<Rightarrow> 's Option list \<Rightarrow> go_err + 's Dispatcher" where
  "NewDispatcher time_now st opts = new_dispatcher time_now st opts"

definition WithWorkers :: "int \<Rightarrow> 's Option" where "WithWorkers n = with_workers n"
definition WithQueueSize :: "int \<Rightarrow> 's Option" where "WithQueueSize n = with_queue_size n"
definition WithQueueFullPolicy :: "QueueFullPolicy \<Rightarrow> 's Option" where "WithQueueFullPolicy p = with_queue_full_policy p"
definition WithConflictPolicy :: "ConflictPolicy \<Rightarrow> 's Option" where "WithConflictPolicy p = with_conflict_policy p"
definition WithMaxPayloadBytes :: "int \<Rightarrow> 's Option" where "WithMaxPayloadBytes n = with_max_payload_bytes n"
definition WithLogger :: "logger \<Rightarrow> 's Option" where "WithLogger l = with_logger l"
definition WithMetrics :: "Metrics \<Rightarrow> 's Option" where "WithMetrics m = with_metrics m"
definition WithStore :: "'s Store option \<Rightarrow> 's Option" where "WithStore st = with_store st"
definition WithClock :: "clock option \<Rightarrow> 's Option" where "WithClock now = with_clock now"
definition WithTraceHook :: "bool \<Rightarrow> 's Option" where "WithTraceHook h = with_trace_hook h"
definition WithEventHook :: "bool \<Rightarrow> 's Option" where "WithEventHook h = with_event_hook h"

definition NewScheduler :: "zone \<Rightarrow> 's Dispatcher option \<Rightarrow> SchedulerOption list \<Rightarrow> go_err + 's Scheduler" where
  "NewScheduler loc dispatcher opts = new_scheduler loc dispatcher opts"

definition WithLocation :: "zone option \<Rightarrow> SchedulerOption" where "WithLocation loc = with_location loc"
definition WithSchedulerLogger :: "logger \<Rightarrow> SchedulerOption" where "WithSchedulerLogger l = with_scheduler_logger l"
definition WithTimeout :: "duration \<Rightarrow> SubmitOption" where "WithTimeout timeout = with_timeout timeout"
definition WithRunAt :: "time \<Rightarrow> SubmitOption" where "WithRunAt at = with_run_at at"
definition WithRetry :: "int \<Rightarrow> duration \<Rightarrow> SubmitOption" where "WithRetry n delay = with_retry n delay"

lemmas api_options = WithWorkers_def WithQueueSize_def WithQueueFullPolicy_def WithConflictPolicy_def
  WithMaxPayloadBytes_def WithLogger_def WithMetrics_def WithStore_def WithClock_def WithTraceHook_def WithEventHook_def

lemmas api_submit_options = WithTimeout_def WithRunAt_def WithRetry_def

section \<open>The package is complete\<close>

text \<open>The options a user can build are those that the invariants are proved for.\<close>

lemma api_options_known:
  "WithWorkers n \<in> known_options" "WithQueueSize n \<in> known_options" "WithQueueFullPolicy p \<in> known_options"
  "WithConflictPolicy c \<in> known_options" "WithMaxPayloadBytes n \<in> known_options" "WithLogger l \<in> known_options"
  "WithMetrics m \<in> known_options" "WithStore st \<in> known_options" "WithClock now \<in> known_options"
  "WithTraceHook h \<in> known_options" "WithEventHook h \<in> known_options"
  by (simp_all add: api_options known_options.intros)

lemma api_submit_options_known:
  "WithTimeout t \<in> submit_options" "WithRunAt at \<in> submit_options" "WithRetry n delay \<in> submit_options"
  by (simp_all add: api_submit_options submit_options.intros)

text \<open>
  The policies exported are exactly those the options accept, every status can be named, and every
  error of the package has an exported code, told from the others by its string.
\<close>

lemma policies_accepted:
  "(\<exists>c'. with_queue_full_policy p c = Inr c') \<longleftrightarrow> p \<in> set queue_policies"
  "(\<exists>c'. with_conflict_policy q c = Inr c') \<longleftrightarrow> q \<in> set conflict_policies"
  by (auto simp: with_queue_full_policy_def with_conflict_policy_def queue_policies_def conflict_policies_def)

lemma codes_complete: "(\<forall>c. c \<in> set codes_exported) \<and> (\<forall>c d. code_string c = code_string d \<longrightarrow> c = d)"
  by code_simp

lemma statuses_complete: "\<forall>s. s \<in> set statuses_exported"
  by code_simp

end
