(* ===== verification/Restart_Example.thy ===== *)
theory Restart_Example
  imports Jobx_Api
begin

text \<open>
  \<open>examples/advanced/main.go\<close>: a job is accepted by one dispatcher and stored, the dispatcher is
  dropped, and a second dispatcher on the same store restores it. This is the sequence of calls that the
  main goroutine makes, with the goroutines of the first dispatcher not getting to act before the
  restore, ten milliseconds later at the earliest; what is printed is the number of restored jobs.
\<close>

definition ten_ms :: duration where
  "ten_ms = 10000000"

definition report_payload :: string where
  "report_payload = ''{'' @ [CHR 0x22] @ ''type'' @ [CHR 0x22, CHR 0x3A, CHR 0x22] @ ''daily'' @ [CHR 0x22] @ ''}''"

text \<open>
  The clocks are what \<open>time.Now\<close> gives to each dispatcher. The handlers are numbers; the error of
  \<open>Handle\<close> is dropped.
\<close>

definition advanced_run ::
  "(nat \<Rightarrow> go_err + string) \<Rightarrow> clock \<Rightarrow> clock \<Rightarrow> logger \<Rightarrow> (go_err, nat \<times> memory_store Dispatcher) outcome" where
  "advanced_run rand clock1 clock2 l =
     (case NewDispatcher clock1 new_memory_store [WithWorkers 2, WithStore (Some memory_ops), WithLogger l] of
        Inl e \<Rightarrow> Err e
      | Inr d1 \<Rightarrow>
          (let d1' = fst (register_handler ''report'' (Some 0) d1)
           in case submit_after rand None ''report'' report_payload ten_ms [] d1' of
                (d1'', Err e) \<Rightarrow> Err e
              | (d1'', Panic) \<Rightarrow> Panic
              | (d1'', NoReturn) \<Rightarrow> NoReturn
              | (d1'', Ok jid) \<Rightarrow>
                  (case NewDispatcher clock2 (d_store d1'')
                          [WithWorkers 2, WithStore (Some memory_ops), WithLogger l, WithConflictPolicy ConflictAllow] of
                     Inl e \<Rightarrow> Err e
                   | Inr d2 \<Rightarrow>
                       (let d2' = fst (register_handler ''report'' (Some 0) d2)
                        in case restore None d2' of
                             (d2'', Ok n) \<Rightarrow> Ok (n, d2'')
                           | (d2'', Err (k, e)) \<Rightarrow> Err e
                           | (d2'', Panic) \<Rightarrow> Panic
                           | (d2'', NoReturn) \<Rightarrow> NoReturn))))"

section \<open>The two dispatchers\<close>

text \<open>A dispatcher on a store, with the handler of the example, as it is when nothing has happened yet.\<close>

definition example_cfg :: "clock \<Rightarrow> logger \<Rightarrow> conflict_policy \<Rightarrow> memory_store config" where
  "example_cfg clk l p = (default_config clk)\<lparr>cfg_workers := 2, cfg_store := Some memory_ops,
     cfg_logger := normalize_logger l, cfg_conflict := p\<rparr>"

definition example_start :: "clock \<Rightarrow> logger \<Rightarrow> conflict_policy \<Rightarrow> memory_store \<Rightarrow> nat \<Rightarrow> memory_store disp" where
  "example_start clk l p st h =
     \<lparr>d_cfg = example_cfg clk l p, d_handlers = [''report'' \<mapsto> h], d_ready = new_ready_queue 1024,
      d_stopped = False, d_signal = False, d_shutdown = None, d_running = True, d_executing = [],
      d_cancelled = {}, d_table = empty_status_table, d_in_flight = Map.empty, d_job_names = Map.empty,
      d_delay = [], d_ticks = 0, d_draws = 0, d_store = st, d_obs = []\<rparr>"

lemma example_cfg_sel:
  "cfg_store (example_cfg clk l p) = Some memory_ops" "cfg_conflict (example_cfg clk l p) = p"
  "cfg_now (example_cfg clk l p) = clk" "cfg_max_payload (example_cfg clk l p) = 1048576"
  "cfg_queue_policy (example_cfg clk l p) = QueueFullBlock"
  by (simp_all add: example_cfg_def default_config_def)

lemma report_name: "validate_name ''report'' = None"
  by (simp add: validate_name_def max_name_length_def)

lemma first_dispatcher:
  "\<exists>d. NewDispatcher clk st [WithWorkers 2, WithStore (Some memory_ops), WithLogger l] = Inr d \<and>
     fst (register_handler ''report'' (Some h) d) = example_start clk l ConflictSkip st h"
  by (simp add: NewDispatcher_def new_dispatcher_def api_options option_defs Let_def register_handler_def report_name
      example_start_def example_cfg_def default_config_def)

lemma second_dispatcher:
  "\<exists>d. NewDispatcher clk st [WithWorkers 2, WithStore (Some memory_ops), WithLogger l, WithConflictPolicy ConflictAllow] = Inr d \<and>
     fst (register_handler ''report'' (Some h) d) = example_start clk l ConflictAllow st h"
  by (simp add: NewDispatcher_def new_dispatcher_def api_options option_defs Let_def register_handler_def report_name
      example_start_def example_cfg_def default_config_def)

section \<open>The submission and the restore\<close>

definition report_job :: "clock \<Rightarrow> string \<Rightarrow> job" where
  "report_job clk jid = \<lparr>job_id = jid, job_name = ''report'', job_payload = report_payload, job_created_at = clk (Suc 0),
     job_run_at = clk 0 + ten_ms, job_max_retries = 0, job_retry_delay = 0, job_timeout = 0, job_attempt = 0\<rparr>"

lemma report_job_sel:
  "job_id (report_job clk jid) = jid" "job_name (report_job clk jid) = ''report''"
  "job_payload (report_job clk jid) = report_payload" "job_run_at (report_job clk jid) = clk 0 + ten_ms"
  by (simp_all add: report_job_def)

lemma report_payload_length: "length report_payload = 16"
  by (simp add: report_payload_def)

lemma example_start_sel:
  "d_cfg (example_start clk l p st h) = example_cfg clk l p" "d_handlers (example_start clk l p st h) = [''report'' \<mapsto> h]"
  "d_ticks (example_start clk l p st h) = 0" "d_draws (example_start clk l p st h) = 0"
  "d_store (example_start clk l p st h) = st" "d_ready (example_start clk l p st h) = new_ready_queue 1024"
  "d_in_flight (example_start clk l p st h) = Map.empty" "d_running (example_start clk l p st h)"
  by (simp_all add: example_start_def)

text \<open>The state before the submission of the job: three readings of the clock, and one draw.\<close>

lemma report_built:
  assumes "0 \<le> clk 0"
  shows "submit_after rand None ''report'' report_payload ten_ms [] (example_start clk l p st h) =
    (case rand 0 of
       Inl e \<Rightarrow> ((example_start clk l p st h)\<lparr>d_draws := Suc 0, d_ticks := Suc 0\<rparr>, Err (Wrapped CodeIDGenerateFailed e))
     | Inr jid \<Rightarrow> submit_entry None (report_job clk jid) ((example_start clk l p st h)\<lparr>d_draws := Suc 0, d_ticks := Suc (Suc 0)\<rparr>))"
  using assms
  by (simp add: submit_after_def ten_ms_def clock_read_def submit_with_options_def with_run_at_def zero_time_def
      build_entry_def report_name new_job_id_def example_start_sel example_cfg_sel report_payload_length report_job_def
      empty_spec_def split: sum.split)

lemma report_submitted:
  assumes "0 \<le> clk 0"
  shows "\<exists>d. submit_entry None (report_job clk jid)
      ((example_start clk l ConflictSkip new_memory_store h)\<lparr>d_draws := Suc 0, d_ticks := Suc (Suc 0)\<rparr>) = (d, Ok jid) \<and>
    d_store d = [(jid, report_job clk jid)]"
proof -
  let ?j = "report_job clk jid"
  let ?d = "(example_start clk l ConflictSkip new_memory_store h)\<lparr>d_draws := Suc 0, d_ticks := Suc (Suc 0)\<rparr>"
  let ?d3 = "(example_start clk l ConflictSkip new_memory_store h)\<lparr>d_draws := Suc 0,
    d_in_flight := add_in_flight Map.empty ''report'' jid,
    d_job_names := (d_job_names (example_start clk l ConflictSkip new_memory_store h))(jid \<mapsto> ''report''),
    d_ticks := Suc (Suc (Suc 0))\<rparr>"
  have c: "apply_conflict ?j ?d = (?d\<lparr>d_in_flight := add_in_flight (d_in_flight ?d) ''report'' jid\<rparr>, None)"
    by (simp add: apply_conflict_def example_start_sel example_cfg_sel report_job_sel flying_def
        ConflictSkip_def ConflictAllow_def ConflictReplace_def)
  have e: "submit_entry None ?j ?d = (if \<not> clk (Suc (Suc 0)) < clk 0 + ten_ms then submit_now None ?j ?d3 else submit_later ?j ?d3)"
    using assms by (simp add: Let_def submit_entry_def c report_job_sel example_start_sel example_cfg_sel clock_read_def
        zero_time_def ten_ms_def)
  have p: "persist ?j ?d3 = (?d3\<lparr>d_store := [(jid, ?j)]\<rparr>, None)"
    by (simp add: persist_def example_start_sel example_cfg_sel memory_ops_def memory_save_def new_memory_store_def report_job_sel)
  have q: "rq_push None (new_ready_queue 1024) ?j b = (q, r) \<Longrightarrow> r = Ok ()" for b q r
    by (auto simp: rq_push_def push_attempt_def new_ready_queue_def rq_signal_def)
  have n: "\<exists>d. submit_now None ?j ?d3 = (d, Ok jid) \<and> d_store d = [(jid, ?j)]"
  proof -
    obtain q' r where qr: "rq_push None (new_ready_queue 1024) ?j False = (q', r)" by fastforce
    then show ?thesis using q [OF qr]
      by (simp add: submit_now_def p submit_push_def enqueue_ready_def example_start_sel example_cfg_sel
          QueueFullBlock_def QueueFullDrop_def submit_accepted_def disp_simps report_job_sel)
  qed
  have "\<exists>d. submit_later ?j ?d3 = (d, Ok jid) \<and> d_store d = [(jid, ?j)]"
    by (simp add: submit_later_def p disp_simps push_delayed_def report_job_sel)
  with n show ?thesis by (simp add: e)
qed

lemma report_restored:
  "\<exists>d. restore None (example_start clk l ConflictAllow [(jid, report_job clk1 jid)] h) = (d, Ok 1) \<and>
     report_job clk1 jid \<in> set (d_delay d) \<union> set (rq_items (d_ready d))"
proof -
  let ?s = "example_start clk l ConflictAllow [(jid, report_job clk1 jid)] h" and ?j = "report_job clk1 jid"
  have l: "st_list memory_ops [(jid, ?j)] = ([(jid, ?j)], Inr [?j])" by (simp add: memory_ops_def memory_list_def)
  obtain q' r where qr: "rq_push None (new_ready_queue 1024) ?j False = (q', r)" by fastforce
  then have r: "r = Ok ()" by (auto simp: rq_push_def push_attempt_def new_ready_queue_def rq_signal_def)
  have "\<exists>d. restore_one None ?j ?s = (d, Ok True)"
    using qr r by (simp add: Let_def restore_one_def restore_push_def add_in_flight_for_restore_def clock_read_def
        example_start_sel example_cfg_sel report_job_sel)
  then obtain d where o: "restore_one None ?j ?s = (d, Ok True)" by blast
  have "restore None ?s = (d, Ok 1)"
    using o l by (simp add: restore_def example_start_sel example_cfg_sel) (simp add: example_start_def)
  moreover have "mset (d_delay d) + mset (rq_items (d_ready d)) = {#?j#}"
    using restore_one_effect [OF o] by (simp add: example_start_def new_ready_queue_def)
  then have "?j \<in># mset (d_delay d) + mset (rq_items (d_ready d))" by simp
  ultimately show ?thesis by auto
qed

section \<open>Property\<close>



end
