(* ===== verification/Basic_Example.thy ===== *)
theory Basic_Example
  imports Restart_Example
begin

text \<open>
  \<open>examples/basic/main.go\<close>: jobs submitted now and later, and schedules added and stopped. This is the
  sequence of calls of the main goroutine. What the other goroutines do to the dispatcher before the
  \<open>k\<close>-th call is \<open>others k\<close>, and what the goroutine of the stopped schedule does until \<open>Stop\<close> returns
  is the list \<open>turns\<close> of its events.
\<close>

definition fifty_ms :: duration where
  "fifty_ms = 50000000"

text \<open>The payloads are the bytes of their text.\<close>

definition now_payload :: string where
  "now_payload = [CHR 0xE7, CHR 0xAB, CHR 0x8B, CHR 0xE5, CHR 0x8D, CHR 0xB3, CHR 0xE6, CHR 0x89, CHR 0xA7, CHR 0xE8, CHR 0xA1, CHR 0x8C]"

definition later_payload :: string where
  "later_payload = [CHR 0xE5, CHR 0xBB, CHR 0xB6, CHR 0xE8, CHR 0xBF, CHR 0x9F, CHR 0xE6, CHR 0x89, CHR 0xA7, CHR 0xE8, CHR 0xA1, CHR 0x8C]"

fun run_turns :: "(nat \<Rightarrow> go_err + string) \<Rightarrow> nat \<Rightarrow> (loop_event \<times> time) list \<Rightarrow> 's sched \<Rightarrow> 's sched" where
  "run_turns rand p [] s = s"
| "run_turns rand p ((ev, now) # ts) s =
     (case loop_turn rand p ev now s of None \<Rightarrow> run_turns rand p ts s | Some s' \<Rightarrow> run_turns rand p ts s')"

text \<open>\<open>every.Stop()\<close>, its wait included.\<close>

definition stopped_schedule ::
  "(nat \<Rightarrow> go_err + string) \<Rightarrow> (loop_event \<times> time) list \<Rightarrow> Schedule \<Rightarrow> 's Scheduler \<Rightarrow> 's Scheduler \<times> (go_err, unit) outcome" where
  "stopped_schedule rand turns sn s =
     (case schedule_stop sn s of
        (s1, Ok (Some p)) \<Rightarrow> (let s2 = run_turns rand p turns s1 in (s2, stop_wait p s2))
      | (s1, Ok None) \<Rightarrow> (s1, Ok ())
      | (s1, Err e) \<Rightarrow> (s1, Err e)
      | (s1, Panic) \<Rightarrow> (s1, Panic)
      | (s1, NoReturn) \<Rightarrow> (s1, NoReturn))"

definition basic_schedules ::
  "(nat \<Rightarrow> go_err + string) \<Rightarrow> zone \<Rightarrow> (nat \<Rightarrow> 's Dispatcher \<Rightarrow> 's Dispatcher) \<Rightarrow> (loop_event \<times> time) list \<Rightarrow>
   's Dispatcher \<Rightarrow> (go_err, nat) outcome" where
  "basic_schedules rand loc others turns d =
     (case NewScheduler loc (Some d) [] of
        Inl e \<Rightarrow> Err e
      | Inr s \<Rightarrow>
          (case every rand second ''greet'' s of
             (s1, Err e) \<Rightarrow> Err e
           | (s1, Panic) \<Rightarrow> Panic
           | (s1, NoReturn) \<Rightarrow> NoReturn
           | (s1, Ok first) \<Rightarrow>
               (case stopped_schedule rand turns first (s1\<lparr>s_disp := others 2 (s_disp s1)\<rparr>) of
                  (s2, Err e) \<Rightarrow> Err e
                | (s2, Panic) \<Rightarrow> Panic
                | (s2, NoReturn) \<Rightarrow> NoReturn
                | (s2, Ok u) \<Rightarrow>
                    (case daily_at rand 3 0 0 ''greet'' (s2\<lparr>s_disp := others 3 (s_disp s2)\<rparr>) of
                       (s3, Err e) \<Rightarrow> Err e
                     | (s3, Panic) \<Rightarrow> Panic
                     | (s3, NoReturn) \<Rightarrow> NoReturn
                     | (s3, Ok sn) \<Rightarrow> Ok (length (list_schedules s3))))))"

text \<open>The result is what is printed: the identifier of the first job and the number of schedules.\<close>

definition basic_run ::
  "(nat \<Rightarrow> go_err + string) \<Rightarrow> clock \<Rightarrow> zone \<Rightarrow> logger \<Rightarrow> (nat \<Rightarrow> unit Dispatcher \<Rightarrow> unit Dispatcher) \<Rightarrow>
   (loop_event \<times> time) list \<Rightarrow> (go_err, string \<times> nat) outcome" where
  "basic_run rand time_now loc l others turns =
     (case NewDispatcher time_now () [WithWorkers 4, WithQueueSize 1024, WithLogger l] of
        Inl e \<Rightarrow> Err e
      | Inr d \<Rightarrow>
          (let d1 = fst (register_handler ''greet'' (Some 0) d);
               d2 = fst (register_handler ''greet-later'' (Some 1) d1)
           in case submit rand None ''greet'' now_payload [] d2 of
                (d3, Err e) \<Rightarrow> Err e
              | (d3, Panic) \<Rightarrow> Panic
              | (d3, NoReturn) \<Rightarrow> NoReturn
              | (d3, Ok jid) \<Rightarrow>
                  (case submit_after rand None ''greet-later'' later_payload fifty_ms [] (others 0 d3) of
                     (d4, Err e) \<Rightarrow> Err e
                   | (d4, Panic) \<Rightarrow> Panic
                   | (d4, NoReturn) \<Rightarrow> NoReturn
                   | (d4, Ok later) \<Rightarrow>
                       (case basic_schedules rand loc others turns (others 1 d4) of
                          Ok n \<Rightarrow> Ok (jid, n)
                        | Err e \<Rightarrow> Err e
                        | Panic \<Rightarrow> Panic
                        | NoReturn \<Rightarrow> NoReturn))))"

section \<open>What it prints\<close>

lemma loop_turn_no_entries:
  "loop_turn rand p ev now s = Some s' \<Longrightarrow> s_entries s = [] \<Longrightarrow> s_entries s' = []"
proof -
  have parts: "s_entries (set_state q st t) = s_entries t" "s_entries (set_next q at t) = s_entries t"
    "s_entries (log_warn w t) = s_entries t" "s_entries (t\<lparr>s_disp := d\<rparr>) = s_entries t"
    "s_entries (loop_exit q t) = AList.delete (se_id (s_heap t ! q)) (s_entries t)" for q st at w d and t :: "'a sched"
    by (simp_all add: set_state_def set_next_def log_warn_def loop_exit_def update_entry_def remove_entry_def)
  have fired: "s_entries (fire_entry rand q t) = []" if "s_entries t = []" for q and t :: "'a sched"
    using that by (auto simp: fire_entry_def fire_def fire_result_def after_fire_def parts
        split: prod.split outcome.split loop_kind.split)
  show "loop_turn rand p ev now s = Some s' \<Longrightarrow> s_entries s = [] \<Longrightarrow> s_entries s' = []"
    by (auto simp: loop_turn_def every_turn_def cron_turn_def one_shot_turn_def see_stop_def cron_arm_def parts fired
        split: if_splits loop_kind.splits loop_state.splits loop_event.splits option.splits sum.splits)
qed

lemma run_turns_no_entries: "s_entries s = [] \<Longrightarrow> s_entries (run_turns rand p ts s) = []"
proof (induction ts arbitrary: s)
  case (Cons t ts)
  obtain ev now where t: "t = (ev, now)" by fastforce
  show ?case
    using Cons loop_turn_no_entries [of rand p ev now s] by (cases "loop_turn rand p ev now s") (simp_all add: t)
qed simp

lemma add_first_entry:
  assumes "add_entry rand name kind s = (s', Ok sn)" "s_entries s = []"
  shows "s_entries s' = [(sn_id sn, length (s_heap s))] \<and> sn_bound sn"
  using assms by (auto simp: add_entry_def new_entry_def new_job_id_def register_def snapshot_def
      split: option.splits sum.splits if_splits)

lemma stopped_only_entry:
  assumes "stopped_schedule rand turns sn s = (s', Ok u)" "s_entries s = [(sn_id sn, p)]" "sn_bound sn"
  shows "s_entries s' = []"
proof -
  have "s_entries s1 = []" if "schedule_stop sn s = (s1, Ok x)" for s1 x
    using that assms(2,3) by (auto simp: schedule_stop_def stop_entry_def close_stop_def remove_entry_def update_entry_def
        split: prod.splits outcome.splits if_splits)
  then show ?thesis using assms(1) run_turns_no_entries
    by (auto simp: stopped_schedule_def Let_def split: prod.splits outcome.splits option.splits)
qed



end
