(* ===== verification/Spec2Isabelle.thy ===== *)
theory Spec2Isabelle
  imports Cron_Syntax Cron_Triggers Ready_Queue Job_Places Shutdown_Props Attempts Scheduler_Ends Service Calendar Basic_Example
begin

text \<open>
  Verification library for jobx, a job scheduling and dispatching library in Go.

  The program. A \<^emph>\<open>dispatcher\<close> (\<open>internal/core/dispatcher.go\<close>) accepts jobs by name and payload. A
  job due now goes into a bounded \<^emph>\<open>ready queue\<close> (\<open>ready_queue.go\<close>), a job due later into a
  \<^emph>\<open>delay heap\<close> (\<open>delayHeap\<close> in \<open>dispatcher.go\<close>). The goroutine \<open>delayLoop\<close> moves due jobs from
  the heap to the queue; a fixed number of \<^emph>\<open>workers\<close> (\<open>worker.go\<close>) take jobs from the queue and run
  the handlers registered for their names, with retries and exponential back-off. Around this stand the
  \<^emph>\<open>conflict policy\<close> (jobs of one name run one at a time, replace each other, or are allowed), the
  \<^emph>\<open>status table\<close>, the optional \<^emph>\<open>store\<close> that keeps accepted jobs over a restart, and callbacks. A
  \<^emph>\<open>scheduler\<close> (\<open>scheduler.go\<close>) submits jobs at intervals, at one instant, or at the instants of a
  \<^emph>\<open>cron expression\<close> (\<open>cron/cron.go\<close>).

  The theories, in the order of their dependencies:

  \<^item> \<open>Jobx_Prelude\<close>: the collections of rewrite rules, Go's \<open>int64\<close> (\<open>wrap64\<close>, \<open>shl64\<close>), the type
    \<open>outcome\<close> of a Go call (a result, an error, a panic, or no return), lemmas on lists.
  \<^item> \<open>Go_Strings\<close>, \<open>Go_Time\<close>: the parts of \<open>strings\<close>, \<open>strconv\<close>, \<open>fmt\<close> and \<open>time\<close> that the source
    uses. A time is the number of nanoseconds since the zero time, a location is a first offset and a
    list of changes; \<open>time.Date\<close> resolves gaps and overlaps as the library does.
  \<^item> \<open>Cron_Expr\<close>: \<open>Parse\<close> and \<open>parseField\<close>. \<open>Cron_Syntax\<close>: the documented syntax as a datatype, its
    printer, and the round trip. \<open>Cron_Next\<close>: \<open>nextInSet\<close>, \<open>dayMatch\<close>, \<open>Next\<close>, \<open>NextN\<close>.
    \<open>Cron_Correct\<close> and \<open>Cron_Triggers\<close>: what they compute, and where the search goes wrong.
  \<^item> \<open>Jobx_Errors\<close>: \<open>errors.go\<close>. \<open>Job\<close>: \<open>job.go\<close> and the name rule. \<open>Config\<close>: \<open>options.go\<close>, the
    store interface of \<open>store.go\<close> and the in-memory store of \<open>examples/advanced\<close>.
  \<^item> \<open>Delay_Heap\<close>: \<open>delayHeap\<close> with the sifting of \<open>container/heap\<close>. \<open>Status_Table\<close>: \<open>markStatus\<close> and
    \<open>JobStatus\<close>. \<open>In_Flight\<close>: \<open>inFlight\<close>. \<open>Ready_Queue\<close>: \<open>readyQueue\<close>, once as sequential operations
    on its state, once as a system of goroutines that push, pop, remove and close in small steps.
  \<^item> \<open>Dispatcher\<close>: the record \<open>disp\<close> (the struct \<open>Dispatcher\<close> without its locks) and the API.
    \<open>Delay_Loop\<close>: \<open>popDue\<close>, \<open>drainDelayed\<close>, \<open>delayLoop\<close>, \<open>Shutdown\<close>, \<open>waitWorkers\<close>. \<open>Worker\<close>:
    \<open>runEntry\<close> cut at the call of the handler (\<open>run_begin\<close>, \<open>run_end\<close>), \<open>scheduleRetry\<close>.
  \<^item> \<open>Dispatcher_Inv\<close>: the invariant \<open>disp_ok\<close> and that each operation keeps it. \<open>Dispatcher_System\<close>:
    the step relation \<open>world_step\<close> of a dispatcher with its callers, workers and delay loop.
    \<open>System_Runs\<close>: what the proofs on its steps share.
    \<open>Submit_Props\<close>, \<open>Delay_Props\<close>, \<open>Run_Props\<close>, \<open>Restore_Props\<close>: what the operations do.
    \<open>Job_Places\<close>: that the status of a job says where it is. \<open>Gauges\<close>: sums over what the callbacks,
    hooks and loggers are told. \<open>Job_System\<close>: the jobs as an abstract system that counts attempts;
    \<open>Job_Moves\<close> and \<open>Job_Once\<close>: which jobs each operation moves, and that the dispatcher refines
    that system. \<open>Shutdown_Props\<close>: what becomes of the delay heap after the delay loop has returned.
    \<open>Observability\<close> and \<open>Attempts\<close>: what the gauges tell, and which attempts are started.
  \<^item> \<open>Scheduler\<close>: entries, registration, one turn of each of the three goroutines (\<open>every_turn\<close>,
    \<open>cron_turn\<close>, \<open>one_shot_turn\<close>), \<open>Stop\<close>, \<open>List\<close>, \<open>Shutdown\<close>. \<open>Scheduler_Inv\<close>: the step relation
    \<open>sched_step\<close> and its invariant. \<open>Scheduler_Ends\<close>: the life of an entry. \<open>Service\<close>: a
    scheduler and its dispatcher together, which reach only what each reaches by itself. \<open>Calendar\<close>: \<open>EveryMinuteAt\<close>, \<open>EveryHourAt\<close>, \<open>DailyAt\<close>, \<open>WeeklyAt\<close>.
  \<^item> \<open>Jobx_Api\<close>: the public package \<open>api.go\<close>, with enumeration instances for the codes and statuses.
    \<open>Restart_Example\<close>: \<open>run\<close> of \<open>examples/advanced/main.go\<close>, a job that survives a restart.
    \<open>Basic_Example\<close>: \<open>run\<close> of \<open>examples/basic/main.go\<close>, with other goroutines in between.
\<close>

text \<open>
  Interfaces, as locales, each interpreted on the definitions of the program:

  \<^item> \<open>delay_queue\<close> (\<open>Delay_Heap\<close>): put, take and remove on a multiset of jobs with a least element.
    Interpreted by the heap operations; its drained runs carry the proofs on \<open>popDue\<close> and
    \<open>drainDelayed\<close>.
  \<^item> \<open>forgetful_map\<close> (\<open>Status_Table\<close>): a map that may forget keys. Interpreted by the status table.
  \<^item> \<open>job_store\<close> (\<open>Config\<close>): what \<open>store.go\<close> documents of a store. Interpreted by the in-memory store.
    The operations of the dispatcher take the store as a parameter, the record \<open>store_ops\<close>.
  \<^item> \<open>world_invariant\<close> (\<open>Dispatcher_System\<close>): what a new dispatcher has and each step keeps, every
    reachable state has. Interpreted by the places of the jobs and by the gauges.
  \<^item> \<open>simulation\<close> (\<open>Simulations\<close>): a step relation that another one refines. Interpreted by the
    dispatcher over the abstract job system, and by the scheduler with its dispatcher over each of them.
  \<^item> \<open>trigger_source\<close> (\<open>Cron_Triggers\<close>): the next trigger is the least one. Interpreted by \<open>Next\<close> in
    locations of whole hours; the correctness of \<open>NextN\<close> is proved inside it.

  What the groups of lemmas show. Parsing is total up to a panic on absurd steps, gives well-formed
  expressions, and reads printed fields back. \<open>Next\<close> returns in every location of fixed offset, gives
  a matching instant whenever it returns one, and the least one where the offset is a whole number of
  hours. The heap, the status table and the ready queue do what their interfaces say; for the queue in
  every interleaving: bounded, in order, nothing lost or made up, no lost wake-up without blocking
  pushes, everyone released by a close. Every reachable dispatcher satisfies \<open>disp_ok\<close>; a cancelled job
  is not started; the gauge of running handlers is exact and that of queued jobs never too low; a
  dispatcher that has begun to shut down accepts nothing; the status of a job says where it is, until a
  shutdown begins. A dispatcher without a store refines the abstract job system, so a job is in one place
  at a time and each of its attempts is started once, in order. The effects of submissions, of the delay
  loop, of an execution, of a cancellation and of a restore are stated in full, failures included. A
  reachable scheduler lists its live entries once each, closes no channel twice, and winds down after
  \<open>Shutdown\<close>; a stopped entry is silent for good, one that fires once does so once, and the calendar
  methods fire at exactly the times they name. What holds of a dispatcher holds of one that a scheduler
  drives. The properties that start from a fault of the program say so.

  Bounds. \<open>int64\<close> arithmetic wraps where it can overflow and the code does not rule it out: the loop
  index of \<open>parseField\<close>, the back-off shift, the attempt counter. Elsewhere values are bounded by what
  the code checked before, or are times, kept as unbounded numbers. Loops of the source are structural
  recursion or functions with a measure; the loop of \<open>Next\<close> is a partial function, whose value is None
  when it does not return, and the properties that it returns are proved as such. Small-step systems use
  no fuel.

  Parameters. The identifiers \<open>idgenx.RandomHex\<close> draws are a function \<open>rand\<close> from the number of draws;
  where a property needs them to differ it says so. The clock is the function of the configuration. A
  handler is any function on the state (\<open>run_entry\<close>), or, in \<open>world_step\<close>, whatever happens between
  \<open>run_begin\<close> and \<open>run_end\<close>. Errors of other modules are opaque values. A context is known by whether,
  and how, it has ended when it is looked at.

  Not modelled. The texts of messages and the formatting of log fields: every call of a callback, hook or
  logger is one entry of a trace, with its data. The locks: an operation of \<open>world_step\<close> and
  \<open>sched_step\<close> is one step up to a call that can wait (a submission, a restore or a delay
  loop that waits for room is resumed by a step of its own, and \<open>Restore\<close> takes one step for
  each stored job); the interleavings within \<open>readyQueue\<close> are those of
  \<open>sys_step\<close>, and the order of a push and the status record after it is opened up in
  \<open>late_queued_status\<close>. The process end after a panic outside a handler is a flag.
  \<open>trace.go\<close> (aliases of types of another module), the package comments and \<open>version.go\<close> have no
  logic to model. The examples are the calls of their main goroutines, without the logger that the basic
  one builds and without the shutdowns it defers.
\<close>

end
